(* ===== verification/Dark_Prelude.thy ===== *)
theory Dark_Prelude
  imports Complex_Main "HOL-Library.Word" "HOL-Library.Sublist" "HOL-Library.Multiset"
begin

text \<open>
  The prelude of the development: the JavaScript values the client code tests dynamically
  (truthiness, comparison with \<open>null\<close>), the observable effects of a task (events, console
  output, calls of browser and third-party objects), strings, the conversion of a number by
  \<open>| 0\<close>, and the generic lemmas the component theories share.
\<close>

named_theorems truthy_simps \<open>truthiness of JavaScript values\<close>
named_theorems effect_simps \<open>projections of effect logs\<close>

section \<open>JavaScript values\<close>

text \<open>
  Finite doubles are rational numbers; the components that compute with numbers only add,
  compare and truncate them, so \<open>JNum\<close> carries a \<open>rat\<close>. \<open>NaN\<close> is separate because it is
  falsy and unequal to itself.
\<close>

datatype jsval =
    JUndefined
  | JNull
  | JBool bool
  | JNum rat
  | JNaN
  | JStr string
  | JArr "jsval list"
  | JObj "(string \<times> jsval) list"

text \<open>\<open>ToBoolean\<close>: the value of \<open>if (v)\<close>, \<open>!v\<close> and \<open>v || w\<close>.\<close>

fun truthy :: "jsval \<Rightarrow> bool" where
  "truthy JUndefined = False"
| "truthy JNull = False"
| "truthy (JBool b) = b"
| "truthy (JNum q) = (q \<noteq> 0)"
| "truthy JNaN = False"
| "truthy (JStr s) = (s \<noteq> [])"
| "truthy (JArr vs) = True"
| "truthy (JObj fs) = True"

declare truthy.simps [truthy_simps]

text \<open>\<open>a || b\<close> on values.\<close>

definition js_or :: "jsval \<Rightarrow> jsval \<Rightarrow> jsval" where
  "js_or a b = (if truthy a then a else b)"

text \<open>Reading a property of an object literal: the last write wins, a missing one is
  \<open>undefined\<close>; reading a property of \<open>null\<close> or \<open>undefined\<close> throws, which is \<open>None\<close>.\<close>

fun get_prop :: "jsval \<Rightarrow> string \<Rightarrow> jsval option" where
  "get_prop JUndefined k = None"
| "get_prop JNull k = None"
| "get_prop (JObj fs) k =
     (case map_of (rev fs) k of None \<Rightarrow> Some JUndefined | Some v \<Rightarrow> Some v)"
| "get_prop v k = Some JUndefined"

section \<open>Effects\<close>

text \<open>
  What a task does to the outside, in order. \<open>CallExt obj args\<close> is the call of a method of an
  object the repository does not define (FullStory, Rollbar, Pusher, the DOM).
\<close>

datatype effect =
    DispatchEvent string jsval
  | ConsoleLog "jsval list"
  | ConsoleWarn "jsval list"
  | ConsoleError "jsval list"
  | CallExt string "jsval list"
  | Reload
  | PreventDefault

fun events_named :: "string \<Rightarrow> effect list \<Rightarrow> jsval list" where
  "events_named n [] = []"
| "events_named n (DispatchEvent m v # es) =
     (if m = n then v # events_named n es else events_named n es)"
| "events_named n (_ # es) = events_named n es"

lemma events_named_append [simp, effect_simps]:
  "events_named n (xs @ ys) = events_named n xs @ events_named n ys"
  by (induction n xs rule: events_named.induct) auto

section \<open>Strings\<close>

text \<open>
  \<open>string\<close> stands for a JavaScript string in the components that only compare it with ASCII
  constants, cut it or concatenate it; the codec of \<open>Base64Url\<close>, which reads code units, has
  lists of 16-bit words. \<open>s.includes(t)\<close> and \<open>/t/.test(s)\<close> for a literal \<open>t\<close> are
  \<open>sublist t s\<close>; \<open>startsWith\<close> and \<open>endsWith\<close> are \<open>prefix\<close> and \<open>suffix\<close>.
\<close>

text \<open>\<open>s.split(sep)\<close> for a one-character separator.\<close>

fun js_split :: "'a \<Rightarrow> 'a list \<Rightarrow> 'a list list" where
  "js_split sep [] = [[]]"
| "js_split sep (c # cs) =
     (if c = sep then [] # js_split sep cs
      else (case js_split sep cs of [] \<Rightarrow> [[c]] | p # ps \<Rightarrow> (c # p) # ps))"

text \<open>\<open>String.join\<close> and \<open>join\<close>.\<close>

fun join :: "string \<Rightarrow> string list \<Rightarrow> string" where
  "join sep [] = []"
| "join sep [s] = s"
| "join sep (s # ss) = s @ sep @ join sep ss"

lemma js_split_nonempty [simp]: "js_split sep cs \<noteq> []"
  by (cases cs) (auto split: list.splits)

text \<open>\<open>xs[i]\<close>: \<open>undefined\<close> (here \<open>None\<close>) out of range.\<close>

definition nth_opt :: "'a list \<Rightarrow> nat \<Rightarrow> 'a option" where
  "nth_opt xs i = (if i < length xs then Some (xs ! i) else None)"

lemma nth_opt_simps [simp]:
  "nth_opt [] i = None"
  "nth_opt (x # xs) 0 = Some x"
  "nth_opt (x # xs) (Suc i) = nth_opt xs i"
  by (auto simp: nth_opt_def)

lemma nth_opt_numeral [simp]:
  "nth_opt (x # xs) (numeral k) = nth_opt xs (pred_numeral k)"
  by (simp add: numeral_eq_Suc)

lemma take_prefix_mono: "m \<le> n \<Longrightarrow> prefix (take m xs) (take n xs)"
  by (metis min_absorb1 take_is_prefix take_take)

section \<open>Partial codecs\<close>

text \<open>What a client of a text format relies on: of the values in \<open>dom\<close>, what was written is read.\<close>

locale partial_codec =
  fixes dom :: "'a \<Rightarrow> bool"
    and enc :: "'a \<Rightarrow> 't"
    and dec :: "'t \<Rightarrow> 'e + 'a"
  assumes dec_enc: "dom v \<Longrightarrow> dec (enc v) = Inr v"
begin

lemma enc_injective: "dom v \<Longrightarrow> dom w \<Longrightarrow> enc v = enc w \<longleftrightarrow> v = w"
  by (metis dec_enc sum.inject(2))

text \<open>An item of a store, read after it was written and after another one was written.\<close>

lemma stored_item:
  assumes "dom v"
  shows "map_option dec ((store(k \<mapsto> enc v)) j) = (if j = k then Some (Inr v) else map_option dec (store j))"
  by (simp add: dec_enc assms)

end

section \<open>Decimal numbers\<close>

text \<open>The string of an integer, as in \<open>"" + n\<close> and template literals.\<close>

fun decimal :: "nat \<Rightarrow> string" where
  "decimal n = (if n < 10 then [char_of (48 + n)] else decimal (n div 10) @ [char_of (48 + n mod 10)])"

declare decimal.simps [simp del]

definition decimal_int :: "int \<Rightarrow> string" where
  "decimal_int i = (if i < 0 then ''-'' @ decimal (nat (- i)) else decimal (nat i))"

lemma decimal_small: "n < 10 \<Longrightarrow> decimal n = [char_of (48 + n)]"
  by (simp add: decimal.simps [of n])

lemma decimal_big: "\<not> n < 10 \<Longrightarrow> decimal n = decimal (n div 10) @ [char_of (48 + n mod 10)]"
  by (simp add: decimal.simps [of n])

lemma decimal_nonempty [simp]: "decimal n \<noteq> []"
  by (cases "n < 10") (simp_all add: decimal_small decimal_big)

lemma decimal_nonempty' [simp]: "[] \<noteq> decimal n"
  using decimal_nonempty [of n] by metis

lemma digit_inj: "m < 10 \<Longrightarrow> n < 10 \<Longrightarrow> (char_of (48 + m) :: char) = char_of (48 + n) \<Longrightarrow> m = (n :: nat)"
  by (drule arg_cong [where f = "of_char :: char \<Rightarrow> nat"]) simp

lemma decimal_inj: "decimal m = decimal n \<Longrightarrow> m = n"
proof (induction m arbitrary: n rule: less_induct)
  case (less m)
  show ?case
  proof (cases "m < 10"; cases "n < 10")
    assume "\<not> m < 10" "\<not> n < 10"
    with less.prems have "decimal (m div 10) = decimal (n div 10)"
      "(char_of (48 + m mod 10) :: char) = char_of (48 + n mod 10)"
      by (simp_all add: decimal_big)
    then have "m div 10 = n div 10" "m mod 10 = n mod 10"
      using less.IH [of "m div 10"] \<open>\<not> m < 10\<close> digit_inj [of "m mod 10" "n mod 10"] by simp_all
    then show ?thesis by (metis div_mult_mod_eq)
  qed (use less.prems in \<open>auto simp: decimal_small decimal_big dest: digit_inj\<close>)
qed

lemma decimal_digits: "set (decimal n) \<subseteq> set ''0123456789''"
proof (induction n rule: less_induct)
  case (less n)
  have d: "(char_of (48 + k) :: char) \<in> set ''0123456789''" if "k < 10" for k :: nat
  proof -
    from that have "k = 0 \<or> k = 1 \<or> k = 2 \<or> k = 3 \<or> k = 4 \<or> k = 5 \<or> k = 6 \<or> k = 7 \<or> k = 8 \<or> k = 9"
      by arith
    then show ?thesis by (elim disjE; hypsubst; code_simp)
  qed
  show ?case
  proof (cases "n < 10")
    case True
    then show ?thesis using d [of n] by (simp add: decimal_small)
  next
    case False
    then show ?thesis using less.IH [of "n div 10"] d [of "n mod 10"] by (simp add: decimal_big)
  qed
qed

lemma decimal_int_inj: "decimal_int i = decimal_int j \<Longrightarrow> i = j"
proof -
  assume eq: "decimal_int i = decimal_int j"
  have "CHR ''-'' \<notin> set (decimal n)" for n using decimal_digits [of n] by auto
  then have m: "decimal n \<noteq> ''-'' @ xs" "''-'' @ xs \<noteq> decimal n" for n xs
    by (metis append_Cons list.set_intros(1))+
  show ?thesis using eq m decimal_inj
    by (auto simp: decimal_int_def split: if_splits dest!: decimal_inj)
qed

section \<open>Rational truncation\<close>

text \<open>\<open>ToIntegerOrInfinity\<close>: rounding towards zero.\<close>

definition js_trunc :: "rat \<Rightarrow> int" where
  "js_trunc q = (if 0 \<le> q then \<lfloor>q\<rfloor> else \<lceil>q\<rceil>)"

lemma js_trunc_int [simp]: "js_trunc (of_int n) = n"
  by (simp add: js_trunc_def)

lemma js_trunc_nonneg: "- 1 < q \<Longrightarrow> 0 \<le> js_trunc q"
  by (simp add: js_trunc_def)

lemma js_trunc_mono: "p \<le> q \<Longrightarrow> js_trunc p \<le> js_trunc q"
proof -
  assume pq: "p \<le> q"
  show ?thesis
  proof (cases "p < 0 \<and> 0 \<le> q")
    case True
    then have "\<lceil>p\<rceil> \<le> 0" "0 \<le> \<lfloor>q\<rfloor>" by (auto simp: ceiling_le_iff)
    then have "\<lceil>p\<rceil> \<le> \<lfloor>q\<rfloor>" by (rule order_trans)
    then show ?thesis using True by (simp add: js_trunc_def)
  next
    case False
    then show ?thesis using pq by (auto simp: js_trunc_def intro: floor_mono ceiling_mono)
  qed
qed

end
