(* ===== verification/Base64Url.thy ===== *)
theory Base64Url
  imports Dark_Prelude
begin

unbundle bit_operations_syntax

text \<open>
  The base64url codec of \<open>backend/libtarget.js/libtarget.js\<close> and the OCaml functions of
  \<open>libtarget.ml\<close> that wrap it. A JavaScript string is the list of its 16-bit code units, a
  \<open>Uint8Array\<close> a list of bytes, and the operands of the bitwise operators are 32-bit words,
  into which \<open>undefined\<close> (a read out of range, here \<open>None\<close>) is coerced as 0.
\<close>

section \<open>Code units and typed arrays\<close>

type_synonym code_unit = "16 word"
type_synonym byte = "8 word"
type_synonym int32 = "32 word"

datatype js_error = RangeError

definition units :: "string \<Rightarrow> code_unit list" where
  "units s = map of_char s"

text \<open>A code unit below 256 and the \<open>char\<close> with the same number.\<close>

lemma unat_of_char: "unat (of_char c :: code_unit) = of_char c"
proof -
  have "(of_char c :: code_unit) = of_nat (of_char c)" by (rule of_nat_of_char [symmetric])
  moreover have "of_char c < (2 ^ 16 :: nat)"
    using nat_of_char_less_256 [of c] by (rule less_le_trans) simp
  ultimately show ?thesis by (simp only: unsigned_of_nat) (simp add: take_bit_nat_eq_self)
qed

lemma char_of_unit [simp]: "char_of (unat (of_char c :: code_unit)) = c"
  by (simp add: unat_of_char)

lemma of_char_unit_eq: "(of_char c :: code_unit) = of_char d \<longleftrightarrow> c = d"
  by (metis char_of_unit)

text \<open>\<open>s.charCodeAt(i)\<close>, with \<open>NaN\<close> as \<open>None\<close>; a typed array indexed by \<open>NaN\<close> or out of range
  is \<open>undefined\<close>.\<close>

definition char_code_at :: "code_unit list \<Rightarrow> nat \<Rightarrow> nat option" where
  "char_code_at s i = map_option unat (nth_opt s i)"

definition ta_get :: "byte list \<Rightarrow> nat option \<Rightarrow> byte option" where
  "ta_get t ix = Option.bind ix (nth_opt t)"

text \<open>A write past the end of a typed array is ignored; the value is taken modulo 256.\<close>

definition ta_set :: "byte list \<Rightarrow> nat \<Rightarrow> int32 \<Rightarrow> byte list" where
  "ta_set t p v = (if p < length t then t[p := ucast v] else t)"

definition to_int32 :: "byte option \<Rightarrow> int32" where
  "to_int32 b = (case b of None \<Rightarrow> 0 | Some w \<Rightarrow> ucast w)"

text \<open>\<open>s[n]\<close> for an int32 \<open>n\<close>, and \<open>acc += s[n]\<close>, which appends \<open>"undefined"\<close> out of range.\<close>

definition str_at :: "code_unit list \<Rightarrow> int \<Rightarrow> code_unit option" where
  "str_at s n = (if 0 \<le> n then nth_opt s (nat n) else None)"

definition concat_char :: "code_unit list \<Rightarrow> code_unit option \<Rightarrow> code_unit list" where
  "concat_char acc c = acc @ (case c of None \<Rightarrow> units ''undefined'' | Some u \<Rightarrow> [u])"

section \<open>The codec\<close>

definition chars :: "code_unit list" where
  "chars = units ''ABCDEFGHIJKLMNOPQRSTUVWXYZabcdefghijklmnopqrstuvwxyz0123456789-_''"

definition pad_char :: code_unit where
  "pad_char = of_char CHR ''=''"

definition build_lookup :: "byte list" where
  "build_lookup =
     fold (\<lambda>i t. case char_code_at chars i of None \<Rightarrow> t | Some k \<Rightarrow> ta_set t k (of_nat i))
       [0..<length chars] (replicate 256 0)"

text \<open>\<open>new ArrayBuffer(n)\<close>: the length is truncated, a negative one throws.\<close>

definition new_array_buffer :: "rat \<Rightarrow> js_error + byte list" where
  "new_array_buffer q =
     (if js_trunc q < 0 then Inl RangeError else Inr (replicate (nat (js_trunc q)) 0))"

definition buffer_length :: "code_unit list \<Rightarrow> rat" where
  "buffer_length base64 =
     (let n = rat_of_nat (length base64) * (3 / 4)
      in if str_at base64 (int (length base64) - 1) = Some pad_char
         then (if str_at base64 (int (length base64) - 2) = Some pad_char
               then n - 1 - 1 else n - 1)
         else n)"

function decode_loop :: "byte list \<Rightarrow> code_unit list \<Rightarrow> nat \<Rightarrow> nat \<Rightarrow> byte list \<Rightarrow> byte list" where
  "decode_loop lookup base64 i p bytes =
     (if i < length base64 then
        let encoded1 = to_int32 (ta_get lookup (char_code_at base64 i));
            encoded2 = to_int32 (ta_get lookup (char_code_at base64 (i + 1)));
            encoded3 = to_int32 (ta_get lookup (char_code_at base64 (i + 2)));
            encoded4 = to_int32 (ta_get lookup (char_code_at base64 (i + 3)));
            bytes1 = ta_set bytes p (push_bit 2 encoded1 OR signed_drop_bit 4 encoded2);
            bytes2 = ta_set bytes1 (p + 1)
              (push_bit 4 (encoded2 AND 15) OR signed_drop_bit 2 encoded3);
            bytes3 = ta_set bytes2 (p + 2)
              (push_bit 6 (encoded3 AND 3) OR (encoded4 AND 63))
        in decode_loop lookup base64 (i + 4) (p + 3) bytes3
      else bytes)"
  by pat_completeness auto
termination
  by (relation "measure (\<lambda>(lookup, base64, i, p, bytes). length base64 - i)") auto

declare decode_loop.simps [simp del]

definition dark_arrayBuffer_from_padded_b64url :: "code_unit list \<Rightarrow> js_error + byte list" where
  "dark_arrayBuffer_from_padded_b64url base64 =
     (case new_array_buffer (buffer_length base64) of
        Inl e \<Rightarrow> Inl e
      | Inr bytes \<Rightarrow> Inr (decode_loop build_lookup base64 0 0 bytes))"

function encode_loop :: "byte list \<Rightarrow> nat \<Rightarrow> code_unit list \<Rightarrow> code_unit list" where
  "encode_loop bytes i base64 =
     (if i < length bytes then
        let b0 = to_int32 (nth_opt bytes i);
            b1 = to_int32 (nth_opt bytes (i + 1));
            b2 = to_int32 (nth_opt bytes (i + 2));
            s1 = concat_char base64 (str_at chars (sint (signed_drop_bit 2 b0)));
            s2 = concat_char s1
              (str_at chars (sint (push_bit 4 (b0 AND 3) OR signed_drop_bit 4 b1)));
            s3 = concat_char s2
              (str_at chars (sint (push_bit 2 (b1 AND 15) OR signed_drop_bit 6 b2)));
            s4 = concat_char s3 (str_at chars (sint (b2 AND 63)))
        in encode_loop bytes (i + 3) s4
      else base64)"
  by pat_completeness auto
termination
  by (relation "measure (\<lambda>(bytes, i, base64). length bytes - i)") auto

declare encode_loop.simps [simp del]

definition dark_arrayBuffer_to_padded_b64url :: "byte list \<Rightarrow> code_unit list" where
  "dark_arrayBuffer_to_padded_b64url bytes =
     (let base64 = encode_loop bytes 0 []
      in if length bytes mod 3 = 2
         then take (length base64 - 1) base64 @ units ''=''
         else if length bytes mod 3 = 1
         then take (length base64 - 2) base64 @ units ''==''
         else base64)"

section \<open>The loops as functions on groups\<close>

text \<open>
  The two loops are rewritten into structural recursions on groups of four code units and of three
  bytes: \<open>decode_loop_groups\<close> and \<open>encode_loop_groups\<close>. A group's four 6-bit values are
  \<open>sextet1\<close> .. \<open>sextet4\<close>; \<open>sextets_join\<close> says the decoder's shifts undo them.
\<close>

lemma lookup_chars: 
  "\<forall>e \<in> set [0..<64]. ta_get build_lookup (map_option unat (nth_opt chars e)) = Some (of_nat e)"
  by code_simp

lemma lookup_pad: "ta_get build_lookup (Some (unat pad_char)) = Some 0"
  by code_simp

lemma length_chars [simp]: "length chars = 64"
  by (simp add: chars_def units_def)

lemma less_8_cases: "n < 8 \<Longrightarrow> n = 0 \<or> n = 1 \<or> n = 2 \<or> n = 3 \<or> n = 4 \<or> n = 5 \<or> n = 6 \<or> n = (7::nat)"
  by arith

lemma byte_eqI:
  fixes v w :: byte
  assumes "bit v 0 = bit w 0" "bit v 1 = bit w 1" "bit v 2 = bit w 2" "bit v 3 = bit w 3"
    "bit v 4 = bit w 4" "bit v 5 = bit w 5" "bit v 6 = bit w 6" "bit v 7 = bit w 7"
  shows "v = w"
proof (rule bit_word_eqI)
  fix n assume "n < LENGTH(8)"
  then have "n < 8" by simp
  from less_8_cases [OF this] assms show "bit v n = bit w n" by (elim disjE) simp_all
qed

lemma bit_byte_out [simp]: "8 \<le> n \<Longrightarrow> \<not> bit (b :: byte) n"
  using bit_imp_le_length [of b n] by auto

lemma unat_below_64:
  assumes "\<And>n. 6 \<le> n \<Longrightarrow> \<not> bit (x :: int32) n"
  shows "unat x < 64"
proof -
  have "x = take_bit 6 x"
  proof (rule bit_word_eqI)
    fix n show "bit x n = bit (take_bit 6 x) n"
      using assms [of n] by (cases "n < 6") (auto simp: bit_take_bit_iff not_less)
  qed
  then have "unat x = take_bit 6 (unat x)"
    by (metis unsigned_take_bit_eq)
  also have "\<dots> < 2 ^ 6" by (rule take_bit_nat_less_exp)
  finally show ?thesis by simp
qed

lemma sint_small:
  assumes "unat (x :: int32) < 64" shows "sint x = int (unat x)"
proof -
  have b: "uint x < 64" using assms by (metis of_nat_less_iff of_nat_numeral uint_nat)
  have "sint x = uint x"
    proof -
    have "- (2 ^ 31) \<le> uint x" "uint x < 2 ^ 31"
      subgoal by (rule order_trans [OF _ uint_ge_0]) simp subgoal using b by simp done
    then show ?thesis unfolding sint_uint by (intro signed_take_bit_int_eq_self) simp_all
  qed
  then show ?thesis by (simp only: uint_nat)
qed

lemma and_masks:
  "(x :: int32) AND 3 = take_bit 2 x" "x AND 15 = take_bit 4 x" "x AND 63 = take_bit 6 x"
  by (simp_all add: take_bit_eq_mask mask_eq_exp_minus_1)

definition sextet1 :: "byte \<Rightarrow> int32" where
  "sextet1 a = signed_drop_bit 2 (ucast a)"
definition sextet2 :: "byte \<Rightarrow> byte \<Rightarrow> int32" where
  "sextet2 a b = push_bit 4 (ucast a AND 3) OR signed_drop_bit 4 (ucast b)"
definition sextet3 :: "byte \<Rightarrow> byte \<Rightarrow> int32" where
  "sextet3 b c = push_bit 2 (ucast b AND 15) OR signed_drop_bit 6 (ucast c)"
definition sextet4 :: "byte \<Rightarrow> int32" where
  "sextet4 c = ucast c AND 63"
lemmas sextet_defs = sextet1_def sextet2_def sextet3_def sextet4_def


lemma sextet_bits:
  "bit (sextet1 a) n \<longleftrightarrow> bit a (n + 2)"
  "bit (sextet2 a b) n \<longleftrightarrow> (n \<ge> 4 \<and> n < 6 \<and> bit a (n - 4)) \<or> bit b (n + 4)"
  "bit (sextet3 b c) n \<longleftrightarrow> (n \<ge> 2 \<and> n < 6 \<and> bit b (n - 2)) \<or> bit c (n + 6)"
  "bit (sextet4 c) n \<longleftrightarrow> n < 6 \<and> bit c n"
  unfolding sextet_defs and_masks
  subgoal by (auto simp: bit_signed_drop_bit_iff bit_unsigned_iff bit_push_bit_iff bit_or_iff bit_take_bit_iff ac_simps dest: bit_imp_le_length)
  subgoal by (auto simp: bit_signed_drop_bit_iff bit_unsigned_iff bit_push_bit_iff bit_or_iff bit_take_bit_iff ac_simps dest: bit_imp_le_length)
  subgoal by (auto simp: bit_signed_drop_bit_iff bit_unsigned_iff bit_push_bit_iff bit_or_iff bit_take_bit_iff ac_simps dest: bit_imp_le_length)
  subgoal by (auto simp: bit_signed_drop_bit_iff bit_unsigned_iff bit_push_bit_iff bit_or_iff bit_take_bit_iff ac_simps dest: bit_imp_le_length)
  done

lemma sextet_bounds [simp]:
  "unat (sextet1 a) < 64" "unat (sextet2 a b) < 64" "unat (sextet3 b c) < 64" "unat (sextet4 c) < 64"
  by (rule unat_below_64; simp add: sextet_bits)+

lemma sextets_join:
  "ucast (push_bit 2 (sextet1 a) OR signed_drop_bit 4 (sextet2 a b)) = a"
  "ucast (push_bit 4 (sextet2 a b AND 15) OR signed_drop_bit 2 (sextet3 b c)) = b"
  "ucast (push_bit 6 (sextet3 b c AND 3) OR (sextet4 c AND 63)) = c"
  unfolding and_masks
  by (rule byte_eqI; simp add: bit_signed_drop_bit_iff bit_unsigned_iff bit_push_bit_iff bit_or_iff
    bit_take_bit_iff sextet_bits numeral_2_eq_2 [symmetric] numeral_3_eq_3 [symmetric])+

definition overlay :: "'a list \<Rightarrow> nat \<Rightarrow> 'a list \<Rightarrow> 'a list" where
  "overlay bs p gs = take (length bs) (take p bs @ gs @ drop (p + length gs) bs)"

lemma overlay_Nil [simp]: "overlay bs p [] = bs"
  by (simp add: overlay_def)

lemma length_overlay [simp]: "length (overlay bs p gs) = length bs"
  by (auto simp: overlay_def)

lemma nth_overlay:
  "k < length bs \<Longrightarrow> overlay bs p gs ! k =
     (if p \<le> k \<and> k < p + length gs then gs ! (k - p) else bs ! k)"
  by (auto simp: overlay_def nth_append min_def)

lemma overlay_append: "overlay (overlay bs p gs) (p + length gs) hs = overlay bs p (gs @ hs)"
  by (rule nth_equalityI) (auto simp: nth_overlay nth_append)

lemma overlay3: "overlay (overlay (overlay bs p [x]) (p + 1) [y]) (p + 2) [z] = overlay bs p [x, y, z]"
  using overlay_append [of bs p "[x]" "[y]"] overlay_append [of bs p "[x, y]" "[z]"] by simp

lemma ta_set_overlay: "ta_set bs p v = overlay bs p [ucast v]"
  by (cases "p < length bs") (auto intro!: nth_equalityI simp: ta_set_def nth_overlay nth_list_update)

lemma overlay_replicate: "n \<le> length gs \<Longrightarrow> overlay (replicate n z) 0 gs = take n gs"
  by (simp add: overlay_def)

lemma nth_opt_drop: "nth_opt xs (i + k) = nth_opt (drop i xs) k"
  by (auto simp: nth_opt_def)

definition sextet_of :: "code_unit option \<Rightarrow> int32" where
  "sextet_of c = to_int32 (ta_get build_lookup (map_option unat c))"

definition join4 :: "int32 \<Rightarrow> int32 \<Rightarrow> int32 \<Rightarrow> int32 \<Rightarrow> byte list" where
  "join4 e1 e2 e3 e4 =
     [ucast (push_bit 2 e1 OR signed_drop_bit 4 e2),
      ucast (push_bit 4 (e2 AND 15) OR signed_drop_bit 2 e3),
      ucast (push_bit 6 (e3 AND 3) OR (e4 AND 63))]"

definition dec4 :: "code_unit list \<Rightarrow> byte list" where
  "dec4 q = join4 (sextet_of (nth_opt q 0)) (sextet_of (nth_opt q 1))
     (sextet_of (nth_opt q 2)) (sextet_of (nth_opt q 3))"

lemma length_dec4 [simp]: "length (dec4 q) = 3"
  by (simp add: dec4_def join4_def)

fun dec_groups :: "code_unit list \<Rightarrow> byte list" where
  "dec_groups (a # b # c # d # r) = dec4 [a, b, c, d] @ dec_groups r"
| "dec_groups [] = []"
| "dec_groups q = dec4 q"

lemma dec_groups_unfold:
  "s \<noteq> [] \<Longrightarrow> dec_groups s = dec4 s @ dec_groups (drop 4 s)"
  by (cases s rule: dec_groups.cases) (simp_all add: dec4_def eval_nat_numeral)

lemma length_dec_groups: "length (dec_groups s) = 3 * ((length s + 3) div 4)"
  by (induction s rule: dec_groups.induct) (simp_all, arith)

lemma decode_loop_groups:
  "decode_loop build_lookup s i p bytes = overlay bytes p (dec_groups (drop i s))"
proof (induction "length s - i" arbitrary: i p bytes rule: less_induct)
  case less
  show ?case
  proof (cases "i < length s")
    case True
    have "dec_groups (drop i s) = dec4 (drop i s) @ dec_groups (drop (i + 4) s)"
      using True dec_groups_unfold [of "drop i s"] by (simp add: add.commute)
    note grp = this
    have f: "overlay (overlay bytes p (dec4 q)) (p + 3) hs = overlay bytes p (dec4 q @ hs)" for q hs
      using overlay_append [of bytes p "dec4 q" hs] by simp
    have r: "char_code_at s (i + k) = map_option unat (nth_opt (drop i s) k)"
      "char_code_at s i = map_option unat (nth_opt (drop i s) 0)" for k
      using nth_opt_drop [of s i 0] by (simp_all add: char_code_at_def nth_opt_drop)
    have s: "decode_loop build_lookup s i p bytes =
       decode_loop build_lookup s (i + 4) (p + 3) (overlay bytes p (dec4 (drop i s)))"
      by (subst decode_loop.simps)
        (simp only: True if_True Let_def r ta_set_overlay overlay3 dec4_def join4_def sextet_of_def)
    show ?thesis
      unfolding s grp f [symmetric] using True by (intro less) simp
  next
    case False
    then show ?thesis by (simp add: decode_loop.simps)
  qed
qed

fun enc_groups :: "byte list \<Rightarrow> code_unit list" where
  "enc_groups [] = []"
| "enc_groups [a] = map (\<lambda>e. chars ! unat e) [sextet1 a, sextet2 a 0, sextet3 0 0, sextet4 0]"
| "enc_groups [a, b] = map (\<lambda>e. chars ! unat e) [sextet1 a, sextet2 a b, sextet3 b 0, sextet4 0]"
| "enc_groups (a # b # c # r) =
     map (\<lambda>e. chars ! unat e) [sextet1 a, sextet2 a b, sextet3 b c, sextet4 c] @ enc_groups r"

lemma str_at_chars: "unat (e :: int32) < 64 \<Longrightarrow> str_at chars (sint e) = Some (chars ! unat e)"
  by (simp add: sint_small str_at_def nth_opt_def length_chars del: of_nat_unat)

lemma to_int32_simps [simp]: "to_int32 None = 0" "to_int32 (Some b) = ucast b"
  by (simp_all add: to_int32_def)

lemma concat_char_Some [simp]: "concat_char acc (Some u) = acc @ [u]"
  by (simp add: concat_char_def)

definition byte_at :: "byte list \<Rightarrow> nat \<Rightarrow> byte" where
  "byte_at bs k = (case nth_opt bs k of None \<Rightarrow> 0 | Some b \<Rightarrow> b)"

lemma to_int32_byte_at: "to_int32 (nth_opt bs k) = ucast (byte_at bs k)"
  by (simp add: byte_at_def split: option.split)

definition enc4 :: "byte list \<Rightarrow> code_unit list" where
  "enc4 q = map (\<lambda>e. chars ! unat e) [sextet1 (byte_at q 0), sextet2 (byte_at q 0) (byte_at q 1), 
     sextet3 (byte_at q 1) (byte_at q 2), sextet4 (byte_at q 2)]"

lemma encode_loop_step:
  assumes "i < length bytes"
  shows "encode_loop bytes i acc = encode_loop bytes (i + 3) (acc @ enc4 (drop i bytes))"
proof -
  have r: "to_int32 (nth_opt bytes (i + k)) = ucast (byte_at (drop i bytes) k)"
    "to_int32 (nth_opt bytes i) = ucast (byte_at (drop i bytes) 0)" for k
    using nth_opt_drop [of bytes i 0] by (simp_all add: to_int32_byte_at [symmetric] nth_opt_drop)
  show ?thesis using assms
  by (subst encode_loop.simps)
    (simp only: if_True Let_def r sextet_defs [symmetric] str_at_chars sextet_bounds concat_char_Some enc4_def
       append_assoc append.simps list.map)
qed

lemma enc_groups_unfold: "s \<noteq> [] \<Longrightarrow> enc_groups s = enc4 s @ enc_groups (drop 3 s)"
  by (cases s rule: enc_groups.cases) (simp_all add: enc4_def byte_at_def eval_nat_numeral)

lemma encode_loop_groups: "encode_loop bytes i acc = acc @ enc_groups (drop i bytes)"
proof (induction "length bytes - i" arbitrary: i acc rule: less_induct)
  case less
  show ?case
  proof (cases "i < length bytes")
    case True
    have "enc_groups (drop i bytes) = enc4 (drop i bytes) @ enc_groups (drop (i + 3) bytes)"
      using True enc_groups_unfold [of "drop i bytes"] by (simp add: add.commute)
    moreover have "encode_loop bytes (i + 3) acc' = acc' @ enc_groups (drop (i + 3) bytes)" for acc'
      using True by (intro less) simp
    ultimately show ?thesis using True by (simp add: encode_loop_step)
  next
    case False
    then show ?thesis by (simp add: encode_loop.simps)
  qed
qed

end
