(* ===== verification/Base64Spec.thy ===== *)
theory Base64Spec
  imports Base64Url
begin

text \<open>
  What the codec of \<open>Base64Url\<close> promises: a reference encoder written from RFC 4648 on bit
  strings, equal to the code's shifting loop; the round trip; the length of a decoded buffer;
  and what the decoder does with characters outside its alphabet. The locale \<open>byte_codec\<close> is the interface
  the wrappers of \<open>Libtarget\<close> rest on.
\<close>

section \<open>The reference encoder\<close>

text \<open>
  RFC 4648: the input is a bit string, most significant bit first, cut into groups of six (the
  last one filled with zero bits); each group selects a character of the alphabet and the output
  is filled with \<open>=\<close> to a multiple of four characters.
\<close>

definition byte_bits :: "byte \<Rightarrow> bool list" where
  "byte_bits b = map (bit b) [7, 6, 5, 4, 3, 2, 1, 0]"

fun bit_groups :: "bool list \<Rightarrow> bool list list" where
  "bit_groups [] = []"
| "bit_groups (b # bs) = take 6 (b # bs @ replicate 5 False) # bit_groups (drop 5 bs)"

definition bits_value :: "bool list \<Rightarrow> nat" where
  "bits_value g = foldl (\<lambda>n b. 2 * n + of_bool b) 0 g"

definition rfc4648_encode :: "code_unit list \<Rightarrow> byte list \<Rightarrow> code_unit list" where
  "rfc4648_encode alphabet bs =
     map (\<lambda>g. alphabet ! bits_value g) (bit_groups (concat (map byte_bits bs)))
     @ replicate ((3 - length bs mod 3) mod 3) pad_char"

lemma unat_bits6:
  assumes "unat (e :: int32) < 64"
  shows "unat e = bits_value [bit e 5, bit e 4, bit e 3, bit e 2, bit e 1, bit e 0]"
proof -
  have "unat e = take_bit 6 (unat e)" using assms by (simp add: take_bit_nat_eq_self)
  also have "\<dots> = horner_sum of_bool 2 (map (bit (unat e)) [0..<6])"
    by (rule horner_sum_bit_eq_take_bit [symmetric])
  also have "map (bit (unat e)) [0..<6] = map (bit e) [0..<6]"
    by (simp add: bit_unsigned_iff bit_imp_le_length cong: map_cong) 
  also have "horner_sum of_bool 2 (map (bit e) [0..<6]) = bits_value [bit e 5, bit e 4, bit e 3, bit e 2, bit e 1, bit e 0]"
    by (simp add: bits_value_def upt_rec numeral_2_eq_2 [symmetric] numeral_3_eq_3 [symmetric])
  finally show ?thesis .
qed

lemma sextet_values:
  "bits_value [bit a 7, bit a 6, bit a 5, bit a 4, bit a 3, bit a 2] = unat (sextet1 a)"
  "bits_value [bit a 1, bit a 0, bit b 7, bit b 6, bit b 5, bit b 4] = unat (sextet2 a b)"
  "bits_value [bit b 3, bit b 2, bit b 1, bit b 0, bit c 7, bit c 6] = unat (sextet3 b c)"
  "bits_value [bit c 5, bit c 4, bit c 3, bit c 2, bit c 1, bit c 0] = unat (sextet4 c)"
  by (subst unat_bits6; simp add: sextet_bits numeral_2_eq_2 [symmetric] numeral_3_eq_3 [symmetric])+

fun enc_padded :: "byte list \<Rightarrow> code_unit list" where
  "enc_padded [] = []"
| "enc_padded [a] = map (\<lambda>e. chars ! unat e) [sextet1 a, sextet2 a 0] @ [pad_char, pad_char]"
| "enc_padded [a, b] = map (\<lambda>e. chars ! unat e) [sextet1 a, sextet2 a b, sextet3 b 0] @ [pad_char]"
| "enc_padded (a # b # c # r) =
     map (\<lambda>e. chars ! unat e) [sextet1 a, sextet2 a b, sextet3 b c, sextet4 c] @ enc_padded r"

lemma replicate_bits: "replicate 5 False = [False, False, False, False, False]"
  by code_simp

lemma replicate_pads: "replicate 2 x = [x, x]"
  by (simp add: numeral_2_eq_2)

lemma mod3_Suc3: "Suc (Suc (Suc n)) mod 3 = n mod 3"
  by presburger

lemma rfc_groups:
  "rfc4648_encode alphabet [] = []"
  "rfc4648_encode alphabet [a] = map (\<lambda>e. alphabet ! unat e) [sextet1 a, sextet2 a 0] @ [pad_char, pad_char]"
  "rfc4648_encode alphabet [a, b] =
     map (\<lambda>e. alphabet ! unat e) [sextet1 a, sextet2 a b, sextet3 b 0] @ [pad_char]"
  "rfc4648_encode alphabet (a # b # c # r) =
     map (\<lambda>e. alphabet ! unat e) [sextet1 a, sextet2 a b, sextet3 b c, sextet4 c]
     @ rfc4648_encode alphabet r"
  using sextet_values(2) [of a 0] sextet_values(3) [of b 0]
  by (simp_all add: rfc4648_encode_def byte_bits_def sextet_values [unfolded One_nat_def] mod3_Suc3 replicate_bits replicate_pads)

lemma enc_padded_rfc: "enc_padded bs = rfc4648_encode chars bs"
  by (induction bs rule: enc_padded.induct) (simp_all only: rfc_groups enc_padded.simps)

lemma length_enc_groups: "length (enc_groups bs) = 4 * ((length bs + 2) div 3)"
  by (induction bs rule: enc_groups.induct) (simp_all, arith)

lemma to_padded_cases:
  "length bs mod 3 = 0 \<Longrightarrow> enc_groups bs = enc_padded bs"
  "length bs mod 3 = 1 \<Longrightarrow>
     take (length (enc_groups bs) - 2) (enc_groups bs) @ [pad_char, pad_char] = enc_padded bs"
  "length bs mod 3 = 2 \<Longrightarrow>
     take (length (enc_groups bs) - 1) (enc_groups bs) @ [pad_char] = enc_padded bs"
proof (induction bs rule: enc_groups.induct)
  case (4 a b c r)
  {
    case 1
    then show ?case using 4(1) by (simp add: mod3_Suc3)
  next
    case 2
    then have m: "length r mod 3 = 1" by (simp add: mod3_Suc3)
    then obtain k where k: "length (enc_groups r) = Suc (Suc k)"
      by (cases r) (auto simp: length_enc_groups)
    then show ?case using 4(2) [OF m] k by simp
  next
    case 3
    then have m: "length r mod 3 = 2" by (simp add: mod3_Suc3)
    then obtain k where k: "length (enc_groups r) = Suc (Suc k)"
      by (cases r) (auto simp: length_enc_groups)
    then show ?case using 4(3) [OF m] k by simp
  }
qed simp_all

lemma to_is_padded: "dark_arrayBuffer_to_padded_b64url bs = enc_padded bs"
proof -
  have u: "units ''='' = [pad_char]" "units ''=='' = [pad_char, pad_char]"
    by (simp_all add: units_def pad_char_def)
  have "length bs mod 3 = 0 \<or> length bs mod 3 = 1 \<or> length bs mod 3 = 2" by arith
  then show ?thesis
    using to_padded_cases [of bs]
    by (elim disjE) (simp_all add: dark_arrayBuffer_to_padded_b64url_def encode_loop_groups u)
qed

lemma length_enc_padded: "length (enc_padded bs) = 4 * ((length bs + 2) div 3)"
  by (induction bs rule: enc_padded.induct) (simp_all, arith)

lemma sextet_of_chars: 
  assumes "unat e < 64" shows "sextet_of (Some (chars ! unat e)) = e"
proof -
  have "unat e \<in> set [0..<64]" using assms by simp
  with lookup_chars have "ta_get build_lookup (map_option unat (nth_opt chars (unat e))) = Some (of_nat (unat e))"
    by blast
  then have "ta_get build_lookup (Some (unat (chars ! unat e))) = Some (of_nat (unat e))"
    using assms by (simp add: nth_opt_def)
  moreover have "(ucast (of_nat (unat e) :: byte) :: int32) = e"
    using assms by (simp only: unsigned_of_nat) (simp add: take_bit_nat_eq_self)
  ultimately show ?thesis by (simp add: sextet_of_def)
qed

lemma sextet_of_pad [simp]: "sextet_of (Some pad_char) = 0"
  using lookup_pad by (simp add: sextet_of_def)

lemma sextet_zeros [simp]: "sextet3 0 0 = 0" "sextet4 0 = 0"
  by (simp_all add: sextet_defs)

lemma join4_sextets: "join4 (sextet1 a) (sextet2 a b) (sextet3 b c) (sextet4 c) = [a, b, c]"
  unfolding join4_def sextets_join by (rule refl)

lemma dec_enc_padded:
  "dec_groups (enc_padded bs) = bs @ replicate ((3 - length bs mod 3) mod 3) 0"
  using join4_sextets [of _ _ 0] join4_sextets [of _ 0 0]
  by (induction bs rule: enc_padded.induct)
    (simp_all add: dec4_def sextet_of_chars join4_sextets mod3_Suc3 replicate_pads)

lemma buffer_length_ge: "- 1 < buffer_length s"
proof (cases "length s < 2")
  case True
  then consider "s = []" | c where "s = [c]"
    by (cases s; cases "tl s") auto
  then show ?thesis
    by cases (auto simp: buffer_length_def str_at_def Let_def)
next
  case False
  then have "rat_of_nat 2 \<le> rat_of_nat (length s)" by (simp only: of_nat_le_iff not_less)
  then have "2 \<le> rat_of_nat (length s)" by simp
  then show ?thesis by (auto simp: buffer_length_def Let_def)
qed

lemma str_at_last:
  "str_at (xs @ [y]) (int (length (xs @ [y])) - 1) = Some y"
  "str_at (xs @ [x, y]) (int (length (xs @ [x, y])) - 2) = Some x"
  by (auto simp: str_at_def nth_opt_def nat_diff_distrib nth_append)

lemma nth_chars_not_pad: "k < 64 \<Longrightarrow> chars ! k \<noteq> pad_char"
proof -
  assume "k < 64"
  then have "k \<in> set [0..<64]" by simp
  moreover have "\<forall>k \<in> set [0..<64]. chars ! k \<noteq> pad_char" by code_simp
  ultimately show ?thesis by blast
qed

lemma enc_padded_end:
  assumes "bs \<noteq> []"
  obtains pre x y where "enc_padded bs = pre @ [x, y]"
    "y = pad_char \<longleftrightarrow> length bs mod 3 \<noteq> 0" "x = pad_char \<longleftrightarrow> length bs mod 3 = 1"
  using assms
proof (induction bs arbitrary: thesis rule: enc_padded.induct)
  case (4 a b c r)
  show ?case
  proof (cases "r = []")
    case True
    then show ?thesis using 4(2) [of "map (\<lambda>e. chars ! unat e) [sextet1 a, sextet2 a b]"]
      by (simp add: nth_chars_not_pad)
  next
    case False
    from 4(1) [OF _ False] obtain pre x y where "enc_padded r = pre @ [x, y]"
      "y = pad_char \<longleftrightarrow> length r mod 3 \<noteq> 0" "x = pad_char \<longleftrightarrow> length r mod 3 = 1" by blast
    then show ?thesis
      using 4(2) [of "map (\<lambda>e. chars ! unat e) [sextet1 a, sextet2 a b, sextet3 b c, sextet4 c] @ pre" x y]
      by (simp add: mod3_Suc3)
  qed
next
  case (2 a)
  show ?case by (rule 2(1) [of "map (\<lambda>e. chars ! unat e) [sextet1 a, sextet2 a 0]"]) simp_all
next
  case (3 a b)
  show ?case using nth_chars_not_pad [OF sextet_bounds(3), of b 0]
    by (intro 3(1) [of "map (\<lambda>e. chars ! unat e) [sextet1 a, sextet2 a b]"]) simp_all
qed simp

lemma buffer_length_enc: "buffer_length (enc_padded bs) = of_nat (length bs)"
proof (cases "bs = []")
  case True then show ?thesis by (simp add: buffer_length_def str_at_def)
next
  case False
  then obtain pre x y where e: "enc_padded bs = pre @ [x, y]"
    and p: "y = pad_char \<longleftrightarrow> length bs mod 3 \<noteq> 0" "x = pad_char \<longleftrightarrow> length bs mod 3 = 1"
    by (rule enc_padded_end)
  define n where "n = (length bs + 2) div 3"
  have l: "length (enc_padded bs) = 4 * n" by (simp add: length_enc_padded n_def)
  have s: "str_at (enc_padded bs) (int (length (enc_padded bs)) - 1) = Some y"
    "str_at (enc_padded bs) (int (length (enc_padded bs)) - 2) = Some x"
    using str_at_last(1) [of "pre @ [x]" y] str_at_last(2) [of pre x y] by (simp_all add: e)
  have "length bs mod 3 = 0 \<and> length bs = 3 * n \<or> length bs mod 3 = 1 \<and> length bs + 2 = 3 * n
      \<or> length bs mod 3 = 2 \<and> length bs + 1 = 3 * n"
    unfolding n_def by presburger
  then show ?thesis
    using p unfolding buffer_length_def Let_def l s [unfolded l]
    by (elim disjE conjE) (auto simp: field_simps of_nat_add [symmetric] simp flip: of_nat_mult)
qed


section \<open>Totality, lengths and the round trip\<close>

lemma buffer_fits: "nat (js_trunc (buffer_length s)) \<le> length (dec_groups s)"
proof -
  have "buffer_length s \<le> rat_of_nat (length s) * (3 / 4)"
    by (simp add: buffer_length_def Let_def)
  also have "\<dots> \<le> of_int (int (length (dec_groups s)))"
  proof -
    have "length s \<le> 4 * ((length s + 3) div 4)" by presburger
    then have "rat_of_nat (length s) \<le> rat_of_nat (4 * ((length s + 3) div 4))"
      by (simp only: of_nat_le_iff)
    then show ?thesis by (simp add: length_dec_groups)
  qed
  finally show ?thesis
    using buffer_length_ge [of s] unfolding js_trunc_def
    by (auto simp: floor_le_iff nat_le_iff ceiling_le_iff intro: order_trans [OF floor_mono])
qed

lemma decode_total:
  "dark_arrayBuffer_from_padded_b64url s =
     Inr (take (nat (js_trunc (buffer_length s))) (dec_groups s))"
  using js_trunc_nonneg [OF buffer_length_ge, of s]
  by (simp add: dark_arrayBuffer_from_padded_b64url_def new_array_buffer_def
      decode_loop_groups overlay_replicate buffer_fits)

lemma from_to_b64url:
  "dark_arrayBuffer_from_padded_b64url (dark_arrayBuffer_to_padded_b64url bytes) = Inr bytes"
  by (simp add: decode_total to_is_padded buffer_length_enc dec_enc_padded js_trunc_def)

text \<open>C25: Decoding what the encoder of libtarget.js produced gives back the bytes, for every byte
  array of every length (with no, one or two padding characters), and without an exception.\<close>

theorem b64url_roundtrip:
  "dark_arrayBuffer_from_padded_b64url (dark_arrayBuffer_to_padded_b64url bytes) = Inr bytes"
  by (rule from_to_b64url)

text \<open>C26: The encoder's shift-and-mask loop with its substring padding computes exactly the
  base64url encoding of RFC 4648, section 5: bits in groups of six, zero-filled, padded with =.\<close>

theorem encode_is_rfc4648:
  "dark_arrayBuffer_to_padded_b64url bytes = rfc4648_encode chars bytes"
  by (simp add: to_is_padded enc_padded_rfc)

text \<open>The decoder never throws: for every string, even one that is no base64 at all, the
  buffer length it computes (three quarters of the length, less one for each of at most two final
  = characters, truncated) is a legal ArrayBuffer length and is the length of the result.\<close>

theorem decode_never_throws:
  "\<exists>bytes. dark_arrayBuffer_from_padded_b64url base64 = Inr bytes
     \<and> int (length bytes) = js_trunc (buffer_length base64)
     \<and> 4 * length bytes \<le> 3 * length base64"
proof -
  have t: "0 \<le> js_trunc (buffer_length base64)" by (rule js_trunc_nonneg [OF buffer_length_ge])
  have "rat_of_int (js_trunc (buffer_length base64)) \<le> max 0 (buffer_length base64)"
    using buffer_length_ge [of base64] by (auto simp: js_trunc_def max_def ceiling_le_iff)
  also have "\<dots> \<le> rat_of_nat (length base64) * (3 / 4)"
    by (rule max.boundedI) (simp_all add: buffer_length_def Let_def)
  finally have "rat_of_int (4 * js_trunc (buffer_length base64)) \<le> rat_of_int (int (3 * length base64))"
    by simp
  then have "4 * js_trunc (buffer_length base64) \<le> int (3 * length base64)"
    by (simp only: of_int_le_iff)
  with t show ?thesis
    by (auto simp: decode_total buffer_fits)
qed

section \<open>The interface of the codec\<close>

text \<open>What a client of a byte codec relies on: decoding an encoding succeeds with the bytes.\<close>

locale byte_codec =
  fixes encode :: "'b list \<Rightarrow> 'c list"
    and decode :: "'c list \<Rightarrow> 'e + 'b list"
  assumes decode_encode: "decode (encode bs) = Inr bs"
begin

lemma decode_known: "s = encode bs \<Longrightarrow> decode s = Inr bs"
  by (simp add: decode_encode)

end

sublocale byte_codec \<subseteq> total: partial_codec "\<lambda>_. True" encode decode
  by unfold_locales (rule decode_encode)

context byte_codec
begin

lemma encode_injective: "encode bs = encode cs \<longleftrightarrow> bs = cs"
  by (simp add: total.enc_injective)

end

interpretation b64: byte_codec dark_arrayBuffer_to_padded_b64url dark_arrayBuffer_from_padded_b64url
  by unfold_locales (rule from_to_b64url)

section \<open>Characters outside the alphabet\<close>

text \<open>\<open>sanitise\<close> replaces every code unit that is not in the alphabet by \<open>A\<close>, whose value is 0.\<close>

definition sanitise :: "code_unit list \<Rightarrow> code_unit list" where
  "sanitise s = map (\<lambda>u. if u \<in> set chars then u else of_char CHR ''A'') s"

text \<open>Every entry of the lookup table that no character of the alphabet set is 0.\<close>

lemma fold_ta_set_other:
  assumes "\<forall>i \<in> set is. char_code_at chars i \<noteq> Some k"
  shows "fold (\<lambda>i t. case char_code_at chars i of None \<Rightarrow> t | Some k \<Rightarrow> ta_set t k (of_nat i))
    is t ! k = t ! k"
  using assms by (induction "is" arbitrary: t) (auto simp: ta_set_def split: option.split)

lemma lookup_foreign:
  assumes "u \<notin> set chars" and "unat u < 256"
  shows "build_lookup ! unat u = 0"
proof -
  have "char_code_at chars i \<noteq> Some (unat u)" for i
    using assms(1) by (auto simp: char_code_at_def nth_opt_def dest!: unsigned_word_eqI)
  then show ?thesis
    using assms(2) unfolding build_lookup_def by (simp add: fold_ta_set_other)
qed

lemma length_lookup: "length build_lookup = 256"
  by code_simp

lemma sextet_of_foreign: "u \<notin> set chars \<Longrightarrow> sextet_of (Some u) = 0"
proof (cases "unat u < 256")
  case True
  assume "u \<notin> set chars"
  then have "build_lookup ! unat u = 0" using True by (rule lookup_foreign)
  then show ?thesis using True by (simp add: sextet_of_def ta_get_def nth_opt_def length_lookup)
next
  case False
  then show ?thesis by (simp add: sextet_of_def ta_get_def nth_opt_def length_lookup)
qed

lemma sextet_of_A: "sextet_of (Some (of_char CHR ''A'')) = 0"
  by code_simp

lemma sextet_of_sanitised:
  "sextet_of (nth_opt (sanitise q) k) = sextet_of (nth_opt q k)"
  by (auto simp: sanitise_def nth_opt_def sextet_of_foreign sextet_of_A [simplified])

lemma dec4_sanitise: "dec4 (sanitise q) = dec4 q"
  by (simp add: dec4_def sextet_of_sanitised)

lemma dec_groups_sanitise: "dec_groups (sanitise s) = dec_groups s"
proof (induction "length s" arbitrary: s rule: less_induct)
  case less
  show ?case
  proof (cases "s = []")
    case True then show ?thesis by (simp add: sanitise_def)
  next
    case False
    then have "sanitise s \<noteq> []" by (simp add: sanitise_def)
    moreover have "drop 4 (sanitise s) = sanitise (drop 4 s)" by (simp add: sanitise_def drop_map)
    moreover have "dec_groups (sanitise (drop 4 s)) = dec_groups (drop 4 s)"
      using False by (intro less) simp
    ultimately show ?thesis using False by (simp add: dec_groups_unfold dec4_sanitise)
  qed
qed

lemma pad_not_in_chars: "pad_char \<notin> set chars"
  by code_simp

lemma no_pad_sanitise: "str_at (sanitise s) n \<noteq> Some pad_char"
proof -
  have "pad_char \<notin> set (sanitise s)"
  proof
    assume "pad_char \<in> set (sanitise s)"
    then consider "pad_char \<in> set chars" | "pad_char = of_char CHR ''A''"
      by (auto simp: sanitise_def split: if_splits)
    then show False using pad_not_in_chars by cases (simp_all add: pad_char_def)
  qed
  then show ?thesis by (auto simp: str_at_def nth_opt_def in_set_conv_nth)
qed

lemma buffer_length_sanitise: "buffer_length s \<le> buffer_length (sanitise s)"
proof -
  have "length (sanitise s) = length s" by (simp add: sanitise_def)
  then show ?thesis using no_pad_sanitise [of s] by (simp add: buffer_length_def Let_def)
qed

text \<open>The decoder silently reads every character outside its alphabet, = and any code unit
  above 255 included, as the value 0: what it returns is an initial part of what it returns for
  the string in which each such character is replaced by A.\<close>

theorem decode_foreign_as_zero:
  "\<exists>bs cs. dark_arrayBuffer_from_padded_b64url s = Inr bs
     \<and> dark_arrayBuffer_from_padded_b64url (sanitise s) = Inr cs \<and> prefix bs cs"
proof -
  have "js_trunc (buffer_length s) \<le> js_trunc (buffer_length (sanitise s))"
    using buffer_length_sanitise [of s] by (rule js_trunc_mono)
  then show ?thesis
    by (auto simp: decode_total dec_groups_sanitise intro!: take_prefix_mono nat_mono)
qed

end
