(* ===== verification/Libtarget.thy ===== *)
theory Libtarget
  imports Base64Spec
begin

text \<open>
  The digests of \<open>libtarget.js\<close>, which rewrite a hash's standard base64 into the URL alphabet,
  and the OCaml wrappers of \<open>libtarget.ml\<close>, which validate a string before it is decoded. The
  hash library is a parameter: \<open>sha x\<close> stands for \<open>SHA384(x).toString("base64")\<close>.
  An OCaml \<open>string\<close> is a list of bytes, here \<open>char\<close>s; \<open>js_string\<close> and \<open>js_to_string\<close> are used on
  ASCII strings only, where both representations have the same numbers.
\<close>

section \<open>Digests\<close>

text \<open>\<open>s.replace(/c/g, d)\<close> for single characters.\<close>

definition replace_all :: "code_unit \<Rightarrow> code_unit \<Rightarrow> code_unit list \<Rightarrow> code_unit list" where
  "replace_all c d s = map (\<lambda>u. if u = c then d else u) s"

definition dark_targetjs_digest384 :: "('x \<Rightarrow> code_unit list) \<Rightarrow> 'x \<Rightarrow> code_unit list" where
  "dark_targetjs_digest384 sha384 s =
     (let b64 = sha384 s
      in replace_all (of_char CHR ''+'') (of_char CHR ''-'')
           (replace_all (of_char CHR ''/'') (of_char CHR ''_'') b64))"

definition dark_targetjs_digest384_bytes :: "(byte list \<Rightarrow> code_unit list) \<Rightarrow> byte list \<Rightarrow> code_unit list" where
  "dark_targetjs_digest384_bytes sha384 uint8Array =
     (let b64 = sha384 uint8Array
      in replace_all (of_char CHR ''+'') (of_char CHR ''-'')
           (replace_all (of_char CHR ''/'') (of_char CHR ''_'') b64))"

definition dark_targetjs_digest256 :: "('x \<Rightarrow> code_unit list) \<Rightarrow> 'x \<Rightarrow> code_unit list" where
  "dark_targetjs_digest256 sha256 s =
     (let b64 = sha256 s
      in replace_all (of_char CHR ''+'') (of_char CHR ''-'')
           (replace_all (of_char CHR ''/'') (of_char CHR ''_'') b64))"

text \<open>The alphabet of RFC 4648, section 4, which \<open>Buffer\<close> uses.\<close>

definition std_chars :: "code_unit list" where
  "std_chars = units ''ABCDEFGHIJKLMNOPQRSTUVWXYZabcdefghijklmnopqrstuvwxyz0123456789+/''"

definition to_url_alphabet :: "code_unit \<Rightarrow> code_unit" where
  "to_url_alphabet u = (if u = of_char CHR ''/'' then of_char CHR ''_''
     else if u = of_char CHR ''+'' then of_char CHR ''-'' else u)"

lemma replaced_url: "replace_all (of_char CHR ''+'') (of_char CHR ''-'')
    (replace_all (of_char CHR ''/'') (of_char CHR ''_'') s) = map to_url_alphabet s"
  by (simp add: replace_all_def to_url_alphabet_def)

lemma std_to_url: "list_all (\<lambda>(u, v). to_url_alphabet u = v) (zip std_chars chars)"
  by code_simp

lemma length_std_chars [simp]: "length std_chars = 64"
  by (simp add: std_chars_def units_def)

lemma std_to_url_nth: "k < 64 \<Longrightarrow> to_url_alphabet (std_chars ! k) = chars ! k"
  using std_to_url by (auto simp: list_all_length)

lemma to_url_pad: "to_url_alphabet pad_char = pad_char"
  by code_simp

lemma rfc4648_to_url: "map to_url_alphabet (rfc4648_encode std_chars d) = rfc4648_encode chars d"
  by (induction d rule: enc_padded.induct)
    (simp_all add: rfc_groups std_to_url_nth to_url_pad)

text \<open>The three functions turn the library's standard base64 of some bytes into the RFC 4648, section 5,
  encoding of the same bytes.\<close>

lemma digest_url:
  assumes "sha x = rfc4648_encode std_chars digest"
  shows "dark_targetjs_digest384 sha x = dark_arrayBuffer_to_padded_b64url digest"
    "dark_targetjs_digest256 sha x = dark_arrayBuffer_to_padded_b64url digest"
  unfolding dark_targetjs_digest384_def dark_targetjs_digest256_def Let_def replaced_url assms rfc4648_to_url
  by (simp_all add: to_is_padded enc_padded_rfc)

lemma digest_bytes_url:
  assumes "sha x = rfc4648_encode std_chars digest"
  shows "dark_targetjs_digest384_bytes sha x = dark_arrayBuffer_to_padded_b64url digest"
  unfolding dark_targetjs_digest384_bytes_def Let_def replaced_url assms rfc4648_to_url
  by (simp add: to_is_padded enc_padded_rfc)

section \<open>The OCaml wrappers\<close>

datatype ocaml_exn = Invalid_B64 string | Js_error js_error

text \<open>\<open>Bytes.create\<close> leaves the content unspecified: \<open>junk\<close> is what happens to be there.\<close>

definition bytes_to_uint8Array :: "byte list \<Rightarrow> byte list" where
  "bytes_to_uint8Array input =
     fold (\<lambda>i buf. ta_set buf i (ucast (input ! i))) [0..<length input]
       (replicate (length input) 0)"

definition bytes_from_uint8Array :: "(nat \<Rightarrow> byte) \<Rightarrow> byte list \<Rightarrow> byte list" where
  "bytes_from_uint8Array junk input =
     fold (\<lambda>i bytes. bytes[i := input ! i]) [0..<length input]
       (map junk [0..<length input])"

definition js_string :: "string \<Rightarrow> code_unit list" where
  "js_string s = units s"

definition js_to_string :: "code_unit list \<Rightarrow> string" where
  "js_to_string s = map (\<lambda>u. char_of (unat u)) s"

definition base64url_bytes :: "byte list \<Rightarrow> string" where
  "base64url_bytes input =
     js_to_string (dark_arrayBuffer_to_padded_b64url (bytes_to_uint8Array input))"

text \<open>
  \<open>regexp_replace ~pattern:"^[alphabet=]*$" ~replacement:""\<close>: the anchored pattern matches the
  whole string or nothing, so the result is empty exactly when every character is in the class.
\<close>

definition rfc4648_section5_alphabet :: string where
  "rfc4648_section5_alphabet = ''ABCDEFGHIJKLMNOPQRSTUVWXYZabcdefghijklmnopqrstuvwxyz0123456789-_''"

definition valid_rfc4648_b64_or_exn :: "string \<Rightarrow> ocaml_exn + string" where
  "valid_rfc4648_b64_or_exn str =
     (let replaced_string =
        (if list_all (\<lambda>c. c \<in> set rfc4648_section5_alphabet \<or> c = CHR ''='') str then [] else str)
      in if replaced_string = [] then Inr str
         else Inl (Invalid_B64 ''Expected B64 input matching RFC4648 alphabet.''))"

definition bytes_from_base64url :: "(nat \<Rightarrow> byte) \<Rightarrow> string \<Rightarrow> ocaml_exn + byte list" where
  "bytes_from_base64url junk b64 =
     (case valid_rfc4648_b64_or_exn b64 of
        Inl e \<Rightarrow> Inl e
      | Inr s \<Rightarrow> (case dark_arrayBuffer_from_padded_b64url (js_string s) of
            Inl e \<Rightarrow> Inl (Js_error e)
          | Inr buf \<Rightarrow> Inr (bytes_from_uint8Array junk buf)))"

text \<open>The digests of the OCaml interface; \<open>sha\<close> is the hash library's digest of a string or of bytes as
  standard base64.\<close>

definition digest384 :: "(code_unit list \<Rightarrow> code_unit list) \<Rightarrow> string \<Rightarrow> string" where
  "digest384 sha384 input = js_to_string (dark_targetjs_digest384 sha384 (js_string input))"

definition digest384_bytes :: "(byte list \<Rightarrow> code_unit list) \<Rightarrow> byte list \<Rightarrow> string" where
  "digest384_bytes sha384 input = js_to_string (dark_targetjs_digest384_bytes sha384 (bytes_to_uint8Array input))"

definition digest256 :: "(code_unit list \<Rightarrow> code_unit list) \<Rightarrow> string \<Rightarrow> string" where
  "digest256 sha256 input = js_to_string (dark_targetjs_digest256 sha256 (js_string input))"

lemma length_fold_fill: "length (fold (\<lambda>i t. t[i := f i]) is t) = length t"
  by (induction "is" arbitrary: t) simp_all

lemma fold_fill:
  "fold (\<lambda>i t. t[i := f i]) [0..<length t] t = map f [0..<length t]"
proof -
  have "n \<le> length t \<Longrightarrow> k < length t \<Longrightarrow>
      fold (\<lambda>i t. t[i := f i]) [0..<n] t ! k = (if k < n then f k else t ! k)" for n k
    by (induction n) (auto simp: nth_list_update length_fold_fill less_Suc_eq)
  then show ?thesis by (intro nth_equalityI) (simp_all add: length_fold_fill)
qed

lemma ucast_int32_byte: "ucast (ucast (b :: byte) :: int32) = b"
  by (rule byte_eqI) (simp_all add: bit_unsigned_iff)

lemma bytes_to_uint8Array_id [simp]: "bytes_to_uint8Array input = input"
proof -
  have "fold (\<lambda>i buf. ta_set buf i (ucast (input ! i))) is t
      = fold (\<lambda>i t. t[i := input ! i]) is t" for "is" t
    by (induction "is" arbitrary: t) (auto simp: ta_set_def ucast_int32_byte list_update_beyond)
  then show ?thesis
    using fold_fill [of "\<lambda>i. input ! i" "replicate (length input) 0"]
    by (simp add: bytes_to_uint8Array_def map_nth)
qed

lemma bytes_from_uint8Array_id [simp]: "bytes_from_uint8Array junk input = input"
  using fold_fill [of "\<lambda>i. input ! i" "map junk [0..<length input]"]
  by (simp add: bytes_from_uint8Array_def map_nth)

text \<open>What the validation promises: it keeps a valid string and raises on every other one.\<close>

definition valid_char :: "char \<Rightarrow> bool" where
  "valid_char c \<longleftrightarrow> c \<in> set rfc4648_section5_alphabet \<or> c = CHR ''=''"

lemma valid_or_exn:
  "valid_rfc4648_b64_or_exn str =
     (if list_all valid_char str then Inr str
      else Inl (Invalid_B64 ''Expected B64 input matching RFC4648 alphabet.''))"
  by (auto simp: valid_rfc4648_b64_or_exn_def valid_char_def [abs_def] list_all_iff)

lemma from_base64url_cases:
  "bytes_from_base64url junk str =
     (if list_all valid_char str
      then (case dark_arrayBuffer_from_padded_b64url (js_string str) of
              Inl e \<Rightarrow> Inl (Js_error e) | Inr bs \<Rightarrow> Inr bs)
      else Inl (Invalid_B64 ''Expected B64 input matching RFC4648 alphabet.''))"
  by (auto simp: bytes_from_base64url_def valid_or_exn split: sum.split)

section \<open>The interface of a guarded codec\<close>

text \<open>
  A codec behind a validation: a guard that accepts every encoding does not disturb the round
  trip. \<open>conv\<close> and \<open>unconv\<close> convert between the string type of the guard and the codec's.
\<close>

locale guarded_codec = byte_codec encode decode
  for encode :: "'b list \<Rightarrow> 'c list" and decode :: "'c list \<Rightarrow> 'e + 'b list" +
  fixes valid :: "'s \<Rightarrow> bool" and conv :: "'s \<Rightarrow> 'c list" and unconv :: "'c list \<Rightarrow> 's"
  assumes valid_encode: "valid (unconv (encode bs))"
    and conv_encode: "conv (unconv (encode bs)) = encode bs"
begin

lemma guarded_roundtrip: "valid (unconv (encode bs)) \<and> decode (conv (unconv (encode bs))) = Inr bs"
  by (simp add: valid_encode conv_encode decode_encode)

end

lemma chars_units: "pad_char # chars = map of_char (CHR ''='' # rfc4648_section5_alphabet)"
  by (simp add: pad_char_def chars_def units_def rfc4648_section5_alphabet_def)

lemma chars_valid:
  assumes "u \<in> set (pad_char # chars)"
  shows "valid_char (char_of (unat u)) \<and> of_char (char_of (unat u) :: char) = u"
proof -
  obtain c where "u = of_char c" "c \<in> set (CHR ''='' # rfc4648_section5_alphabet)"
    using assms unfolding chars_units set_map by (rule imageE)
  then show ?thesis by (auto simp: valid_char_def)
qed

lemma set_enc_padded: "set (enc_padded bs) \<subseteq> set (pad_char # chars)"
  by (induction bs rule: enc_padded.induct) simp_all

lemma encoding_valid:
  "list_all valid_char (js_to_string (dark_arrayBuffer_to_padded_b64url bs))"
  "js_string (js_to_string (dark_arrayBuffer_to_padded_b64url bs)) = dark_arrayBuffer_to_padded_b64url bs"
proof -
  have "\<forall>u \<in> set (enc_padded bs). valid_char (char_of (unat u)) \<and> of_char (char_of (unat u) :: char) = u"
    using chars_valid set_enc_padded [of bs] by blast
  then show "list_all valid_char (js_to_string (dark_arrayBuffer_to_padded_b64url bs))"
    "js_string (js_to_string (dark_arrayBuffer_to_padded_b64url bs)) = dark_arrayBuffer_to_padded_b64url bs"
    unfolding to_is_padded js_to_string_def js_string_def units_def
    by (simp_all add: list_all_iff map_idI)
qed

interpretation lt: guarded_codec dark_arrayBuffer_to_padded_b64url
    dark_arrayBuffer_from_padded_b64url "list_all valid_char" js_string js_to_string
  by unfold_locales (rule encoding_valid)+

text \<open>The OCaml interface round-trips: decoding the string that base64url_bytes returns passes
  the validation and gives back the bytes, whatever Bytes.create leaves in the fresh buffer.\<close>

theorem wrapper_roundtrip: "bytes_from_base64url junk (base64url_bytes input) = Inr input"
  using lt.guarded_roundtrip [of input]
  by (simp add: from_base64url_cases base64url_bytes_def)

text \<open>bytes_from_base64url raises Invalid_B64 exactly on the strings with a character outside
  the URL alphabet and =, and returns bytes on every other string: no other exception escapes.\<close>

theorem wrapper_raises_iff:
  "(bytes_from_base64url junk str =
      Inl (Invalid_B64 ''Expected B64 input matching RFC4648 alphabet.'')
     \<longleftrightarrow> \<not> list_all (\<lambda>c. c \<in> set rfc4648_section5_alphabet \<or> c = CHR ''='') str)
   \<and> ((\<exists>bytes. bytes_from_base64url junk str = Inr bytes) \<longleftrightarrow>
     list_all (\<lambda>c. c \<in> set rfc4648_section5_alphabet \<or> c = CHR ''='') str)"
  by (auto simp: from_base64url_cases decode_total list_all_iff valid_char_def)

text \<open>The validation does not reject padding in the wrong place: an accepted string that does
  not end in = decodes to the same bytes as the string with every = replaced by A.\<close>

theorem misplaced_padding_accepted:
  assumes "list_all (\<lambda>c. c \<in> set rfc4648_section5_alphabet \<or> c = CHR ''='') str"
    and "last str \<noteq> CHR ''=''" and "str \<noteq> []"
  shows "bytes_from_base64url junk str =
     bytes_from_base64url junk (map (\<lambda>c. if c = CHR ''='' then CHR ''A'' else c) str)"
proof -
  let ?s = "js_string str" and ?a = "map (\<lambda>c. if c = CHR ''='' then CHR ''A'' else c) str"
  have "CHR ''A'' \<in> set rfc4648_section5_alphabet"
    by (simp add: rfc4648_section5_alphabet_def)
  then have v: "list_all valid_char str" "list_all valid_char ?a"
    using assms(1) by (auto simp: valid_char_def list_all_iff)
  have "set chars = of_char ` set rfc4648_section5_alphabet"
    by (simp add: chars_def units_def rfc4648_section5_alphabet_def)
  moreover have "CHR ''='' \<notin> set rfc4648_section5_alphabet"
    by (simp add: rfc4648_section5_alphabet_def)
  ultimately have "(of_char c :: code_unit) \<in> set chars \<longleftrightarrow> c \<noteq> CHR ''=''" if "c \<in> set str" for c
    using assms(1) that by (auto simp: list_all_iff image_iff of_char_unit_eq)
  then have a: "js_string ?a = sanitise ?s"
    by (simp add: js_string_def units_def sanitise_def)
  have "str_at ?s (int (length ?s) - 1) = Some (of_char (last str))"
    using assms(3) by (cases str rule: rev_cases)
      (simp_all add: js_string_def units_def str_at_def nth_opt_def nth_append)
  moreover have "of_char (last str) \<noteq> pad_char"
    using assms(2) by (simp only: pad_char_def of_char_unit_eq) simp
  ultimately have "buffer_length ?s = buffer_length (sanitise ?s)"
    using no_pad_sanitise [of ?s] by (simp add: buffer_length_def Let_def sanitise_def)
  then show ?thesis
    by (simp add: from_base64url_cases v a decode_total dec_groups_sanitise)
qed

theorem misplaced_padding_accepted_witness:
  "bytes_from_base64url (\<lambda>_. 7) ''QQ=Q'' = bytes_from_base64url (\<lambda>_. 7) ''QQAQ''
   \<and> last ''QQ=Q'' \<noteq> CHR ''=''"
  using misplaced_padding_accepted [of "''QQ=Q''" "\<lambda>_. 7"]
  by (simp add: rfc4648_section5_alphabet_def)

text \<open>In the terms of \<open>libtarget.js\<close>: the functions of strings return the RFC 4648, section 5,
  encoding of the digest, and the decoder turns it back into the digest.\<close>

theorem digest_is_url_base64:
  assumes "sha x = rfc4648_encode std_chars digest"
  shows "dark_targetjs_digest384 sha x = rfc4648_encode chars digest
    \<and> dark_targetjs_digest256 sha x = rfc4648_encode chars digest
    \<and> dark_arrayBuffer_from_padded_b64url (dark_targetjs_digest384 sha x) = Inr digest"
  using digest_url [of sha x digest, OF assms] b64.decode_encode [of digest]
  by (simp add: to_is_padded enc_padded_rfc)

theorem digest_is_url_base64_witness:
  "dark_arrayBuffer_from_padded_b64url (dark_targetjs_digest384 (\<lambda>_ :: unit. rfc4648_encode std_chars [251, 239, 255]) ())
     = Inr [251, 239, 255]"
  using digest_is_url_base64 [of "\<lambda>_ :: unit. rfc4648_encode std_chars [251, 239, 255]" "()" "[251, 239, 255]", OF refl]
  by (rule conjunct2 [THEN conjunct2])

text \<open>The digests of the OCaml interface are the base64url strings of the digests: when the hash
  library returns the standard base64 of some bytes (what Buffer documents), each of the three
  functions returns what base64url_bytes gives for these bytes, which bytes_from_base64url accepts and
  turns back into the digest.\<close>

theorem digests_decode:
  assumes "sha384 (js_string input) = rfc4648_encode std_chars d1"
    and "sha384_bytes bytes = rfc4648_encode std_chars d2"
    and "sha256 (js_string input) = rfc4648_encode std_chars d3"
  shows "bytes_from_base64url junk (digest384 sha384 input) = Inr d1
    \<and> bytes_from_base64url junk (digest384_bytes sha384_bytes bytes) = Inr d2
    \<and> bytes_from_base64url junk (digest256 sha256 input) = Inr d3
    \<and> digest384 sha384 input = base64url_bytes d1"
proof -
  have "bytes_from_base64url junk (base64url_bytes d) = Inr d" for d
    using lt.guarded_roundtrip [of d] by (simp add: from_base64url_cases base64url_bytes_def)
  then show ?thesis
    using digest_url(1) [of sha384 "js_string input" d1, OF assms(1)]
      digest_bytes_url [of sha384_bytes bytes d2, OF assms(2)]
      digest_url(2) [of sha256 "js_string input" d3, OF assms(3)]
    by (simp add: digest384_def digest384_bytes_def digest256_def base64url_bytes_def)
qed

theorem digests_decode_witness:
  "bytes_from_base64url (\<lambda>_. 0) (digest384 (\<lambda>_. rfc4648_encode std_chars [251, 239, 255]) ''x'') = Inr [251, 239, 255]"
  by (rule digests_decode [of "\<lambda>_. rfc4648_encode std_chars [251, 239, 255]" "''x''" "[251, 239, 255]"
      "\<lambda>_. rfc4648_encode std_chars []" "[]" "[]" "\<lambda>_. rfc4648_encode std_chars []" "[]" "\<lambda>_. 0",
      THEN conjunct1]) simp_all

end
