(* ===== verification/Channels.thy ===== *)
theory Channels
  imports Dark_Prelude
begin

text \<open>
  The interfaces the message queues of the client rest on. \<open>channel\<close> is a web worker as its
  owner sees it: messages are delivered first in, first out, and each is answered once. The
  locale \<open>mailbox\<close> is the contract of a one-slot queue in front of a worker (run one message,
  remember only the newest of the others); \<open>retry_queue\<close> is the contract of a sender that puts
  a message on a timer until its worker has loaded; \<open>engine\<close> is what the client of a worker relies on.
\<close>

section \<open>Worker channels\<close>

record channel =
  posted :: "jsval list"
  answered :: nat

definition new_channel :: channel where
  "new_channel = \<lparr>posted = [], answered = 0\<rparr>"

definition post :: "jsval \<Rightarrow> channel \<Rightarrow> channel" where
  "post m c = c\<lparr>posted := posted c @ [m]\<rparr>"

definition answer :: "channel \<Rightarrow> channel" where
  "answer c = c\<lparr>answered := Suc (answered c)\<rparr>"

definition in_flight :: "channel \<Rightarrow> jsval list" where
  "in_flight c = drop (answered c) (posted c)"

definition channel_ok :: "channel \<Rightarrow> bool" where
  "channel_ok c \<longleftrightarrow> answered c \<le> length (posted c)"

lemma posted_simps [simp]:
  "posted new_channel = []" "posted (post m c) = posted c @ [m]" "posted (answer c) = posted c"
  by (simp_all add: new_channel_def post_def answer_def)

lemma in_flight_simps [simp]:
  "in_flight new_channel = []"
  "in_flight (answer c) = tl (in_flight c)"
  by (simp_all add: in_flight_def new_channel_def answer_def drop_Suc tl_drop)

lemma in_flight_empty [simp]: "posted c = [] \<Longrightarrow> in_flight c = []"
  by (simp add: in_flight_def)

lemma in_flight_post [simp]: "channel_ok c \<Longrightarrow> in_flight (post m c) = in_flight c @ [m]"
  by (simp add: in_flight_def post_def channel_ok_def)

lemma channel_ok_simps [simp]:
  "channel_ok new_channel"
  "channel_ok c \<Longrightarrow> channel_ok (post m c)"
  "in_flight c \<noteq> [] \<Longrightarrow> channel_ok (answer c)"
  by (simp_all add: channel_ok_def new_channel_def post_def answer_def in_flight_def)

lemma channel_ok_ext:
  "channel_ok c \<Longrightarrow> posted c = posted d \<Longrightarrow> answered c = answered d \<Longrightarrow> channel_ok d"
  by (simp add: channel_ok_def)

section \<open>The mailbox: one running message, one waiting\<close>

locale mailbox =
  fixes invar :: "'s \<Rightarrow> bool"
    and running :: "'s \<Rightarrow> 'm option"
    and waiting :: "'s \<Rightarrow> 'm option"
    and history :: "'s \<Rightarrow> 'm list"
    and payload :: "'r \<Rightarrow> 'm"
    and submit :: "'r \<Rightarrow> 's \<Rightarrow> 's"
    and complete :: "'a \<Rightarrow> 's \<Rightarrow> 's"
  assumes idle_empty: "invar s \<Longrightarrow> running s = None \<Longrightarrow> waiting s = None"
    and invar_submit: "invar s \<Longrightarrow> invar (submit m s)"
    and invar_complete: "invar s \<Longrightarrow> running s \<noteq> None \<Longrightarrow> invar (complete a s)"
    and submit_idle: "invar s \<Longrightarrow> running s = None \<Longrightarrow>
      running (submit m s) = Some (payload m) \<and> waiting (submit m s) = None
      \<and> history (submit m s) = history s @ [payload m]"
    and submit_busy: "invar s \<Longrightarrow> running s = Some r \<Longrightarrow>
      running (submit m s) = Some r \<and> waiting (submit m s) = Some (payload m)
      \<and> history (submit m s) = history s"
    and complete_running: "invar s \<Longrightarrow> running s = Some r \<Longrightarrow>
      running (complete a s) = waiting s \<and> waiting (complete a s) = None
      \<and> history (complete a s) = history s @ (case waiting s of None \<Rightarrow> [] | Some m \<Rightarrow> [m])"
begin

lemma submit_running: "invar s \<Longrightarrow> running (submit m s) \<noteq> None"
  using submit_idle submit_busy by (cases "running s") fastforce+

lemma submits_invar: "invar s \<Longrightarrow> invar (fold submit ms s)"
  by (induction ms arbitrary: s) (simp_all add: invar_submit)

lemma submits_busy:
  assumes "invar s" and "running s = Some r" and "ms \<noteq> []"
  shows "running (fold submit ms s) = Some r \<and> waiting (fold submit ms s) = Some (payload (last ms))
    \<and> history (fold submit ms s) = history s"
  using assms
proof (induction ms arbitrary: s)
  case (Cons m ms)
  then show ?case
    using submit_busy [of s r m] invar_submit [of s m] by (cases "ms = []") auto
qed simp

text \<open>Coalescing: from an idle state only the first of several messages starts.\<close>

lemma submits_idle:
  assumes "invar s" and "running s = None"
  shows "history (fold submit (m # ms) s) = history s @ [payload m]
    \<and> running (fold submit (m # ms) s) = Some (payload m)
    \<and> waiting (fold submit (m # ms) s) = (if ms = [] then None else Some (payload (last ms)))"
  using submit_idle [OF assms, of m] submits_busy [OF invar_submit [OF assms(1)], of m "payload m" ms]
  by (cases "ms = []") auto

text \<open>The newest message wins: after two completions nothing is left, and of the messages only the newest
  was started, after the first one if the queue was idle.\<close>

lemma newest_wins:
  assumes "invar s" and "ms \<noteq> []" and s': "s' = fold submit ms s"
  shows "running s' \<noteq> None
    \<and> (let t = complete a s'; u = (if running t = None then t else complete b t)
       in history u = history s @ (if running s = None
              then payload (hd ms) # (if tl ms = [] then [] else [payload (last ms)]) else [payload (last ms)])
          \<and> running u = None \<and> waiting u = None \<and> invar u)"
proof -
  have i: "invar s'" using assms(1) by (simp add: s' submits_invar)
  obtain m ms' where ms: "ms = m # ms'" using assms(2) by (cases ms) auto
  show ?thesis
  proof (cases "running s")
    case None
    note r = submits_idle [OF assms(1) None, of m ms', folded ms, folded s']
    then have "running s' = Some (payload m)" by simp
    note c = complete_running [OF i this] and ic = invar_complete [OF i]
    show ?thesis
      using None r c ic complete_running [of "complete a s'" "payload (last ms')"] invar_complete [of "complete a s'"]
      by (auto simp: Let_def ms split: if_splits)
  next
    case (Some r)
    note b = submits_busy [OF assms(1) Some assms(2), folded s']
    then have "running s' = Some r" by simp
    note c = complete_running [OF i this] and ic = invar_complete [OF i]
    show ?thesis
      using Some b c ic complete_running [of "complete a s'" "payload (last ms)"] invar_complete [of "complete a s'"]
      by (auto simp: Let_def)
  qed
qed

end

section \<open>Retrying until the worker has loaded\<close>

text \<open>Operations of a sender: a request, the next of its timers, its worker's loading, and
  whatever else happens to it (an answer, say).\<close>

datatype ('m, 'e) retry_op = Submit 'm | Fire | Load | Other 'e

fun requests :: "('m, 'e) retry_op list \<Rightarrow> 'm list" where
  "requests [] = []"
| "requests (Submit m # ops) = m # requests ops"
| "requests (_ # ops) = requests ops"

locale retry_queue =
  fixes invar :: "'s \<Rightarrow> bool"
    and loaded :: "'s \<Rightarrow> bool"
    and pending :: "'s \<Rightarrow> 'm list"
    and accepted :: "'s \<Rightarrow> 'm list"
    and exec :: "('m, 'e) retry_op \<Rightarrow> 's \<Rightarrow> 's"
  assumes invar_exec: "invar s \<Longrightarrow> invar (exec op s)"
    and submit_unloaded: "invar s \<Longrightarrow> \<not> loaded s \<Longrightarrow>
      pending (exec (Submit m) s) = pending s @ [m] \<and> accepted (exec (Submit m) s) = accepted s"
    and submit_loaded: "invar s \<Longrightarrow> loaded s \<Longrightarrow>
      pending (exec (Submit m) s) = pending s \<and> accepted (exec (Submit m) s) = accepted s @ [m]"
    and fire_none: "invar s \<Longrightarrow> pending s = [] \<Longrightarrow>
      pending (exec Fire s) = [] \<and> accepted (exec Fire s) = accepted s"
    and fire_unloaded: "invar s \<Longrightarrow> \<not> loaded s \<Longrightarrow> pending s = m # ms \<Longrightarrow>
      pending (exec Fire s) = ms @ [m] \<and> accepted (exec Fire s) = accepted s"
    and fire_loaded: "invar s \<Longrightarrow> loaded s \<Longrightarrow> pending s = m # ms \<Longrightarrow>
      pending (exec Fire s) = ms \<and> accepted (exec Fire s) = accepted s @ [m]"
    and load: "invar s \<Longrightarrow> loaded (exec Load s)
      \<and> pending (exec Load s) = pending s \<and> accepted (exec Load s) = accepted s"
    and other: "invar s \<Longrightarrow> pending (exec (Other e) s) = pending s
      \<and> accepted (exec (Other e) s) = accepted s"
    and loaded_stays: "invar s \<Longrightarrow> loaded s \<Longrightarrow> loaded (exec op s)"
begin

lemma invar_run: "invar s \<Longrightarrow> invar (fold exec ops s)"
  by (induction ops arbitrary: s) (simp_all add: invar_exec)

lemma step_conserves:
  "invar s \<Longrightarrow> mset (accepted (exec op s)) + mset (pending (exec op s))
     = mset (accepted s) + mset (pending s) + mset (requests [op])"
proof (cases op)
  case (Submit m)
  assume "invar s"
  then show ?thesis using submit_unloaded submit_loaded Submit by (cases "loaded s") auto
next
  case Fire
  assume "invar s"
  then show ?thesis
    using fire_none fire_unloaded fire_loaded Fire
    by (cases "pending s"; cases "loaded s") auto
qed (auto simp: load other)

text \<open>Conservation: no request is lost or duplicated, whatever the order of requests, timers and
  loading.\<close>

lemma conserved:
  "invar s \<Longrightarrow> mset (accepted (fold exec ops s)) + mset (pending (fold exec ops s))
     = mset (accepted s) + mset (pending s) + mset (requests ops)"
proof (induction ops arbitrary: s)
  case (Cons op ops)
  have r: "mset (requests (op # ops)) = mset (requests [op]) + mset (requests ops)"
    by (cases op) simp_all
  show ?case
    using Cons.IH [OF invar_exec [OF Cons.prems], of op] step_conserves [OF Cons.prems, of op]
    by (simp only: fold_simps r) (simp add: ac_simps)
qed simp

text \<open>Once the worker has loaded, each timer delivers one message and the timers drain in the
  order they were set.\<close>

lemma drain:
  assumes "invar s" and "loaded s"
  shows "pending (((exec Fire) ^^ length (pending s)) s) = []
    \<and> accepted (((exec Fire) ^^ length (pending s)) s) = accepted s @ pending s"
  using assms
proof (induction "pending s" arbitrary: s)
  case (Cons m ms)
  have s: "pending s = m # ms" using Cons.hyps(2) by simp
  have "(exec Fire ^^ length (pending s)) s = (exec Fire ^^ length ms) (exec Fire s)"
    by (simp add: s funpow_swap1)
  then show ?case
    using Cons.hyps(1) [of "exec Fire s"] fire_loaded [OF Cons.prems s]
      invar_exec [OF Cons.prems(1), of Fire] loaded_stays [OF Cons.prems, of Fire] s
    by simp
qed simp

end

section \<open>An engine, seen by its client\<close>

text \<open>A map that drops what has no image; \<open>concat_single\<close> relates it to lists of at most one element.\<close>

lemma map_filter_append: "List.map_filter f (xs @ ys) = List.map_filter f xs @ List.map_filter f ys"
  by (simp add: List.map_filter_def)

lemma concat_single:
  "(\<And>m. length (f m) \<le> 1) \<Longrightarrow>
   concat (map f ms) = List.map_filter (\<lambda>m. case f m of [] \<Rightarrow> None | v # vs \<Rightarrow> Some v) ms"
proof (induction ms)
  case (Cons m ms)
  have "length (f m) \<le> 1" by (rule Cons.prems)
  then show ?case using Cons by (cases "f m") (simp_all add: List.map_filter_def)
qed (simp add: List.map_filter_def)

text \<open>The contract of an engine behind a channel: what its client has seen are the outcomes of the
  messages handled so far, in their order; a message may have none.\<close>

locale engine =
  fixes reach :: "'s \<Rightarrow> bool"
    and sent :: "'s \<Rightarrow> 'm list"
    and done_with :: "'s \<Rightarrow> nat"
    and seen :: "'s \<Rightarrow> 'v list"
    and outcome :: "'m \<Rightarrow> 'v option"
  assumes seen_outcomes: "reach s \<Longrightarrow> seen s = List.map_filter outcome (take (done_with s) (sent s))"
begin

lemma seen_prefix: "reach s \<Longrightarrow> prefix (seen s) (List.map_filter outcome (sent s))"
proof -
  assume "reach s"
  have "List.map_filter outcome (sent s)
      = List.map_filter outcome (take (done_with s) (sent s)) @ List.map_filter outcome (drop (done_with s) (sent s))"
    by (simp flip: map_filter_append)
  then show ?thesis using seen_outcomes [OF \<open>reach s\<close>] by (simp add: prefix_def)
qed

lemma all_seen:
  assumes "reach s" and "done_with s = length (sent s)" and "\<forall>m \<in> set (sent s). outcome m \<noteq> None"
  shows "map Some (seen s) = map outcome (sent s)"
proof -
  have "map Some (List.map_filter outcome ms) = map outcome ms" if "\<forall>m \<in> set ms. outcome m \<noteq> None" for ms
    using that by (induction ms) (auto simp: List.map_filter_def)
  then show ?thesis using assms seen_outcomes by simp
qed

lemma unseen_count:
  assumes "reach s" and "done_with s = length (sent s)"
  shows "length (seen s) + length (filter (\<lambda>m. outcome m = None) (sent s)) = length (sent s)"
proof -
  have "length (List.map_filter outcome ms) + length (filter (\<lambda>m. outcome m = None) ms) = length ms" for ms
    by (induction ms) (auto simp: List.map_filter_def)
  then show ?thesis using assms seen_outcomes by simp
qed

end

end
