(* ===== verification/AnalysisQueue.thy ===== *)
theory AnalysisQueue
  imports Channels
begin

text \<open>
  The analysis queues of \<open>client/src/appsupport.js\<close> (\<open>window.Dark.ocamlAnalysis\<close>,
  \<open>fsharpAnalysis\<close>, \<open>analysis\<close>), the interface \<open>initWorker\<close> / \<open>postMessage\<close> of
  \<open>BlazorWorker.js\<close> and \<open>stringifyInput\<close> / \<open>decodeOutput\<close> of \<open>FSharpAnalysisWrapper.ml\<close>.
  A JavaScript task runs to completion, so every handler is one function on the state. The JSON
  encoder of the request and decoder of the result are the parameters \<open>enc\<close> and \<open>dec\<close>; \<open>now\<close> is
  the clock; \<open>rs\<close> are the analyses that listeners of a dispatched event request synchronously,
  before \<open>dispatchEvent\<close> returns.
\<close>

section \<open>State\<close>

datatype js_exn = TypeError | SyntaxError

text \<open>
  One field per property of \<open>window.Dark.ocamlAnalysis\<close>, \<open>window.Dark.fsharpAnalysis\<close> and
  \<open>window.Dark.analysis\<close>, and the two workers. \<open>analysis_busy\<close> is the property \<open>busy\<close> of
  \<open>window.Dark.analysis\<close>, which the object literal does not define. \<open>None\<close> for a worker is the
  undefined variable. The timers are the arguments of the pending \<open>setTimeout\<close> closures; timers
  with equal delays fire in the order they were set.
\<close>

record dark =
  useBlazor :: jsval
  lastRun :: nat
  analysis_busy :: jsval
  ocaml_next :: jsval
  ocaml_busy :: bool
  analysisWorker :: "channel option"
  ocaml_onmessage :: bool
  ocaml_timers :: "jsval list"
  fsharp_next :: jsval
  fsharp_busy :: bool
  fsharp_initialized :: bool
  blazorWorker :: "channel option"
  fsharp_timers :: "jsval list"
  effects :: "effect list"

definition emit :: "effect \<Rightarrow> dark \<Rightarrow> dark" where
  "emit e d = d\<lparr>effects := effects d @ [e]\<rparr>"

definition init_dark :: "jsval \<Rightarrow> dark" where
  "init_dark param = \<lparr>useBlazor = param, lastRun = 0, analysis_busy = JUndefined,
     ocaml_next = JNull, ocaml_busy = False, analysisWorker = None, ocaml_onmessage = False,
     ocaml_timers = [], fsharp_next = JNull, fsharp_busy = False, fsharp_initialized = False,
     blazorWorker = None, fsharp_timers = [], effects = []\<rparr>"

section \<open>The OCaml analysis\<close>

definition ocaml_request :: "jsval \<Rightarrow> dark \<Rightarrow> dark" where
  "ocaml_request params d =
     (case analysisWorker d of
        None \<Rightarrow> (emit (ConsoleLog [JStr ''AnalysisWorker not loaded yet'']) d)
                 \<lparr>ocaml_timers := ocaml_timers d @ [params]\<rparr>
      | Some worker \<Rightarrow>
          (let d1 = (if truthy (analysis_busy d) then d\<lparr>ocaml_next := params\<rparr>
                     else d\<lparr>analysisWorker := Some (post params worker), ocaml_busy := True\<rparr>)
           in d1\<lparr>ocaml_onmessage := True\<rparr>))"

definition ocaml_timer :: "dark \<Rightarrow> dark" where
  "ocaml_timer d =
     (case ocaml_timers d of
        [] \<Rightarrow> d
      | params # rest \<Rightarrow>
          ocaml_request params
            (emit (ConsoleLog [JStr ''Trying AnalysisWorker again'']) (d\<lparr>ocaml_timers := rest\<rparr>)))"

text \<open>\<open>window.analysisWorker = new Worker(analysisWorkerUrl)\<close>.\<close>

definition ocaml_worker_loaded :: "dark \<Rightarrow> dark" where
  "ocaml_worker_loaded d = d\<lparr>analysisWorker := Some new_channel\<rparr>"

section \<open>The wrapper of the F# analysis\<close>

definition stringifyInput :: "(jsval \<Rightarrow> string) \<Rightarrow> jsval \<Rightarrow> (string \<times> string) \<times> effect list" where
  "stringifyInput enc event =
     (if event = JNull \<or> event = JUndefined
      then ((''error'', ''Error: got null instead of an event''),
            [ConsoleLog [JStr ''Got null instead of an event'', event]])
      else ((''success'', enc event), []))"

definition response_object :: "string \<times> string \<Rightarrow> jsval" where
  "response_object r = JObj [(''responseType'', JStr (fst r)), (''json'', JStr (snd r))]"

text \<open>\<open>decodeOutput\<close> raises when the text is not JSON of the expected shape.\<close>

type_synonym decoder = "jsval \<Rightarrow> js_exn + jsval"

section \<open>BlazorWorker: initWorker and postMessage\<close>

definition blazor_postMessage :: "jsval \<Rightarrow> dark \<Rightarrow> dark \<times> js_exn option" where
  "blazor_postMessage m d =
     (case blazorWorker d of
        None \<Rightarrow> (d, Some TypeError)
      | Some worker \<Rightarrow> (d\<lparr>blazorWorker := Some (post m worker)\<rparr>, None))"

definition blazor_initWorker :: "dark \<Rightarrow> dark" where
  "blazor_initWorker d = d\<lparr>blazorWorker := Some new_channel\<rparr>"

definition ready_message :: jsval where
  "ready_message = JStr ''darkWebWorkerInitializedMessage''"

section \<open>The F# analysis\<close>

text \<open>The part of \<open>requestAnalysis\<close> after the check of \<open>initialized\<close>.\<close>

definition fsharp_enqueue :: "(jsval \<Rightarrow> string) \<Rightarrow> jsval \<Rightarrow> dark \<Rightarrow> dark \<times> js_exn option" where
  "fsharp_enqueue enc params d =
     (let (r, log) = stringifyInput enc params;
          d1 = d\<lparr>effects := effects d @ log\<rparr>;
          (params1, d2) =
            (if fst r = ''error''
             then (response_object r,
                   emit (ConsoleLog [JStr ''error calling F# analysis'', JStr (snd r), response_object r]) d1)
             else (JStr (snd r), d1))
      in if fsharp_busy d2 then (d2\<lparr>fsharp_next := params1\<rparr>, None)
         else (case blazor_postMessage params1 d2 of
                 (d3, Some e) \<Rightarrow> (d3, Some e)
               | (d3, None) \<Rightarrow> (d3\<lparr>fsharp_busy := True\<rparr>, None)))"

definition fsharp_request :: "(jsval \<Rightarrow> string) \<Rightarrow> jsval \<Rightarrow> dark \<Rightarrow> dark \<times> js_exn option" where
  "fsharp_request enc params d =
     (if \<not> fsharp_initialized d
      then ((emit (ConsoleLog [JStr ''BlazorWorker not loaded yet'']) d)
              \<lparr>fsharp_timers := fsharp_timers d @ [params]\<rparr>, None)
      else fsharp_enqueue enc params d)"

definition fsharp_timer :: "(jsval \<Rightarrow> string) \<Rightarrow> dark \<Rightarrow> dark \<times> js_exn option" where
  "fsharp_timer enc d =
     (case fsharp_timers d of
        [] \<Rightarrow> (d, None)
      | params # rest \<Rightarrow>
          fsharp_request enc params
            (emit (ConsoleLog [JStr ''Trying BlazorWorker again'']) (d\<lparr>fsharp_timers := rest\<rparr>)))"

definition initializedCallback :: "dark \<Rightarrow> dark" where
  "initializedCallback d = (emit (ConsoleLog [JStr ''Blazor loaded'']) d)\<lparr>fsharp_initialized := True\<rparr>"

definition initializeBlazorWorker :: "dark \<Rightarrow> dark" where
  "initializeBlazorWorker d = (if truthy (useBlazor d) then blazor_initWorker d else d)"

section \<open>The dispatcher and the handlers of answers\<close>

definition request_analysis :: "(jsval \<Rightarrow> string) \<Rightarrow> jsval \<Rightarrow> dark \<Rightarrow> dark \<times> js_exn option" where
  "request_analysis enc params d =
     (if truthy (useBlazor d) then fsharp_request enc params d
      else (ocaml_request params d, None))"

text \<open>Requests from listeners: an exception in a listener is reported and does not reach
  \<open>dispatchEvent\<close>'s caller.\<close>

definition requests_from_listeners :: "(jsval \<Rightarrow> string) \<Rightarrow> jsval list \<Rightarrow> dark \<Rightarrow> dark" where
  "requests_from_listeners enc rs d = fold (\<lambda>p d. fst (request_analysis enc p d)) rs d"

text \<open>\<open>worker.onmessage\<close> of the OCaml analysis worker, for the answer to its oldest message.\<close>

definition ocaml_answer :: "(jsval \<Rightarrow> string) \<Rightarrow> jsval \<Rightarrow> nat \<Rightarrow> jsval list \<Rightarrow> dark \<Rightarrow> dark" where
  "ocaml_answer enc result now rs d0 =
     (let d = d0\<lparr>analysisWorker := map_option answer (analysisWorker d0)\<rparr>
      in if \<not> ocaml_onmessage d then d
         else
           let d1 = requests_from_listeners enc rs (emit (DispatchEvent ''receiveAnalysis'' result) d);
               params = ocaml_next d1;
               d2 = (if params = JNull then d1\<lparr>ocaml_busy := False\<rparr>
                     else d1\<lparr>ocaml_next := JNull,
                             analysisWorker := map_option (post params) (analysisWorker d1)\<rparr>)
           in d2\<lparr>lastRun := now\<rparr>)"

definition fsharp_callback ::
  "(jsval \<Rightarrow> string) \<Rightarrow> decoder \<Rightarrow> jsval \<Rightarrow> nat \<Rightarrow> jsval list \<Rightarrow> dark \<Rightarrow> dark \<times> js_exn option" where
  "fsharp_callback enc dec data now rs d =
     (case dec data of
        Inl e \<Rightarrow> (d, Some e)
      | Inr result \<Rightarrow>
          (let d1 = requests_from_listeners enc rs (emit (DispatchEvent ''receiveAnalysis'' result) d);
               params = fsharp_next d1
           in if params = JNull
              then ((d1\<lparr>fsharp_busy := False\<rparr>)\<lparr>lastRun := now\<rparr>, None)
              else (case blazor_postMessage params (d1\<lparr>fsharp_next := JNull\<rparr>) of
                      (d2, Some e) \<Rightarrow> (d2, Some e)
                    | (d2, None) \<Rightarrow> (d2\<lparr>lastRun := now\<rparr>, None))))"

text \<open>\<open>worker.onmessage\<close> of \<open>initWorker\<close>: the first message of the worker is the ready message,
  every other one answers the oldest message posted to it.\<close>

definition blazor_onmessage ::
  "(jsval \<Rightarrow> string) \<Rightarrow> decoder \<Rightarrow> jsval \<Rightarrow> nat \<Rightarrow> jsval list \<Rightarrow> dark \<Rightarrow> dark \<times> js_exn option" where
  "blazor_onmessage enc dec data now rs d =
     (if data = ready_message then (initializedCallback d, None)
      else fsharp_callback enc dec data now rs d)"

definition blazor_answer ::
  "(jsval \<Rightarrow> string) \<Rightarrow> decoder \<Rightarrow> jsval \<Rightarrow> nat \<Rightarrow> jsval list \<Rightarrow> dark \<Rightarrow> dark \<times> js_exn option" where
  "blazor_answer enc dec data now rs d =
     blazor_onmessage enc dec data now rs (d\<lparr>blazorWorker := map_option answer (blazorWorker d)\<rparr>)"

section \<open>Tasks\<close>

text \<open>
  The tasks of the event loop that touch this state. A worker answers only messages it was sent
  (\<open>in_flight\<close>), the OCaml worker is created once, \<open>initializeBlazorWorker\<close> is called once, and
  the Blazor worker announces itself once, before it answers anything.
\<close>

datatype dark_task =
    Request jsval
  | OcamlTimer
  | FsharpTimer
  | OcamlLoaded
  | BlazorInit
  | BlazorReady
  | OcamlAnswer jsval nat "jsval list"
  | BlazorAnswer jsval nat "jsval list"

fun enabled :: "dark_task \<Rightarrow> dark \<Rightarrow> bool" where
  "enabled (Request p) d = True"
| "enabled OcamlTimer d = (ocaml_timers d \<noteq> [])"
| "enabled FsharpTimer d = (fsharp_timers d \<noteq> [])"
| "enabled OcamlLoaded d = (analysisWorker d = None)"
| "enabled BlazorInit d = (blazorWorker d = None)"
| "enabled BlazorReady d = (blazorWorker d \<noteq> None \<and> \<not> fsharp_initialized d)"
| "enabled (OcamlAnswer r now rs) d =
     (case analysisWorker d of None \<Rightarrow> False | Some c \<Rightarrow> in_flight c \<noteq> [])"
| "enabled (BlazorAnswer r now rs) d =
     (r \<noteq> ready_message \<and> (case blazorWorker d of None \<Rightarrow> False | Some c \<Rightarrow> in_flight c \<noteq> []))"

fun run_task :: "(jsval \<Rightarrow> string) \<Rightarrow> decoder \<Rightarrow> dark_task \<Rightarrow> dark \<Rightarrow> dark \<times> js_exn option" where
  "run_task enc dec (Request p) d = request_analysis enc p d"
| "run_task enc dec OcamlTimer d = (ocaml_timer d, None)"
| "run_task enc dec FsharpTimer d = fsharp_timer enc d"
| "run_task enc dec OcamlLoaded d = (ocaml_worker_loaded d, None)"
| "run_task enc dec BlazorInit d = (initializeBlazorWorker d, None)"
| "run_task enc dec BlazorReady d = blazor_onmessage enc dec ready_message 0 [] d"
| "run_task enc dec (OcamlAnswer r now rs) d = (ocaml_answer enc r now rs d, None)"
| "run_task enc dec (BlazorAnswer r now rs) d = blazor_answer enc dec r now rs d"

inductive dark_steps :: "(jsval \<Rightarrow> string) \<Rightarrow> decoder \<Rightarrow> dark \<Rightarrow> dark \<Rightarrow> bool"
  for enc :: "jsval \<Rightarrow> string" and dec :: decoder and d0 :: dark where
  start: "dark_steps enc dec d0 d0"
| task: "dark_steps enc dec d0 d \<Longrightarrow> enabled t d \<Longrightarrow>
     dark_steps enc dec d0 (fst (run_task enc dec t d))"

text \<open>The states of a page that was opened with the value \<open>param\<close> of \<open>use-blazor\<close>.\<close>

abbreviation dark_reach :: "(jsval \<Rightarrow> string) \<Rightarrow> decoder \<Rightarrow> jsval \<Rightarrow> dark \<Rightarrow> bool" where
  "dark_reach enc dec param \<equiv> dark_steps enc dec (init_dark param)"

section \<open>What the queues keep true\<close>

definition payload :: "(jsval \<Rightarrow> string) \<Rightarrow> jsval \<Rightarrow> jsval" where
  "payload enc p = (if p = JNull \<or> p = JUndefined
     then response_object (''error'', ''Error: got null instead of an event'') else JStr (enc p))"

definition enqueue_log :: "jsval \<Rightarrow> effect list" where
  "enqueue_log p = (if p = JNull \<or> p = JUndefined
     then [ConsoleLog [JStr ''Got null instead of an event'', p],
           ConsoleLog [JStr ''error calling F# analysis'',
             JStr ''Error: got null instead of an event'',
             response_object (''error'', ''Error: got null instead of an event'')]]
     else [])"

lemma payload_not_null [simp]: "payload enc p \<noteq> JNull"
  by (simp add: payload_def response_object_def)

lemma fsharp_enqueue_eq:
  "fsharp_enqueue enc p d =
     (let d2 = d\<lparr>effects := effects d @ enqueue_log p\<rparr>
      in if fsharp_busy d then (d2\<lparr>fsharp_next := payload enc p\<rparr>, None)
         else (case blazorWorker d of
                 None \<Rightarrow> (d2, Some TypeError)
               | Some c \<Rightarrow> (d2\<lparr>blazorWorker := Some (post (payload enc p) c), fsharp_busy := True\<rparr>, None)))"
  by (auto simp: fsharp_enqueue_def stringifyInput_def payload_def enqueue_log_def Let_def emit_def
      blazor_postMessage_def split: option.split)

definition ocaml_inv :: "dark \<Rightarrow> bool" where
  "ocaml_inv d \<longleftrightarrow> analysis_busy d = JUndefined \<and> ocaml_next d = JNull
     \<and> (case analysisWorker d of None \<Rightarrow> True
        | Some c \<Rightarrow> channel_ok c \<and> (in_flight c \<noteq> [] \<longrightarrow> ocaml_onmessage d))
     \<and> (truthy (useBlazor d) \<longrightarrow> ocaml_timers d = []
        \<and> (case analysisWorker d of None \<Rightarrow> True | Some c \<Rightarrow> posted c = []))"

text \<open>\<open>T\<close> says that no answer so far failed to decode.\<close>

definition fsharp_inv :: "bool \<Rightarrow> dark \<Rightarrow> bool" where
  "fsharp_inv T d \<longleftrightarrow>
     (case blazorWorker d of
        None \<Rightarrow> \<not> fsharp_initialized d \<and> \<not> fsharp_busy d \<and> fsharp_next d = JNull
      | Some c \<Rightarrow> truthy (useBlazor d) \<and> channel_ok c
          \<and> (if fsharp_busy d
             then fsharp_initialized d \<and> length (in_flight c) \<le> 1 \<and> (T \<longrightarrow> in_flight c \<noteq> [])
             else in_flight c = [] \<and> fsharp_next d = JNull))
     \<and> (\<not> truthy (useBlazor d) \<longrightarrow> fsharp_timers d = [])"

lemma ocaml_inv_ext:
  "ocaml_inv d \<Longrightarrow> analysis_busy d' = analysis_busy d \<Longrightarrow> ocaml_next d' = ocaml_next d \<Longrightarrow>
   analysisWorker d' = analysisWorker d \<Longrightarrow> ocaml_onmessage d' = ocaml_onmessage d \<Longrightarrow>
   ocaml_timers d' = ocaml_timers d \<Longrightarrow> useBlazor d' = useBlazor d \<Longrightarrow> ocaml_inv d'"
  by (auto simp: ocaml_inv_def split: option.splits)

lemma fsharp_inv_ext:
  "fsharp_inv T d \<Longrightarrow> blazorWorker d' = blazorWorker d \<Longrightarrow> fsharp_initialized d' = fsharp_initialized d \<Longrightarrow>
   fsharp_busy d' = fsharp_busy d \<Longrightarrow> fsharp_next d' = fsharp_next d \<Longrightarrow>
   fsharp_timers d' = fsharp_timers d \<Longrightarrow> useBlazor d' = useBlazor d \<Longrightarrow> fsharp_inv T d'"
  by (auto simp: fsharp_inv_def split: option.splits)

lemma fsharp_request_inv:
  assumes "fsharp_inv T d" "ocaml_inv d" "truthy (useBlazor d)"
  shows "snd (fsharp_request enc p d) = None \<and> fsharp_inv T (fst (fsharp_request enc p d))
    \<and> ocaml_inv (fst (fsharp_request enc p d))
    \<and> useBlazor (fst (fsharp_request enc p d)) = useBlazor d
    \<and> (fsharp_busy d \<longrightarrow> fsharp_busy (fst (fsharp_request enc p d))
        \<and> blazorWorker (fst (fsharp_request enc p d)) = blazorWorker d)
    \<and> fsharp_initialized (fst (fsharp_request enc p d)) = fsharp_initialized d"
  using assms
  by (auto simp: fsharp_request_def fsharp_enqueue_eq Let_def emit_def fsharp_inv_def ocaml_inv_def
      split: option.splits if_splits)

lemma ocaml_request_inv:
  assumes "fsharp_inv T d" "ocaml_inv d" "\<not> truthy (useBlazor d)"
  shows "fsharp_inv T (ocaml_request p d) \<and> ocaml_inv (ocaml_request p d)
    \<and> useBlazor (ocaml_request p d) = useBlazor d"
  using assms
  by (auto simp: ocaml_request_def Let_def emit_def fsharp_inv_def ocaml_inv_def
      split: option.splits if_splits)

lemma request_analysis_inv:
  assumes "fsharp_inv T d" "ocaml_inv d"
  shows "snd (request_analysis enc p d) = None \<and> fsharp_inv T (fst (request_analysis enc p d))
    \<and> ocaml_inv (fst (request_analysis enc p d))
    \<and> useBlazor (fst (request_analysis enc p d)) = useBlazor d"
  using assms fsharp_request_inv ocaml_request_inv by (simp add: request_analysis_def)


lemma listeners_inv:
  "fsharp_inv T d \<Longrightarrow> ocaml_inv d \<Longrightarrow>
   fsharp_inv T (requests_from_listeners enc rs d) \<and> ocaml_inv (requests_from_listeners enc rs d)
   \<and> useBlazor (requests_from_listeners enc rs d) = useBlazor d"
proof (induction rs arbitrary: d)
  case (Cons p rs)
  then show ?case using request_analysis_inv [of T d enc p] by (simp add: requests_from_listeners_def)
qed (simp add: requests_from_listeners_def)

text \<open>While an answer is handled the F# queue is busy: what listeners request is only stored.\<close>

lemma listeners_fsharp_busy:
  assumes "fsharp_busy d" "fsharp_initialized d" "truthy (useBlazor d)"
  shows "requests_from_listeners enc rs d =
     d\<lparr>effects := effects d @ concat (map enqueue_log rs),
       fsharp_next := (if rs = [] then fsharp_next d else payload enc (last rs))\<rparr>"
  using assms
proof (induction rs arbitrary: d)
  case (Cons p rs)
  then show ?case
    by (simp add: requests_from_listeners_def request_analysis_def fsharp_request_def
        fsharp_enqueue_eq Let_def)
qed (simp add: requests_from_listeners_def)

text \<open>The OCaml queue never stores a request, so what listeners request is posted at once.\<close>

lemma ocaml_request_loaded:
  assumes "analysis_busy d = JUndefined" "analysisWorker d = Some c" "ocaml_onmessage d"
  shows "ocaml_request p d = d\<lparr>analysisWorker := Some (post p c), ocaml_busy := True\<rparr>"
  using assms by (cases d) (simp add: ocaml_request_def Let_def)

lemma listeners_ocaml:
  assumes "analysis_busy d = JUndefined" "analysisWorker d = Some c" "\<not> truthy (useBlazor d)"
    "ocaml_onmessage d"
  shows "requests_from_listeners enc rs d =
     d\<lparr>analysisWorker := Some (c\<lparr>posted := posted c @ rs\<rparr>),
       ocaml_busy := (ocaml_busy d \<or> rs \<noteq> [])\<rparr>"
  using assms
proof (induction rs arbitrary: d c)
  case Nil
  then show ?case by (cases d) (simp add: requests_from_listeners_def)
next
  case (Cons p rs)
  let ?d = "d\<lparr>analysisWorker := Some (post p c), ocaml_busy := True\<rparr>"
  have "requests_from_listeners enc (p # rs) d = requests_from_listeners enc rs ?d"
    using Cons.prems
    by (simp add: requests_from_listeners_def request_analysis_def ocaml_request_loaded)
  also have "\<dots> = ?d\<lparr>analysisWorker := Some ((post p c)\<lparr>posted := posted (post p c) @ rs\<rparr>),
       ocaml_busy := True\<rparr>"
    using Cons.IH [of ?d "post p c"] Cons.prems by simp
  finally show ?case by (simp add: post_def)
qed

lemma ocaml_answer_eq:
  assumes "ocaml_inv d" "analysisWorker d = Some c" "in_flight c \<noteq> []"
  shows "ocaml_answer enc r now rs d =
     d\<lparr>effects := effects d @ [DispatchEvent ''receiveAnalysis'' r],
       analysisWorker := Some (answer c\<lparr>posted := posted c @ rs\<rparr>),
       ocaml_busy := False, lastRun := now\<rparr>"
proof -
  have u: "\<not> truthy (useBlazor d)" and o: "ocaml_onmessage d" "ocaml_next d = JNull"
    using assms by (auto simp: ocaml_inv_def in_flight_def)
  let ?d = "emit (DispatchEvent ''receiveAnalysis'' r) (d\<lparr>analysisWorker := Some (answer c)\<rparr>)"
  have "requests_from_listeners enc rs ?d = ?d\<lparr>analysisWorker := Some (answer c\<lparr>posted := posted c @ rs\<rparr>),
       ocaml_busy := (ocaml_busy d \<or> rs \<noteq> [])\<rparr>"
    using assms u o listeners_ocaml [of ?d "answer c" enc rs] by (simp add: emit_def ocaml_inv_def)
  then show ?thesis
    using assms o by (simp add: ocaml_answer_def Let_def emit_def)
qed

lemma blazor_answer_eq:
  assumes "fsharp_inv T d" "blazorWorker d = Some c" "in_flight c \<noteq> []" "r \<noteq> ready_message"
  shows "blazor_answer enc dec r now rs d =
     (case dec r of
        Inl e \<Rightarrow> (d\<lparr>blazorWorker := Some (answer c)\<rparr>, Some e)
      | Inr result \<Rightarrow>
         (let d1 = d\<lparr>effects := effects d @ DispatchEvent ''receiveAnalysis'' result # concat (map enqueue_log rs),
                   fsharp_next := JNull, lastRun := now\<rparr>;
              n = (if rs = [] then fsharp_next d else payload enc (last rs))
          in (if n = JNull then d1\<lparr>blazorWorker := Some (answer c), fsharp_busy := False\<rparr>
              else d1\<lparr>blazorWorker := Some (post n (answer c))\<rparr>, None)))"
proof -
  have b: "fsharp_busy d" "fsharp_initialized d" "truthy (useBlazor d)"
    using assms by (auto simp: fsharp_inv_def split: if_splits)
  show ?thesis
  proof (cases "dec r")
    case (Inl e)
    then show ?thesis using assms(2,4) by (simp add: blazor_answer_def blazor_onmessage_def fsharp_callback_def)
  next
    case (Inr result)
    let ?d = "emit (DispatchEvent ''receiveAnalysis'' result) (d\<lparr>blazorWorker := Some (answer c)\<rparr>)"
    have l: "requests_from_listeners enc rs ?d =
       ?d\<lparr>effects := effects ?d @ concat (map enqueue_log rs),
         fsharp_next := (if rs = [] then fsharp_next d else payload enc (last rs))\<rparr>"
      using b by (subst listeners_fsharp_busy) (simp_all add: emit_def)
    show ?thesis
      using assms(2,4) Inr
      by (simp add: blazor_answer_def blazor_onmessage_def fsharp_callback_def l)
        (simp add: Let_def emit_def blazor_postMessage_def)
  qed
qed


lemma invs_init: "fsharp_inv T (init_dark param)" "ocaml_inv (init_dark param)"
  by (simp_all add: fsharp_inv_def ocaml_inv_def init_dark_def)

lemma ocaml_timer_inv:
  assumes "fsharp_inv T d" "ocaml_inv d"
  shows "fsharp_inv T (ocaml_timer d) \<and> ocaml_inv (ocaml_timer d)
    \<and> useBlazor (ocaml_timer d) = useBlazor d"
proof (cases "ocaml_timers d")
  case (Cons p rest)
  let ?d = "emit (ConsoleLog [JStr ''Trying AnalysisWorker again'']) (d\<lparr>ocaml_timers := rest\<rparr>)"
  have u: "\<not> truthy (useBlazor d)" using assms Cons by (auto simp: ocaml_inv_def)
  have "fsharp_inv T ?d" by (rule fsharp_inv_ext [OF assms(1)]) (simp_all add: emit_def)
  moreover have "ocaml_inv ?d" using assms(2) u by (simp add: ocaml_inv_def emit_def split: option.splits)
  ultimately show ?thesis
    using ocaml_request_inv [of T ?d p] u Cons by (simp add: ocaml_timer_def emit_def)
qed (use assms in \<open>simp add: ocaml_timer_def\<close>)

lemma fsharp_timer_inv:
  assumes "fsharp_inv T d" "ocaml_inv d"
  shows "snd (fsharp_timer enc d) = None
    \<and> fsharp_inv T (fst (fsharp_timer enc d)) \<and> ocaml_inv (fst (fsharp_timer enc d))
    \<and> useBlazor (fst (fsharp_timer enc d)) = useBlazor d"
proof (cases "fsharp_timers d")
  case (Cons p rest)
  let ?d = "emit (ConsoleLog [JStr ''Trying BlazorWorker again'']) (d\<lparr>fsharp_timers := rest\<rparr>)"
  have u: "truthy (useBlazor d)" using assms Cons by (auto simp: fsharp_inv_def)
  have "ocaml_inv ?d" by (rule ocaml_inv_ext [OF assms(2)]) (simp_all add: emit_def)
  moreover have "fsharp_inv T ?d" using assms(1) u
    by (auto simp: fsharp_inv_def emit_def split: option.splits if_splits)
  ultimately show ?thesis
    using fsharp_request_inv [of T ?d enc p] u Cons by (simp add: fsharp_timer_def emit_def)
qed (use assms in \<open>simp add: fsharp_timer_def\<close>)

lemma ocaml_answer_inv:
  assumes "fsharp_inv T d" "ocaml_inv d" "analysisWorker d = Some c" "in_flight c \<noteq> []"
  shows "fsharp_inv T (ocaml_answer enc r now rs d) \<and> ocaml_inv (ocaml_answer enc r now rs d)
    \<and> useBlazor (ocaml_answer enc r now rs d) = useBlazor d"
proof -
  have "channel_ok (answer c)" using assms(4) by simp
  then have "channel_ok (answer c\<lparr>posted := posted c @ rs\<rparr>)"
    by (simp add: channel_ok_def answer_def)
  then show ?thesis using assms
    by (simp add: ocaml_answer_eq [OF assms(2,3,4)])
      (auto simp: fsharp_inv_def ocaml_inv_def in_flight_def split: option.splits)
qed

lemma tl_short: "length xs \<le> 1 \<Longrightarrow> tl xs = []"
  by (cases xs) simp_all

lemma blazor_answer_inv:
  assumes "fsharp_inv T d" "ocaml_inv d" "blazorWorker d = Some c" "in_flight c \<noteq> []"
    "r \<noteq> ready_message" "T \<longrightarrow> \<not> isl (dec r)"
  shows "fsharp_inv T (fst (blazor_answer enc dec r now rs d))
    \<and> ocaml_inv (fst (blazor_answer enc dec r now rs d))
    \<and> useBlazor (fst (blazor_answer enc dec r now rs d)) = useBlazor d
    \<and> (snd (blazor_answer enc dec r now rs d) \<noteq> None \<longrightarrow> isl (dec r))"
proof -
  have c: "length (in_flight c) \<le> 1" "tl (in_flight c) = []" "fsharp_busy d" "channel_ok (answer c)"
    using assms by (auto simp: fsharp_inv_def tl_short split: if_splits)
  show ?thesis
    using assms c by (cases "dec r")
      (auto simp: blazor_answer_eq [OF assms(1,3,4,5)] Let_def fsharp_inv_def ocaml_inv_def split: option.splits)
qed

lemma task_inv:
  assumes "fsharp_inv T d" "ocaml_inv d" "enabled t d"
    and "\<And>r now rs. t = BlazorAnswer r now rs \<Longrightarrow> T \<Longrightarrow> \<not> isl (dec r)"
  shows "fsharp_inv T (fst (run_task enc dec t d)) \<and> ocaml_inv (fst (run_task enc dec t d))
    \<and> useBlazor (fst (run_task enc dec t d)) = useBlazor d
    \<and> (snd (run_task enc dec t d) \<noteq> None \<longrightarrow> (\<exists>r now rs. t = BlazorAnswer r now rs \<and> isl (dec r)))"
proof (cases t)
  case (Request p)
  then show ?thesis using request_analysis_inv [OF assms(1,2)] by simp
next
  case OcamlTimer
  then show ?thesis using ocaml_timer_inv [OF assms(1,2)] by simp
next
  case FsharpTimer
  then show ?thesis using fsharp_timer_inv [OF assms(1,2)] by simp
next
  case OcamlLoaded
  then show ?thesis using assms by (auto simp: ocaml_worker_loaded_def fsharp_inv_def ocaml_inv_def split: option.splits)
next
  case BlazorInit
  then show ?thesis using assms
    by (auto simp: initializeBlazorWorker_def blazor_initWorker_def fsharp_inv_def ocaml_inv_def split: option.splits)
next
  case BlazorReady
  then show ?thesis using assms
    by (auto simp: blazor_onmessage_def initializedCallback_def emit_def fsharp_inv_def ocaml_inv_def
        split: option.splits)
next
  case (OcamlAnswer r now rs)
  then show ?thesis using assms(3) ocaml_answer_inv [OF assms(1,2)] by (auto split: option.splits)
next
  case (BlazorAnswer r now rs)
  then show ?thesis using assms(3,4) blazor_answer_inv [OF assms(1,2), where r = r and dec = dec]
    by (auto split: option.splits)
qed

lemma steps_inv:
  assumes "dark_steps enc dec d0 d" "fsharp_inv T d0" "ocaml_inv d0" "T \<longrightarrow> (\<forall>r. \<not> isl (dec r))"
  shows "fsharp_inv T d \<and> ocaml_inv d \<and> useBlazor d = useBlazor d0"
  using assms
proof (induction rule: dark_steps.induct)
  case (task d t)
  then show ?case using task_inv [of T d t dec enc] by auto
qed simp

lemma reach_inv:
  assumes "dark_reach enc dec param d"
  shows "fsharp_inv False d \<and> ocaml_inv d \<and> useBlazor d = param"
  using steps_inv [OF assms invs_init(1) [of False] invs_init(2)] by (simp add: init_dark_def)

lemma reach_inv_total:
  assumes "dark_reach enc dec param d" "\<forall>r. \<not> isl (dec r)"
  shows "fsharp_inv True d"
  using steps_inv [OF assms(1) invs_init(1) [of True] invs_init(2)] assms(2) by simp

section \<open>The F# queue is a mailbox\<close>

definition fsharp_running :: "dark \<Rightarrow> jsval option" where
  "fsharp_running d = (case blazorWorker d of None \<Rightarrow> None
     | Some c \<Rightarrow> (case in_flight c of [] \<Rightarrow> None | m # _ \<Rightarrow> Some m))"

definition fsharp_waiting :: "dark \<Rightarrow> jsval option" where
  "fsharp_waiting d = (if fsharp_next d = JNull then None else Some (fsharp_next d))"

definition fsharp_history :: "dark \<Rightarrow> jsval list" where
  "fsharp_history d = (case blazorWorker d of None \<Rightarrow> [] | Some c \<Rightarrow> posted c)"

definition fsharp_mailbox_inv :: "dark \<Rightarrow> bool" where
  "fsharp_mailbox_inv d \<longleftrightarrow> fsharp_inv True d \<and> ocaml_inv d \<and> fsharp_initialized d"

definition fsharp_submit :: "(jsval \<Rightarrow> string) \<Rightarrow> jsval \<Rightarrow> dark \<Rightarrow> dark" where
  "fsharp_submit enc p d = fst (request_analysis enc p d)"

text \<open>An answer that decodes, with no listener asking for more.\<close>

definition fsharp_complete :: "(jsval \<Rightarrow> string) \<Rightarrow> jsval \<times> nat \<Rightarrow> dark \<Rightarrow> dark" where
  "fsharp_complete enc a d = fst (blazor_answer enc (\<lambda>_. Inr (fst a)) JNull (snd a) [] d)"

lemma mailbox_state:
  assumes "fsharp_mailbox_inv d"
  obtains c where "blazorWorker d = Some c" "truthy (useBlazor d)" "channel_ok c"
    "fsharp_busy d" "length (in_flight c) = 1" | c where "blazorWorker d = Some c"
    "truthy (useBlazor d)" "channel_ok c" "\<not> fsharp_busy d" "in_flight c = []" "fsharp_next d = JNull"
  using assms by (cases "in_flight (the (blazorWorker d))")
    (auto simp: fsharp_mailbox_inv_def fsharp_inv_def split: option.splits if_splits)

lemma mailbox_submit:
  assumes "fsharp_mailbox_inv d"
  shows "fsharp_submit enc p d = fst (fsharp_enqueue enc p d)"
  using assms by (auto simp: fsharp_submit_def request_analysis_def fsharp_request_def
      fsharp_mailbox_inv_def fsharp_inv_def split: option.splits)

lemma ready_not_null [simp]: "ready_message \<noteq> JNull" "JNull \<noteq> ready_message"
  by (simp_all add: ready_message_def)

lemma complete_eq:
  assumes "fsharp_mailbox_inv d" "blazorWorker d = Some c" "in_flight c \<noteq> []"
  shows "fsharp_complete enc (result, now) d =
    (let d1 = d\<lparr>effects := effects d @ [DispatchEvent ''receiveAnalysis'' result],
          fsharp_next := JNull, lastRun := now\<rparr>
     in if fsharp_next d = JNull then d1\<lparr>blazorWorker := Some (answer c), fsharp_busy := False\<rparr>
        else d1\<lparr>blazorWorker := Some (post (fsharp_next d) (answer c))\<rparr>)"
  using assms unfolding fsharp_complete_def fsharp_mailbox_inv_def
  by (subst blazor_answer_eq) (auto simp: Let_def)

interpretation fq: mailbox fsharp_mailbox_inv fsharp_running fsharp_waiting fsharp_history
    "payload enc" "fsharp_submit enc" "fsharp_complete enc"
  for enc
proof (unfold_locales, goal_cases)
  case (1 d)
  show ?case
    by (rule mailbox_state [OF 1(1)])
      (use 1(2) in \<open>auto simp: fsharp_running_def fsharp_waiting_def split: list.splits\<close>)
next
  case (2 d p)
  then show ?case
    using request_analysis_inv [of True d enc p]
    by (auto simp: fsharp_mailbox_inv_def fsharp_submit_def request_analysis_def)
      (auto simp: fsharp_request_def fsharp_enqueue_eq Let_def fsharp_inv_def split: option.splits)
next
  case (3 d a)
  then obtain c where c: "blazorWorker d = Some c" "in_flight c \<noteq> []"
    by (auto simp: fsharp_running_def split: option.splits list.splits)
  have "fsharp_initialized (fsharp_complete enc a d) = fsharp_initialized d"
    by (cases a) (simp add: complete_eq [OF 3(1) c] Let_def)
  then show ?case
    using 3(1) blazor_answer_inv [of True d c JNull "\<lambda>_. Inr (fst a)" enc "snd a" "[]"] c
    by (simp add: fsharp_mailbox_inv_def fsharp_complete_def)
next
  case (4 d p)
  show ?case
    by (rule mailbox_state [OF 4(1)])
      (use 4(2) in \<open>auto simp: mailbox_submit [OF 4(1)] fsharp_enqueue_eq Let_def
        fsharp_running_def fsharp_waiting_def fsharp_history_def split: list.splits\<close>)
next
  case (5 d m p)
  show ?case
    by (rule mailbox_state [OF 5(1)])
      (use 5(2) in \<open>auto simp: mailbox_submit [OF 5(1)] fsharp_enqueue_eq Let_def
        fsharp_running_def fsharp_waiting_def fsharp_history_def split: list.splits\<close>)
next
  case (6 d m a)
  then obtain c where c: "blazorWorker d = Some c" "in_flight c \<noteq> []"
    by (auto simp: fsharp_running_def split: option.splits list.splits)
  have t: "tl (in_flight c) = []" "channel_ok (answer c)"
    by (rule mailbox_state [OF 6(1)]; use c in \<open>auto simp: tl_short\<close>)+
  then show ?case
    using c by (cases a) (simp add: complete_eq [OF 6(1) c] Let_def fsharp_running_def fsharp_waiting_def fsharp_history_def)
qed


lemma answer_is_complete:
  assumes "fsharp_mailbox_inv d" "fsharp_running d \<noteq> None" "r \<noteq> ready_message" "dec r = Inr v"
  shows "fst (blazor_answer enc dec r now [] d) = fsharp_complete enc (v, now) d"
proof -
  obtain c where c: "blazorWorker d = Some c" "in_flight c \<noteq> []"
    using assms(2) by (auto simp: fsharp_running_def split: option.splits list.splits)
  then show ?thesis
    using assms by (simp add: complete_eq [OF assms(1) c]
      blazor_answer_eq [of True] fsharp_mailbox_inv_def Let_def)
qed

lemma busy_running: "fsharp_mailbox_inv d \<Longrightarrow> fsharp_busy d \<longleftrightarrow> fsharp_running d \<noteq> None"
  by (erule mailbox_state) (auto simp: fsharp_running_def split: list.splits)

section \<open>Runs\<close>

fun tasks_ok :: "(jsval \<Rightarrow> string) \<Rightarrow> decoder \<Rightarrow> dark_task list \<Rightarrow> dark \<Rightarrow> bool" where
  "tasks_ok enc dec [] d = True"
| "tasks_ok enc dec (t # ts) d = (enabled t d \<and> tasks_ok enc dec ts (fst (run_task enc dec t d)))"

fun run_tasks :: "(jsval \<Rightarrow> string) \<Rightarrow> decoder \<Rightarrow> dark_task list \<Rightarrow> dark \<Rightarrow> dark" where
  "run_tasks enc dec [] d = d"
| "run_tasks enc dec (t # ts) d = run_tasks enc dec ts (fst (run_task enc dec t d))"

lemma run_tasks_steps:
  "dark_steps enc dec d0 d \<Longrightarrow> tasks_ok enc dec ts d \<Longrightarrow> dark_steps enc dec d0 (run_tasks enc dec ts d)"
  by (induction ts arbitrary: d) (auto intro: dark_steps.task)

lemmas dark_defs = ocaml_request_def ocaml_timer_def ocaml_worker_loaded_def fsharp_enqueue_eq
  fsharp_request_def fsharp_timer_def initializedCallback_def initializeBlazorWorker_def
  blazor_initWorker_def blazor_postMessage_def request_analysis_def requests_from_listeners_def
  ocaml_answer_def fsharp_callback_def blazor_onmessage_def blazor_answer_def init_dark_def
  emit_def Let_def

section \<open>Properties of the F# queue\<close>

text \<open>C2: In every state the page can reach, the Blazor worker has at most one analysis in flight;
  while it has one the F# queue is marked busy, and a request waits only while the queue is
  busy.\<close>

theorem fsharp_one_in_flight:
  assumes "dark_reach enc dec param d" and "blazorWorker d = Some c"
  shows "length (in_flight c) \<le> 1 \<and> (in_flight c \<noteq> [] \<longrightarrow> fsharp_busy d)
    \<and> (fsharp_next d \<noteq> JNull \<longrightarrow> fsharp_busy d)"
  using reach_inv [OF assms(1)] assms(2) by (auto simp: fsharp_inv_def split: if_splits)

theorem fsharp_one_in_flight_witness:
  "let d = run_tasks (\<lambda>_. ''{}'') Inr [BlazorInit, BlazorReady, Request (JNum 1), Request (JNum 2)]
         (init_dark (JStr ''1''))
   in \<exists>c. blazorWorker d = Some c \<and> in_flight c = [JStr ''{}''] \<and> length (in_flight c) \<le> 1
      \<and> (fsharp_next d \<noteq> JNull \<longrightarrow> fsharp_busy d)"
proof -
  let ?ts = "[BlazorInit, BlazorReady, Request (JNum 1), Request (JNum 2)]"
  let ?d = "run_tasks (\<lambda>_. ''{}'') Inr ?ts (init_dark (JStr ''1''))"
  have r: "dark_reach (\<lambda>_. ''{}'') Inr (JStr ''1'') ?d"
    by (rule run_tasks_steps [OF dark_steps.start]) (simp add: dark_defs)
  have w: "blazorWorker ?d = Some \<lparr>posted = [JStr ''{}''], answered = 0\<rparr>"
    by (simp add: dark_defs payload_def new_channel_def post_def)
  show ?thesis using fsharp_one_in_flight [OF r w] w by (simp add: Let_def in_flight_def)
qed

text \<open>C1: Newest wins: when a burst of analyses is requested on an initialized F# queue whose worker has
  not left it stuck, and the answers that come back are decoded, then after at most two answers the
  queue is idle with nothing waiting. Of the burst only the newest request has been posted, after
  the first one if the queue was idle; the requests in between are dropped.\<close>

theorem fsharp_newest_wins:
  assumes "dark_reach enc dec param d" and "fsharp_initialized d" and "fsharp_busy d \<Longrightarrow> fsharp_running d \<noteq> None"
    and "ps \<noteq> []" and "r1 \<noteq> ready_message" and "r2 \<noteq> ready_message" and "dec r1 = Inr v1" and "dec r2 = Inr v2"
  shows "let d' = fold (\<lambda>p d. fst (request_analysis enc p d)) ps d;
             t = fst (blazor_answer enc dec r1 n1 [] d');
             u = (if fsharp_busy t then fst (blazor_answer enc dec r2 n2 [] t) else t)
         in fsharp_busy d' \<and> \<not> fsharp_busy u \<and> fsharp_next u = JNull
            \<and> fsharp_history u = fsharp_history d @ (if fsharp_busy d then [payload enc (last ps)]
                else payload enc (hd ps) # (if tl ps = [] then [] else [payload enc (last ps)]))"
proof -
  have i: "fsharp_mailbox_inv d"
    using reach_inv [OF assms(1)] assms(2,3)
    by (auto simp: fsharp_mailbox_inv_def fsharp_inv_def fsharp_running_def split: option.splits list.splits if_splits)
  define d' where "d' = fold (\<lambda>p d. fst (request_analysis enc p d)) ps d"
  have d': "d' = fold (fsharp_submit enc) ps d"
    by (simp add: d'_def fsharp_submit_def [abs_def])
  have i': "fsharp_mailbox_inv d'" unfolding d' by (rule fq.submits_invar [OF i])
  note n = fq.newest_wins [OF i assms(4) d', of "(v1, n1)" "(v2, n2)"]
  define t where "t = fsharp_complete enc (v1, n1) d'"
  have it: "fsharp_mailbox_inv t"
    using fq.invar_complete [OF i'] n by (simp add: t_def)
  have t: "fst (blazor_answer enc dec r1 n1 [] d') = t"
    using n assms(5,7) i' by (simp add: t_def answer_is_complete)
  have "fsharp_busy t \<Longrightarrow> fst (blazor_answer enc dec r2 n2 [] t) = fsharp_complete enc (v2, n2) t"
    using assms(6,8) it by (simp add: busy_running answer_is_complete)
  then show ?thesis
    using n busy_running [OF i] busy_running [OF i'] busy_running [OF it] t
      busy_running [OF fq.invar_complete [OF it], of enc "(v2, n2)"]
    by (auto simp: Let_def t_def [symmetric] d'_def [symmetric] fsharp_waiting_def split: if_splits)
qed

text \<open>The decoder of the witness rejects every other answer.\<close>

theorem fsharp_newest_wins_witness:
  "let enc = (\<lambda>p. if p = JNum 3 then ''c'' else ''x''); dec = (\<lambda>r. if r = JNull then Inr JNull else Inl SyntaxError);
       d = run_tasks enc dec [BlazorInit, BlazorReady] (init_dark (JStr ''1''));
       d' = fold (\<lambda>p d. fst (request_analysis enc p d)) [JNum 1, JNum 2, JNum 3] d;
       t = fst (blazor_answer enc dec JNull 5 [] d');
       u = (if fsharp_busy t then fst (blazor_answer enc dec JNull 6 [] t) else t)
   in fsharp_history u = [JStr ''x'', JStr ''c''] \<and> \<not> fsharp_busy u"
proof -
  let ?enc = "\<lambda>p. if p = JNum 3 then ''c'' else ''x''"
  let ?dec = "\<lambda>r. if r = JNull then Inr JNull else Inl SyntaxError"
  let ?d = "run_tasks ?enc ?dec [BlazorInit, BlazorReady] (init_dark (JStr ''1''))"
  have r: "dark_reach ?enc ?dec (JStr ''1'') ?d"
    by (rule run_tasks_steps [OF dark_steps.start]) (simp add: dark_defs)
  have i: "fsharp_initialized ?d" "\<not> fsharp_busy ?d" "fsharp_history ?d = []"
    by (simp_all add: dark_defs fsharp_history_def new_channel_def)
  have p: "payload ?enc (last [JNum 1, JNum 2, JNum 3]) = JStr ''c''" "payload ?enc (hd [JNum 1, JNum 2, JNum 3]) = JStr ''x''"
    by (simp_all add: payload_def)
  show ?thesis
    using fsharp_newest_wins [OF r i(1) _ , of "[JNum 1, JNum 2, JNum 3]" JNull JNull JNull JNull 5 6] i
    unfolding p by (simp add: Let_def)
qed

text \<open>No task of the page raises, except the handler of an answer that the decoder rejects, and
  it raises the decoder's exception; in particular a message is never posted to a worker that
  does not exist.\<close>

theorem only_decode_failures_raise:
  assumes "dark_reach enc dec param d" and "enabled t d" and "snd (run_task enc dec t d) = Some e"
  shows "\<exists>r now rs. t = BlazorAnswer r now rs \<and> dec r = Inl e"
proof -
  from reach_inv [OF assms(1)] have i: "fsharp_inv False d" "ocaml_inv d" by auto
  from task_inv [OF i assms(2), of dec enc] assms(3)
  obtain r now rs where t: "t = BlazorAnswer r now rs" by auto
  with assms(2) obtain c where "blazorWorker d = Some c" "in_flight c \<noteq> []" "r \<noteq> ready_message"
    by (auto split: option.splits)
  then show ?thesis
    using t assms(3) by (auto simp: blazor_answer_eq [OF i(1)] Let_def split: sum.splits)
qed


theorem only_decode_failures_raise_witness:
  "let d = run_tasks (\<lambda>_. ''{}'') (\<lambda>_. Inl SyntaxError) [BlazorInit, BlazorReady, Request (JNum 1)]
         (init_dark (JStr ''1''));
       t = BlazorAnswer (JStr ''<html>'') 9 []
   in snd (run_task (\<lambda>_. ''{}'') (\<lambda>_. Inl SyntaxError) t d) = Some SyntaxError
      \<and> (\<exists>r now rs. t = BlazorAnswer r now rs \<and> (Inl SyntaxError :: js_exn + jsval) = Inl SyntaxError)"
proof -
  let ?dec = "(\<lambda>_. Inl SyntaxError) :: decoder"
  let ?d = "run_tasks (\<lambda>_. ''{}'') ?dec [BlazorInit, BlazorReady, Request (JNum 1)] (init_dark (JStr ''1''))"
  let ?t = "BlazorAnswer (JStr ''<html>'') 9 []"
  have r: "dark_reach (\<lambda>_. ''{}'') ?dec (JStr ''1'') ?d"
    by (rule run_tasks_steps [OF dark_steps.start]) (simp add: dark_defs)
  have e: "enabled ?t ?d" "snd (run_task (\<lambda>_. ''{}'') ?dec ?t ?d) = Some SyntaxError"
    by (simp_all add: dark_defs ready_message_def new_channel_def post_def in_flight_def)
  show ?thesis using only_decode_failures_raise [OF r e] e by (simp add: Let_def)
qed

section \<open>A decode failure\<close>

definition wedged :: "dark \<Rightarrow> bool" where
  "wedged d \<longleftrightarrow> truthy (useBlazor d) \<and> fsharp_busy d \<and> fsharp_initialized d
     \<and> (case blazorWorker d of None \<Rightarrow> False | Some c \<Rightarrow> channel_ok c \<and> in_flight c = [])
     \<and> (case analysisWorker d of None \<Rightarrow> True | Some c \<Rightarrow> in_flight c = []) \<and> ocaml_timers d = []"

lemma wedged_request:
  "wedged d \<Longrightarrow> wedged (fst (request_analysis enc p d))
    \<and> fsharp_history (fst (request_analysis enc p d)) = fsharp_history d"
  by (simp add: wedged_def request_analysis_def fsharp_request_def fsharp_enqueue_eq Let_def
      fsharp_history_def)

lemma wedged_task:
  assumes "wedged d" "enabled t d"
  shows "wedged (fst (run_task enc dec t d))
    \<and> fsharp_history (fst (run_task enc dec t d)) = fsharp_history d"
proof (cases t)
  case (Request p)
  then show ?thesis using wedged_request [OF assms(1)] by simp
next
  case FsharpTimer
  then obtain p rest where f: "fsharp_timers d = p # rest" using assms(2) by (cases "fsharp_timers d") auto
  then show ?thesis using FsharpTimer assms(1)
    by (simp add: fsharp_timer_def wedged_def fsharp_request_def fsharp_enqueue_eq Let_def
        fsharp_history_def emit_def)
qed (use assms in \<open>auto simp: wedged_def ocaml_worker_loaded_def fsharp_history_def split: option.splits\<close>)

lemma wedged_steps:
  "dark_steps enc dec d0 d \<Longrightarrow> wedged d0 \<Longrightarrow> wedged d \<and> fsharp_history d = fsharp_history d0"
proof (induction rule: dark_steps.induct)
  case (task d t)
  then show ?case using wedged_task [of d t enc dec] by simp
qed simp

text \<open>One undecodable answer stops the F# analysis for good: the exception leaves the queue
  marked busy with nothing in flight, and in no later state, whatever is requested, is another
  message posted to the worker.\<close>

theorem decode_failure_wedges:
  assumes "dark_reach enc dec param d" and "enabled (BlazorAnswer r now rs) d" and "dec r = Inl e"
    and "dark_steps enc dec (fst (run_task enc dec (BlazorAnswer r now rs) d)) d2"
  shows "fsharp_busy d2 \<and> fsharp_running d2 = None \<and> fsharp_history d2 = fsharp_history d"
proof -
  from reach_inv [OF assms(1)] have i: "fsharp_inv False d" "ocaml_inv d" by auto
  from assms(2) obtain c where c: "blazorWorker d = Some c" "in_flight c \<noteq> []" "r \<noteq> ready_message"
    by (auto split: option.splits)
  let ?d1 = "fst (run_task enc dec (BlazorAnswer r now rs) d)"
  have d1: "?d1 = d\<lparr>blazorWorker := Some (answer c)\<rparr>"
    using assms(3) by (simp add: blazor_answer_eq [OF i(1) c])
  have "length (in_flight c) \<le> 1 \<and> fsharp_busy d \<and> fsharp_initialized d \<and> truthy (useBlazor d)"
    using i(1) c by (auto simp: fsharp_inv_def split: if_splits)
  then have "wedged ?d1" using i(2) c unfolding d1
    by (auto simp: wedged_def ocaml_inv_def tl_short split: option.splits)
  from wedged_steps [OF assms(4) this] have "wedged d2" "fsharp_history d2 = fsharp_history ?d1" by auto
  moreover have "fsharp_history ?d1 = fsharp_history d" unfolding d1 by (simp add: c fsharp_history_def)
  ultimately have "wedged d2" "fsharp_history d2 = fsharp_history d" by simp_all
  then show ?thesis by (auto simp: wedged_def fsharp_running_def split: option.splits)
qed

theorem decode_failure_wedges_witness:
  "let enc = \<lambda>_. ''{}''; dec = \<lambda>_. Inl SyntaxError;
       d = run_tasks enc dec [BlazorInit, BlazorReady, Request (JNum 1)] (init_dark (JStr ''1''));
       d2 = run_tasks enc dec [BlazorAnswer (JStr ''?'') 9 [], Request (JNum 2)] d
   in fsharp_busy d2 \<and> fsharp_running d2 = None \<and> fsharp_history d2 = [JStr ''{}'']"
proof -
  let ?enc = "(\<lambda>_. ''{}'') :: jsval \<Rightarrow> string" and ?dec = "(\<lambda>_. Inl SyntaxError) :: decoder"
  let ?d = "run_tasks ?enc ?dec [BlazorInit, BlazorReady, Request (JNum 1)] (init_dark (JStr ''1''))"
  let ?a = "BlazorAnswer (JStr ''?'') 9 []"
  have r: "dark_reach ?enc ?dec (JStr ''1'') ?d"
    by (rule run_tasks_steps [OF dark_steps.start]) (simp add: dark_defs)
  have e: "enabled ?a ?d" "fsharp_history ?d = [JStr ''{}'']"
    by (simp_all add: dark_defs ready_message_def new_channel_def post_def in_flight_def
        fsharp_history_def payload_def)
  have s: "dark_steps ?enc ?dec (fst (run_task ?enc ?dec ?a ?d)) (run_tasks ?enc ?dec [?a, Request (JNum 2)] ?d)"
    using dark_steps.task [OF dark_steps.start, of "Request (JNum 2)"] by simp
  show ?thesis
    using decode_failure_wedges [OF r e(1) refl s] e(2) by (simp add: Let_def)
qed


section \<open>The OCaml queue\<close>

text \<open>C33: The OCaml analysis never queues: its guard reads busy of window.Dark.analysis, a property
  no code sets, so in every reachable state with a loaded worker a request is posted at once, even
  while the queue's own busy flag is set and analyses are in flight, and next stays null.\<close>

theorem ocaml_always_posts:
  assumes "dark_reach enc dec param d" and "\<not> truthy param" and "analysisWorker d = Some c"
  shows "analysisWorker (fst (request_analysis enc p d)) = Some (post p c)
    \<and> in_flight (post p c) = in_flight c @ [p]
    \<and> ocaml_next (fst (request_analysis enc p d)) = JNull
    \<and> ocaml_busy (fst (request_analysis enc p d))"
  using reach_inv [OF assms(1)] assms(2,3)
  by (simp add: request_analysis_def ocaml_request_def Let_def ocaml_inv_def)

theorem ocaml_always_posts_witness:
  "let enc = \<lambda>_. ''{}''; dec = Inr;
       d = run_tasks enc dec [OcamlLoaded, Request (JNum 1)] (init_dark JNull);
       d1 = fst (request_analysis enc (JNum 2) d)
   in ocaml_busy d \<and> (\<exists>c. analysisWorker d1 = Some c \<and> in_flight c = [JNum 1, JNum 2])"
proof -
  let ?enc = "(\<lambda>_. ''{}'') :: jsval \<Rightarrow> string"
  let ?d = "run_tasks ?enc Inr [OcamlLoaded, Request (JNum 1)] (init_dark JNull)"
  have r: "dark_reach ?enc Inr JNull ?d"
    by (rule run_tasks_steps [OF dark_steps.start]) (simp add: dark_defs)
  have w: "analysisWorker ?d = Some \<lparr>posted = [JNum 1], answered = 0\<rparr>" "ocaml_busy ?d"
    by (simp_all add: dark_defs new_channel_def post_def)
  show ?thesis using ocaml_always_posts [OF r _ w(1), of "JNum 2"] w(2)
    by (simp add: Let_def in_flight_def)
qed

lemma run_tasks_append: "run_tasks enc dec (ts @ us) d = run_tasks enc dec us (run_tasks enc dec ts d)"
  by (induction ts arbitrary: d) simp_all

lemma ocaml_burst:
  "\<not> truthy param \<Longrightarrow> \<exists>d. dark_reach enc dec param d \<and> (\<exists>c. analysisWorker d = Some c \<and> length (in_flight c) = n)"
proof (induction n)
  case 0
  have "dark_reach enc dec param (fst (run_task enc dec OcamlLoaded (init_dark param)))"
    by (rule dark_steps.task [OF dark_steps.start]) (simp add: init_dark_def)
  then show ?case by (auto simp: ocaml_worker_loaded_def)
next
  case (Suc n)
  then obtain d c where d: "dark_reach enc dec param d" "analysisWorker d = Some c" "length (in_flight c) = n"
    by blast
  from reach_inv [OF d(1)] d Suc.prems have
    "analysisWorker (fst (run_task enc dec (Request JNull) d)) = Some (post JNull c)" "channel_ok c"
    by (auto simp: request_analysis_def ocaml_request_def Let_def ocaml_inv_def)
  moreover have "dark_reach enc dec param (fst (run_task enc dec (Request JNull) d))"
    by (rule dark_steps.task [OF d(1)]) simp
  ultimately show ?case using d(3) by fastforce
qed

text \<open>Nothing bounds the OCaml worker's backlog: for every n the page can reach a state with n
  analyses in flight, where the queue the comment describes would have at most one.\<close>

theorem ocaml_backlog_unbounded:
  "\<exists>d c. dark_reach enc dec JNull d \<and> analysisWorker d = Some c \<and> length (in_flight c) = n"
  using ocaml_burst [of JNull enc dec n] by auto


section \<open>Requests before the worker has loaded\<close>

text \<open>The OCaml side as the retrying sender of \<open>Channels\<close>; a task that is not enabled does
  nothing.\<close>

fun ocaml_exec :: "(jsval \<Rightarrow> string) \<Rightarrow> (jsval, jsval \<times> nat) retry_op \<Rightarrow> dark \<Rightarrow> dark" where
  "ocaml_exec enc (Submit p) d = fst (request_analysis enc p d)"
| "ocaml_exec enc Fire d = ocaml_timer d"
| "ocaml_exec enc Load d = (if analysisWorker d = None then ocaml_worker_loaded d else d)"
| "ocaml_exec enc (Other a) d =
     (if enabled (OcamlAnswer (fst a) (snd a) []) d then ocaml_answer enc (fst a) (snd a) [] d else d)"

definition ocaml_history :: "dark \<Rightarrow> jsval list" where
  "ocaml_history d = (case analysisWorker d of None \<Rightarrow> [] | Some c \<Rightarrow> posted c)"

definition ocaml_retry_inv :: "dark \<Rightarrow> bool" where
  "ocaml_retry_inv d \<longleftrightarrow> fsharp_inv False d \<and> ocaml_inv d \<and> \<not> truthy (useBlazor d)"

lemma ocaml_exec_inv: "ocaml_retry_inv d \<Longrightarrow> ocaml_retry_inv (ocaml_exec enc op d)"
proof (cases op)
  case (Submit p)
  assume "ocaml_retry_inv d"
  then show ?thesis using Submit request_analysis_inv [of False d enc p]
    by (simp add: ocaml_retry_inv_def)
next
  case Fire
  assume "ocaml_retry_inv d"
  then show ?thesis using Fire ocaml_timer_inv [of False d] by (simp add: ocaml_retry_inv_def)
next
  case Load
  assume "ocaml_retry_inv d"
  then show ?thesis using Load task_inv [of False d OcamlLoaded Inr enc]
    by (simp add: ocaml_retry_inv_def)
next
  case (Other a)
  assume "ocaml_retry_inv d"
  then show ?thesis using Other task_inv [of False d "OcamlAnswer (fst a) (snd a) []" Inr enc]
    by (simp add: ocaml_retry_inv_def)
qed

interpretation oq: retry_queue ocaml_retry_inv "\<lambda>d. analysisWorker d \<noteq> None" ocaml_timers
    ocaml_history "ocaml_exec enc"
  for enc
proof (unfold_locales, goal_cases)
  case (1 d op) then show ?case by (rule ocaml_exec_inv)
next
  case (2 d m) then show ?case
    by (simp add: ocaml_retry_inv_def request_analysis_def ocaml_request_def ocaml_history_def emit_def)
next
  case (3 d m) then show ?case
    by (auto simp: ocaml_retry_inv_def ocaml_inv_def request_analysis_def ocaml_request_def
        ocaml_history_def Let_def)
next
  case (4 d) then show ?case by (simp add: ocaml_timer_def)
next
  case (5 d m ms) then show ?case
    by (simp add: ocaml_timer_def ocaml_request_def ocaml_history_def emit_def)
next
  case (6 d m ms) then show ?case
    by (auto simp: ocaml_retry_inv_def ocaml_inv_def ocaml_timer_def ocaml_request_def
        ocaml_history_def emit_def Let_def)
next
  case (7 d) then show ?case by (auto simp: ocaml_worker_loaded_def ocaml_history_def)
next
  case (8 d a)
  then show ?case
    by (auto simp: ocaml_answer_eq ocaml_retry_inv_def ocaml_history_def split: option.splits)
next
  case (9 d op)
  then show ?case
    by (cases op) (auto simp: ocaml_retry_inv_def ocaml_inv_def request_analysis_def ocaml_request_def
      ocaml_timer_def emit_def Let_def ocaml_answer_eq split: list.splits)
qed

text \<open>C31: No analysis request is lost or duplicated on the OCaml path: after any sequence of
  requests, timers, answers and the loading of the worker, the messages posted to the worker and
  the arguments of the pending timers are together exactly the requests made.\<close>

theorem ocaml_requests_conserved:
  assumes "\<not> truthy param"
  shows "let d = fold (ocaml_exec enc) ops (init_dark param)
     in mset (ocaml_history d) + mset (ocaml_timers d) = mset (requests ops)"
proof -
  have "ocaml_retry_inv (init_dark param)"
    using invs_init assms by (simp add: ocaml_retry_inv_def) (simp add: init_dark_def)
  from oq.conserved [OF this, of enc ops] show ?thesis
    by (simp add: ocaml_history_def init_dark_def Let_def)
qed

theorem ocaml_requests_conserved_witness:
  "let d = fold (ocaml_exec (\<lambda>_. [])) [Submit (JNum 1), Load, Submit (JNum 2), Fire] (init_dark JNull)
   in mset (ocaml_history d) + mset (ocaml_timers d) = {#JNum 1, JNum 2#}"
  using ocaml_requests_conserved [of JNull "\<lambda>_. []" "[Submit (JNum 1), Load, Submit (JNum 2), Fire]"]
  by simp

text \<open>A retry can overtake: an analysis a requested before the Blazor worker is ready is posted
  by its timer after an analysis b requested later, so the answer to the older request arrives
  last.\<close>

theorem stale_request_overtakes:
  assumes "truthy param" and "dec r = Inr v" and "r \<noteq> ready_message"
  shows "let ts = [BlazorInit, Request a, BlazorReady, Request b, FsharpTimer, BlazorAnswer r now []]
     in tasks_ok enc dec ts (init_dark param)
        \<and> fsharp_history (run_tasks enc dec ts (init_dark param)) = [payload enc b, payload enc a]"
  using assms by (simp add: dark_defs fsharp_history_def new_channel_def post_def in_flight_def answer_def)

theorem stale_request_overtakes_witness:
  "fsharp_history (run_tasks (\<lambda>p. if p = JNum 1 then ''old'' else ''new'') Inr
     [BlazorInit, Request (JNum 1), BlazorReady, Request (JNum 2), FsharpTimer, BlazorAnswer JNull 7 []]
     (init_dark (JStr ''true''))) = [JStr ''new'', JStr ''old'']"
  using stale_request_overtakes [of "JStr ''true''" Inr JNull JNull "JNum 1" "JNum 2" 7
      "\<lambda>p. if p = JNum 1 then ''old'' else ''new''"]
  by (simp add: Let_def payload_def)

text \<open>An analysis that a listener requests synchronously, while an answer is being dispatched,
  is not lost: it replaces whatever was waiting, is posted in the same task, and is the only
  message in flight.\<close>

theorem reentrant_request_runs:
  assumes "dark_reach enc dec param d" and "enabled (BlazorAnswer r now rs) d"
    and "dec r = Inr result" and "rs \<noteq> []"
  shows "let d' = fst (run_task enc dec (BlazorAnswer r now rs) d)
     in fsharp_running d' = Some (payload enc (last rs)) \<and> fsharp_waiting d' = None
        \<and> fsharp_history d' = fsharp_history d @ [payload enc (last rs)]"
proof -
  from reach_inv [OF assms(1)] have i: "fsharp_inv False d" by auto
  from assms(2) obtain c where c: "blazorWorker d = Some c" "in_flight c \<noteq> []" "r \<noteq> ready_message"
    by (auto split: option.splits)
  have "tl (in_flight c) = []" "channel_ok (answer c)"
    using i c by (auto simp: fsharp_inv_def tl_short split: if_splits)
  then show ?thesis
    using assms(3,4) c by (simp add: blazor_answer_eq [OF i c] Let_def fsharp_running_def
        fsharp_waiting_def fsharp_history_def)
qed

theorem reentrant_request_runs_witness:
  "let enc = \<lambda>_. ''{}''; d = run_tasks enc Inr [BlazorInit, BlazorReady, Request (JNum 1)] (init_dark (JStr ''1''));
       d' = fst (run_task enc Inr (BlazorAnswer JNull 4 [JNum 5]) d)
   in fsharp_running d' = Some (JStr ''{}'') \<and> fsharp_waiting d' = None"
proof -
  let ?enc = "(\<lambda>_. ''{}'') :: jsval \<Rightarrow> string"
  let ?d = "run_tasks ?enc Inr [BlazorInit, BlazorReady, Request (JNum 1)] (init_dark (JStr ''1''))"
  have r: "dark_reach ?enc Inr (JStr ''1'') ?d"
    by (rule run_tasks_steps [OF dark_steps.start]) (simp add: dark_defs)
  have e: "enabled (BlazorAnswer JNull 4 [JNum 5]) ?d"
    by (simp add: dark_defs new_channel_def post_def in_flight_def)
  have p: "payload ?enc (last [JNum 5]) = JStr ''{}''" by (simp add: payload_def)
  show ?thesis using reentrant_request_runs [OF r e refl] unfolding p by (simp add: Let_def)
qed

text \<open>The two engines exclude each other: when use-blazor is falsy nothing is ever posted to a
  Blazor worker or put on its timers, and when it is truthy nothing is ever posted to the OCaml
  worker or put on its timers.\<close>

theorem engines_exclusive:
  assumes "dark_reach enc dec param d"
  shows "if truthy param then ocaml_history d = [] \<and> ocaml_timers d = []
    else fsharp_history d = [] \<and> fsharp_timers d = [] \<and> blazorWorker d = None"
  using reach_inv [OF assms]
  by (auto simp: ocaml_inv_def fsharp_inv_def ocaml_history_def fsharp_history_def split: option.splits)

theorem engines_exclusive_witness:
  "let d = run_tasks (\<lambda>_. ''{}'') Inr [OcamlLoaded, BlazorInit, Request (JNum 1)] (init_dark (JStr ''false''))
   in ocaml_history d = [] \<and> fsharp_timers d = [JNum 1]"
proof -
  let ?d = "run_tasks (\<lambda>_. ''{}'') Inr [OcamlLoaded, BlazorInit, Request (JNum 1)] (init_dark (JStr ''false''))"
  have r: "dark_reach (\<lambda>_. ''{}'') Inr (JStr ''false'') ?d"
    by (rule run_tasks_steps [OF dark_steps.start]) (simp add: dark_defs)
  have "fsharp_timers ?d = [JNum 1]" by (simp add: dark_defs)
  then show ?thesis using engines_exclusive [OF r] by (simp add: Let_def)
qed

end
