(* ===== verification/FetcherQueue.thy ===== *)
theory FetcherQueue
  imports Channels
begin

text \<open>
  \<open>window.Dark.fetcher\<close> of \<open>client/src/appsupport.js\<close>, which hands trace requests to the
  fetcher worker, and the worker's own program \<open>client/workers/Fetcher.ml\<close>, which turns a request
  into an HTTP call and every outcome of the call into one answer. The sender is an instance of
  \<open>retry_queue\<close>.
\<close>

section \<open>The page's side\<close>

record fetcher =
  fetcherWorker :: "channel option"
  fetcher_onmessage :: bool
  fetcher_timers :: "jsval list"
  fetcher_effects :: "effect list"

definition init_fetcher :: fetcher where
  "init_fetcher = \<lparr>fetcherWorker = None, fetcher_onmessage = False, fetcher_timers = [], fetcher_effects = []\<rparr>"

definition fetcher_emit :: "effect \<Rightarrow> fetcher \<Rightarrow> fetcher" where
  "fetcher_emit e f = f\<lparr>fetcher_effects := fetcher_effects f @ [e]\<rparr>"

definition fetcher_fetch :: "jsval \<Rightarrow> fetcher \<Rightarrow> fetcher" where
  "fetcher_fetch params f =
     (case fetcherWorker f of
        None \<Rightarrow> (fetcher_emit (ConsoleLog [JStr ''FetchWorker not loaded yet'']) f)
                 \<lparr>fetcher_timers := fetcher_timers f @ [params]\<rparr>
      | Some worker \<Rightarrow> f\<lparr>fetcherWorker := Some (post params worker), fetcher_onmessage := True\<rparr>)"

definition fetcher_timer :: "fetcher \<Rightarrow> fetcher" where
  "fetcher_timer f =
     (case fetcher_timers f of
        [] \<Rightarrow> f
      | params # rest \<Rightarrow>
          fetcher_fetch params
            (fetcher_emit (ConsoleLog [JStr ''Trying FetchWorker again'']) (f\<lparr>fetcher_timers := rest\<rparr>)))"

definition fetcher_loaded :: "fetcher \<Rightarrow> fetcher" where
  "fetcher_loaded f = f\<lparr>fetcherWorker := Some new_channel\<rparr>"

text \<open>\<open>fetcherWorker.onmessage\<close>; \<open>rs\<close> are the fetches its listeners start synchronously.\<close>

definition fetcher_answer :: "jsval \<Rightarrow> jsval list \<Rightarrow> fetcher \<Rightarrow> fetcher" where
  "fetcher_answer data rs f0 =
     (let f = f0\<lparr>fetcherWorker := map_option answer (fetcherWorker f0)\<rparr>
      in if fetcher_onmessage f
         then fold fetcher_fetch rs (fetcher_emit (DispatchEvent ''receiveFetch'' data) f)
         else f)"

definition answerable :: "fetcher \<Rightarrow> bool" where
  "answerable f \<longleftrightarrow> (case fetcherWorker f of None \<Rightarrow> False | Some c \<Rightarrow> in_flight c \<noteq> [])"

fun fetcher_exec :: "(jsval, jsval) retry_op \<Rightarrow> fetcher \<Rightarrow> fetcher" where
  "fetcher_exec (Submit p) f = fetcher_fetch p f"
| "fetcher_exec Fire f = fetcher_timer f"
| "fetcher_exec Load f = (if fetcherWorker f = None then fetcher_loaded f else f)"
| "fetcher_exec (Other data) f = (if answerable f then fetcher_answer data [] f else f)"

lemmas fetcher_defs = fetcher_fetch_def fetcher_timer_def fetcher_loaded_def fetcher_answer_def
  fetcher_emit_def init_fetcher_def answerable_def Let_def

definition fetcher_inv :: "fetcher \<Rightarrow> bool" where
  "fetcher_inv f \<longleftrightarrow> (case fetcherWorker f of None \<Rightarrow> True
     | Some c \<Rightarrow> channel_ok c \<and> (in_flight c \<noteq> [] \<longrightarrow> fetcher_onmessage f))"

definition fetcher_history :: "fetcher \<Rightarrow> jsval list" where
  "fetcher_history f = (case fetcherWorker f of None \<Rightarrow> [] | Some c \<Rightarrow> posted c)"

lemma fetcher_exec_inv: "fetcher_inv f \<Longrightarrow> fetcher_inv (fetcher_exec op f)"
  by (cases op) (auto simp: fetcher_inv_def fetcher_defs split: option.splits list.splits)

interpretation fe: retry_queue fetcher_inv "\<lambda>f. fetcherWorker f \<noteq> None" fetcher_timers
    fetcher_history fetcher_exec
proof (unfold_locales, goal_cases)
  case (1 f op) then show ?case by (rule fetcher_exec_inv)
next
  case (9 f op) then show ?case
    by (cases op) (auto simp: fetcher_defs Let_def split: list.splits)
qed (auto simp: fetcher_defs fetcher_history_def split: option.splits)

text \<open>C30: No fetch is lost or duplicated: after any sequence of fetches, timers, answers and the
  loading of the worker, the messages posted and the arguments of the pending timers are together
  exactly the fetches asked for.\<close>

theorem fetches_conserved:
  "let f = fold fetcher_exec ops init_fetcher
   in mset (fetcher_history f) + mset (fetcher_timers f) = mset (requests ops)"
  using fe.conserved [of init_fetcher ops]
  by (simp add: Let_def fetcher_inv_def init_fetcher_def fetcher_history_def)

text \<open>Once the worker has loaded the waiting fetches are delivered in the order they were made,
  one per timer, behind what was posted before, and no timer is left.\<close>

theorem fetch_timers_drain:
  assumes "f = fold fetcher_exec ops init_fetcher" and "fetcherWorker f \<noteq> None"
  shows "let g = (fetcher_timer ^^ length (fetcher_timers f)) f
    in fetcher_timers g = [] \<and> fetcher_history g = fetcher_history f @ fetcher_timers f"
proof -
  have "fetcher_inv f"
    unfolding assms(1) by (rule fe.invar_run) (simp add: fetcher_inv_def init_fetcher_def)
  from fe.drain [OF this assms(2)] show ?thesis by (simp add: Let_def fetcher_exec.simps(2) [abs_def])
qed

theorem fetch_timers_drain_witness:
  "let f = fold fetcher_exec [Submit (JNum 1), Submit (JNum 2), Load, Submit (JNum 3)] init_fetcher
   in fetcher_history ((fetcher_timer ^^ 2) f) = [JNum 3, JNum 1, JNum 2]"
proof -
  let ?ops = "[Submit (JNum 1), Submit (JNum 2), Load, Submit (JNum 3)] :: (jsval, jsval) retry_op list"
  have f: "fetcherWorker (fold fetcher_exec ?ops init_fetcher) \<noteq> None"
    "fetcher_timers (fold fetcher_exec ?ops init_fetcher) = [JNum 1, JNum 2]"
    "fetcher_history (fold fetcher_exec ?ops init_fetcher) = [JNum 3]"
    by (simp_all add: fetcher_defs fetcher_history_def new_channel_def post_def)
  show ?thesis using fetch_timers_drain [OF refl f(1)] f by (simp add: Let_def numeral_2_eq_2)
qed

text \<open>Every answer is one event: the details dispatched are the answers, in order.\<close>

fun answers :: "(jsval, jsval) retry_op list \<Rightarrow> fetcher \<Rightarrow> jsval list" where
  "answers [] f = []"
| "answers (op # ops) f =
     (case op of Other data \<Rightarrow> (if answerable f then [data] else []) | _ \<Rightarrow> [])
     @ answers ops (fetcher_exec op f)"

lemma events_step:
  "fetcher_inv f \<Longrightarrow> events_named ''receiveFetch'' (fetcher_effects (fetcher_exec op f))
     = events_named ''receiveFetch'' (fetcher_effects f)
       @ (case op of Other data \<Rightarrow> (if answerable f then [data] else []) | _ \<Rightarrow> [])"
  by (cases op) (auto simp: fetcher_defs fetcher_inv_def split: option.splits list.splits)

lemma events_run:
  "fetcher_inv f \<Longrightarrow> events_named ''receiveFetch'' (fetcher_effects (fold fetcher_exec ops f))
     = events_named ''receiveFetch'' (fetcher_effects f) @ answers ops f"
  by (induction ops arbitrary: f) (auto simp: events_step fetcher_exec_inv)

text \<open>Each answer of the fetcher worker is dispatched as exactly one receiveFetch event with the
  answer as its detail, in the order of the answers: the handler is installed before the first
  answer can arrive.\<close>

theorem fetch_answers_dispatched:
  "events_named ''receiveFetch'' (fetcher_effects (fold fetcher_exec ops init_fetcher))
     = answers ops init_fetcher"
  using events_run [of init_fetcher ops] by (simp add: fetcher_inv_def init_fetcher_def)


section \<open>The worker's side\<close>

text \<open>
  \<open>Fetcher.ml\<close>. The parameters of the three kinds of request are opaque here. The outcome of
  \<open>Fetch.fetchWithInit\<close> is a rejection with a message, or a response with a status whose \<open>json\<close>
  and \<open>text\<close> may themselves be rejected with a message. The decoders of \<open>Decoders.ml\<close> are the
  parameters \<open>dec\<close>; they raise exceptions of OCaml (\<open>DecodeError\<close>), which have no \<open>message\<close>, or those
  of JavaScript, such as a stack overflow, which have one.
\<close>

datatype 'p fetch_request = TraceFetch 'p | DbStatsFetch 'p | WorkerStatsFetch 'p

datatype ('p, 'r) fetch_result =
    TraceFetchSuccess 'p 'r
  | TraceFetchFailure 'p string string
  | TraceFetchMissing 'p
  | DbStatsFetchSuccess 'p 'r
  | DbStatsFetchFailure 'p string string
  | DbStatsFetchMissing 'p
  | WorkerStatsFetchSuccess 'p 'r
  | WorkerStatsFetchFailure 'p string string
  | WorkerStatsFetchMissing 'p

record fetch_context =
  canvasName :: string
  csrfToken :: string
  origin :: string
  fc_prefix :: string

datatype http_outcome =
    Rejected string
  | Response nat "string + jsval" "string + string"

datatype raised = RaisedJs string | RaisedOcaml

definition failure_message :: "string \<Rightarrow> string" where
  "failure_message message =
     (if suffix ''Maximum call stack size exceeded'' message
      then ''Selected trace too large for the editor to load, maybe try another?''
      else message)"

text \<open>The message posted to the page, if the promise chain posts one. The last case of \<open>catch\<close> reads the
  exception's \<open>message\<close>; where it is undefined, \<open>String.endsWith\<close> raises and nothing is posted.\<close>

definition fetch_chain ::
  "(jsval \<Rightarrow> raised + 'r) \<Rightarrow> ('r \<Rightarrow> 'm) \<Rightarrow> 'm \<Rightarrow> (string \<Rightarrow> 'm) \<Rightarrow> http_outcome \<Rightarrow> 'm option" where
  "fetch_chain decoder on_success on_missing on_failure outcome =
     (case outcome of
        Rejected message \<Rightarrow> Some (on_failure (failure_message message))
      | Response status json text \<Rightarrow>
          if status = 404 then Some on_missing
          else if status = 401
          then (case text of Inl _ \<Rightarrow> None | Inr body \<Rightarrow> Some (on_failure body))
          else (case json of
                  Inl message \<Rightarrow> Some (on_failure (failure_message message))
                | Inr resp \<Rightarrow>
                    (case decoder resp of
                       Inl (RaisedJs message) \<Rightarrow> Some (on_failure (failure_message message))
                     | Inl RaisedOcaml \<Rightarrow> None
                     | Inr result \<Rightarrow> Some (on_success result))))"

definition api_url :: "fetch_context \<Rightarrow> string \<Rightarrow> string" where
  "api_url context endpoint =
     fc_prefix context @ origin context @ ''/api/'' @ canvasName context @ endpoint"

fun worker_fetch :: "(jsval \<Rightarrow> raised + 'r) \<Rightarrow> fetch_context \<Rightarrow> 'p fetch_request \<Rightarrow> http_outcome
    \<Rightarrow> ('p, 'r) fetch_result option" where
  "worker_fetch dec context (TraceFetch gdtp) outcome =
     (let url = api_url context ''/get_trace_data''
      in fetch_chain dec (TraceFetchSuccess gdtp) (TraceFetchMissing gdtp)
           (TraceFetchFailure gdtp url) outcome)"
| "worker_fetch dec context (DbStatsFetch dbsParams) outcome =
     (let url = api_url context ''/get_db_stats''
      in fetch_chain dec (DbStatsFetchSuccess dbsParams) (DbStatsFetchMissing dbsParams)
           (DbStatsFetchFailure dbsParams url) outcome)"
| "worker_fetch dec context (WorkerStatsFetch workerParams) outcome =
     (let url = api_url context ''/get_worker_stats''
      in fetch_chain dec (WorkerStatsFetchSuccess workerParams) (WorkerStatsFetchMissing workerParams)
           (WorkerStatsFetchFailure workerParams url) outcome)"

fun answers_request :: "('p, 'r) fetch_result \<Rightarrow> 'p fetch_request" where
  "answers_request (TraceFetchSuccess p r) = TraceFetch p"
| "answers_request (TraceFetchFailure p u m) = TraceFetch p"
| "answers_request (TraceFetchMissing p) = TraceFetch p"
| "answers_request (DbStatsFetchSuccess p r) = DbStatsFetch p"
| "answers_request (DbStatsFetchFailure p u m) = DbStatsFetch p"
| "answers_request (DbStatsFetchMissing p) = DbStatsFetch p"
| "answers_request (WorkerStatsFetchSuccess p r) = WorkerStatsFetch p"
| "answers_request (WorkerStatsFetchFailure p u m) = WorkerStatsFetch p"
| "answers_request (WorkerStatsFetchMissing p) = WorkerStatsFetch p"

fun is_success :: "('p, 'r) fetch_result \<Rightarrow> bool" where
  "is_success (TraceFetchSuccess p r) = True"
| "is_success (DbStatsFetchSuccess p r) = True"
| "is_success (WorkerStatsFetchSuccess p r) = True"
| "is_success _ = False"

lemma worker_fetch_about: "worker_fetch dec context req outcome = Some m \<Longrightarrow> answers_request m = req"
  by (cases req; cases outcome) (auto simp: fetch_chain_def Let_def split: sum.splits if_splits raised.splits)

text \<open>The outcomes on which nothing is posted.\<close>

fun silent :: "(jsval \<Rightarrow> raised + 'r) \<Rightarrow> http_outcome \<Rightarrow> bool" where
  "silent dec (Rejected message) = False"
| "silent dec (Response status json text) =
     (if status = 401 then isl text
      else status \<noteq> 404 \<and> (case json of Inl e \<Rightarrow> False | Inr v \<Rightarrow> isl (dec v) \<and> projl (dec v) = RaisedOcaml))"

text \<open>The fetcher worker answers every request with one message about that very request, for
  every outcome of the HTTP call but two: a 401 response whose body cannot be read, and a body whose
  decoder raises an exception of OCaml, are answered with nothing. The message is a success exactly
  when the status is neither 404 nor 401 and the body parses and decodes, whatever other status it has.\<close>

theorem worker_answers_request:
  "(case worker_fetch dec context req outcome of
      None \<Rightarrow> silent dec outcome
    | Some m \<Rightarrow> \<not> silent dec outcome \<and> answers_request m = req
        \<and> (is_success m \<longleftrightarrow> (\<exists>status v text r. outcome = Response status (Inr v) text
             \<and> status \<noteq> 404 \<and> status \<noteq> 401 \<and> dec v = Inr r)))"
  by (cases req; cases outcome) (auto simp: fetch_chain_def Let_def split: sum.splits raised.splits)

lemma silent_iff: "worker_fetch dec context req outcome = None \<longleftrightarrow> silent dec outcome"
  by (cases req; cases outcome) (auto simp: fetch_chain_def Let_def split: sum.splits raised.splits)

end
