(* ===== verification/BlazorLoader.thy ===== *)
theory BlazorLoader
  imports Base64Url AnalysisQueue
begin

text \<open>
  The code that \<open>BlazorWorker.js\<close> runs inside the web worker (\<open>workerDef\<close>): it downloads the
  boot manifest, imports the .NET runtime script, copies every assembly into the WebAssembly heap
  between Emscripten's \<open>preRun\<close> and \<open>postRun\<close>, and then announces itself to the page. The steps of
  the loader are the tasks of the worker: the answer to the manifest request, the call of the
  \<open>preRun\<close> callbacks, the settlement of one assembly request, the call of the \<open>postRun\<close> callbacks.
  Emscripten and Mono are not in the repository. \<open>malloc\<close> (which may grow the heap) is a parameter;
  of Emscripten's run protocol the model uses what its documentation promises: \<open>preRun\<close> callbacks
  run once, after the script is imported, and \<open>postRun\<close> callbacks run once, after them, when no
  dependency added by \<open>addRunDependency\<close> is left. Whether \<open>importScripts\<close> succeeds, and whether Mono starts
  in \<open>postRun\<close>, is part of the events; the other calls into Emscripten and Mono return.
\<close>

section \<open>asyncLoad\<close>

text \<open>How an \<open>XMLHttpRequest\<close> ends: \<open>onload\<close> with a status and a response value, or \<open>onerror\<close>.
  A rejection carries the request object itself, or the event of \<open>onerror\<close>.\<close>

datatype 'r xhr_event = XhrLoad nat 'r | XhrError

datatype rejection = RejectXhr nat | RejectEvent

text \<open>\<open>resp\<close> is the truthiness of the response and \<open>view\<close> what the promise resolves to: a
  \<open>Uint8Array\<close> on an array buffer, the parsed value for the type \<open>json\<close>.\<close>

fun asyncLoad :: "('r \<Rightarrow> bool) \<Rightarrow> ('r \<Rightarrow> 'v) \<Rightarrow> 'r xhr_event \<Rightarrow> rejection + 'v" where
  "asyncLoad resp view (XhrLoad status response) =
     (if status = 200 \<or> (status = 0 \<and> resp response) then Inr (view response)
      else Inl (RejectXhr status))"
| "asyncLoad resp view XhrError = Inl RejectEvent"

text \<open>A response of type \<open>arraybuffer\<close> is a buffer or \<open>null\<close>; \<open>new Uint8Array(null)\<close> is empty.\<close>

definition loadBinary :: "byte list option xhr_event \<Rightarrow> rejection + byte list" where
  "loadBinary = asyncLoad (\<lambda>r. r \<noteq> None) (\<lambda>r. case r of None \<Rightarrow> [] | Some bs \<Rightarrow> bs)"

definition loadJson :: "jsval xhr_event \<Rightarrow> rejection + jsval" where
  "loadJson = asyncLoad truthy (\<lambda>r. r)"

fun rejection_value :: "rejection \<Rightarrow> jsval" where
  "rejection_value (RejectXhr status) = JObj [(''status'', JNum (of_nat status))]"
| "rejection_value RejectEvent = JObj [(''type'', JStr ''error'')]"

section \<open>State of the worker\<close>

text \<open>
  \<open>Importing\<close>: the runtime script has been imported and Emscripten has not called \<open>preRun\<close> yet;
  \<open>Loading\<close>: \<open>preRun\<close> has returned; \<open>Ready\<close>: \<open>postRun\<close> has returned; \<open>Failed\<close>: the manifest
  request was rejected, the script could not be imported or a callback threw, so nothing further is called. \<open>requested\<close> are the
  assemblies whose request has not settled, \<open>run_deps\<close> the dependencies Emscripten still waits for.
\<close>

datatype phase = Booting | Importing | Loading | Ready | Failed

record loader =
  phase :: phase
  blazorBootManifest :: jsval
  imported :: "string list"
  nonExistingDlls :: "string list"
  requested :: "string list"
  run_deps :: "string list"
  heap :: "byte list"
  allocated :: "(nat \<times> nat) list"
  assemblies :: "(string \<times> nat \<times> nat) list"
  loaded_files :: "string list"
  onmessage_set :: bool
  outbox :: "jsval list"
  worker_log :: "effect list"

definition init_loader :: "byte list \<Rightarrow> loader" where
  "init_loader h = \<lparr>phase = Booting, blazorBootManifest = JUndefined, imported = [],
     nonExistingDlls = [], requested = [], run_deps = [], heap = h, allocated = [], assemblies = [],
     loaded_files = [], onmessage_set = False, outbox = [], worker_log = []\<rparr>"

section \<open>The boot manifest\<close>

text \<open>\<open>Object.keys\<close>; the keys of a manifest are file names, so no key is an array index and the
  order is that of the first insertions. \<open>None\<close> is the \<open>TypeError\<close> on \<open>null\<close> and
  \<open>undefined\<close>.\<close>

fun first_insertions :: "'a list \<Rightarrow> 'a list" where
  "first_insertions [] = []"
| "first_insertions (x # xs) = x # removeAll x (first_insertions xs)"

fun object_keys :: "jsval \<Rightarrow> string list option" where
  "object_keys JUndefined = None"
| "object_keys JNull = None"
| "object_keys (JObj fs) = Some (first_insertions (map fst fs))"
| "object_keys (JArr vs) = Some (map decimal [0..<length vs])"
| "object_keys (JStr s) = Some (map decimal [0..<length s])"
| "object_keys v = Some []"

definition blazor_path :: "string \<Rightarrow> string \<Rightarrow> string" where
  "blazor_path appRoot file = appRoot @ ''/blazor/'' @ file"

definition locateFile :: "string \<Rightarrow> string \<Rightarrow> string" where
  "locateFile appRoot fileName =
     (if fileName = ''dotnet.wasm'' then appRoot @ ''/blazor/dotnet.wasm'' else fileName)"

definition find_dotnetjs :: "string list \<Rightarrow> string option" where
  "find_dotnetjs ks = List.find (\<lambda>p. prefix ''dotnet.'' p \<and> suffix ''.js'' p) ks"

text \<open>A template literal renders \<open>undefined\<close> as the word.\<close>

fun template_text :: "string option \<Rightarrow> string" where
  "template_text None = ''undefined''"
| "template_text (Some s) = s"

definition onError :: "jsval \<Rightarrow> loader \<Rightarrow> loader" where
  "onError err l = l\<lparr>worker_log := worker_log l @ [ConsoleError [err]]\<rparr>"

definition runtime_keys :: "jsval \<Rightarrow> string list option" where
  "runtime_keys boot =
     (case get_prop boot ''resources'' of
        None \<Rightarrow> None
      | Some res \<Rightarrow>
          (case get_prop res ''runtime'' of None \<Rightarrow> None | Some rt \<Rightarrow> object_keys rt))"

text \<open>\<open>import_ok\<close>: \<open>importScripts\<close> loads and runs the script; otherwise it throws in the callback, and the
  promise is rejected without a handler.\<close>

definition boot_loaded :: "string \<Rightarrow> jsval xhr_event \<Rightarrow> bool \<Rightarrow> loader \<Rightarrow> loader" where
  "boot_loaded appRoot e import_ok l =
     (case loadJson e of
        Inl err \<Rightarrow> onError (rejection_value err) (l\<lparr>phase := Failed\<rparr>)
      | Inr boot \<Rightarrow>
          (let l1 = l\<lparr>blazorBootManifest := boot\<rparr>
           in case runtime_keys boot of
                None \<Rightarrow> l1\<lparr>phase := Failed\<rparr>
              | Some ks \<Rightarrow>
                  (let dotnetjsfilename = find_dotnetjs ks
                   in if dotnetjsfilename = Some [] then l1\<lparr>phase := Failed\<rparr>
                      else l1\<lparr>phase := (if import_ok then Importing else Failed),
                              imported := imported l1
                                @ [blazor_path appRoot (template_text dotnetjsfilename)]\<rparr>)))"

section \<open>preRun\<close>

definition runDependencyId :: "string \<Rightarrow> string" where
  "runDependencyId url = ''blazor:'' @ url"

text \<open>One iteration of the \<open>forEach\<close>: \<open>keys\<close> are the own properties of the assembly object, and
  \<open>None\<close> is the \<open>TypeError\<close> when one of them shadows the method \<open>hasOwnProperty\<close>.\<close>

definition prerun_one :: "string list \<Rightarrow> string \<Rightarrow> loader \<Rightarrow> loader option" where
  "prerun_one keys url l =
     (if ''hasOwnProperty'' \<in> set keys then None
      else if url \<notin> set keys then Some (l\<lparr>nonExistingDlls := nonExistingDlls l @ [url]\<rparr>)
      else Some (l\<lparr>run_deps := run_deps l @ [runDependencyId url], requested := requested l @ [url]\<rparr>))"

fun prerun_loop :: "string list \<Rightarrow> string list \<Rightarrow> loader \<Rightarrow> loader option" where
  "prerun_loop keys [] l = Some l"
| "prerun_loop keys (url # urls) l =
     (case prerun_one keys url l of None \<Rightarrow> None | Some l1 \<Rightarrow> prerun_loop keys urls l1)"

definition assembly_keys :: "jsval \<Rightarrow> string list option" where
  "assembly_keys boot =
     (case get_prop boot ''resources'' of
        None \<Rightarrow> None
      | Some res \<Rightarrow>
          (case get_prop res ''assembly'' of None \<Rightarrow> None | Some asm \<Rightarrow> object_keys asm))"

definition preRun :: "loader \<Rightarrow> loader" where
  "preRun l =
     (let l1 = l\<lparr>loaded_files := []\<rparr>
      in case assembly_keys (blazorBootManifest l) of
           None \<Rightarrow> l1\<lparr>phase := Failed\<rparr>
         | Some keys \<Rightarrow>
             (case prerun_loop keys keys l1 of
                None \<Rightarrow> l1\<lparr>phase := Failed\<rparr>
              | Some l2 \<Rightarrow> l2\<lparr>phase := Loading\<rparr>))"

section \<open>The settlement of an assembly request\<close>

text \<open>\<open>malloc heap allocated n\<close> returns the heap after the call and the address. A view past the
  end of the heap is a \<open>RangeError\<close>: the callback's promise is rejected and nothing after it runs.\<close>

type_synonym allocator = "byte list \<Rightarrow> (nat \<times> nat) list \<Rightarrow> nat \<Rightarrow> byte list \<times> nat"

definition assembly_loaded :: "allocator \<Rightarrow> string \<Rightarrow> byte list \<Rightarrow> loader \<Rightarrow> loader" where
  "assembly_loaded malloc url data l =
     (let (h, heapAddress) = malloc (heap l) (allocated l) (length data);
          l1 = l\<lparr>heap := h, allocated := allocated l @ [(heapAddress, length data)]\<rparr>
      in if length h < heapAddress + length data then l1
         else l1\<lparr>heap := overlay h heapAddress data,
                 assemblies := assemblies l @ [(url, heapAddress, length data)],
                 loaded_files := loaded_files l @ [url],
                 run_deps := remove1 (runDependencyId url) (run_deps l)\<rparr>)"

definition isPdb404 :: "string \<Rightarrow> rejection \<Rightarrow> bool" where
  "isPdb404 url err \<longleftrightarrow> err = RejectXhr 404 \<and> suffix ''.pdb'' url"

definition assembly_failed :: "string \<Rightarrow> rejection \<Rightarrow> loader \<Rightarrow> loader" where
  "assembly_failed url err l =
     (let l1 = (if \<not> isPdb404 url err then onError (rejection_value err) l else l)
      in l1\<lparr>run_deps := remove1 (runDependencyId url) (run_deps l1)\<rparr>)"

definition assembly_settled :: "allocator \<Rightarrow> string \<Rightarrow> byte list option xhr_event \<Rightarrow> loader \<Rightarrow> loader" where
  "assembly_settled malloc url e l =
     (let l0 = l\<lparr>requested := remove1 url (requested l)\<rparr>
      in case loadBinary e of
           Inl err \<Rightarrow> assembly_failed url err l0
         | Inr data \<Rightarrow> assembly_loaded malloc url data l0)"

section \<open>postRun\<close>

definition onReady :: "loader \<Rightarrow> loader" where
  "onReady l = l\<lparr>onmessage_set := True, outbox := outbox l @ [ready_message]\<rparr>"

definition missing_warning :: "string list \<Rightarrow> effect" where
  "missing_warning dlls = ConsoleWarn [JStr (''BlazorWorker: Module.postRun: '' @ decimal (length dlls)
     @ '' assemblies was specified as a dependency for the worker but was not present in the bootloader. ''
     @ ''This may be normal if trimmming is used. To remove this warning, either configure the linker not ''
     @ ''to trim the specified assemblies if they were removed in error, or conditionally remove the ''
     @ ''specified dependencies for builds that uses trimming. If trimming is not used, make sure that ''
     @ ''the assembly is included in the build.''), JArr (map JStr dlls)]"

text \<open>\<open>runtime_ok\<close>: the calls that start Mono and bind \<open>OnMessage\<close> return; otherwise one of them throws before
  \<open>onReady\<close> has done anything.\<close>

definition postRun :: "bool \<Rightarrow> loader \<Rightarrow> loader" where
  "postRun runtime_ok l =
     (if \<not> runtime_ok then l\<lparr>phase := Failed\<rparr>
      else
        (let l1 = onReady (l\<lparr>phase := Ready\<rparr>)
         in if nonExistingDlls l1 \<noteq> []
            then l1\<lparr>worker_log := worker_log l1 @ [missing_warning (nonExistingDlls l1)]\<rparr>
            else l1))"

text \<open>\<open>self.onmessage\<close>: until \<open>onReady\<close> has run, \<open>self.onmessage\<close> is the value of the call of
  \<open>workerDef\<close>, that is \<open>undefined\<close>, and a message is dropped; then its data is passed to F#.\<close>

definition worker_receive :: "jsval \<Rightarrow> loader \<Rightarrow> jsval option" where
  "worker_receive data l = (if onmessage_set l then Some data else None)"

section \<open>Steps\<close>

datatype loader_event =
    BootLoaded "jsval xhr_event" bool
  | PreRun
  | Settled string "byte list option xhr_event"
  | PostRun bool

fun loader_enabled :: "loader_event \<Rightarrow> loader \<Rightarrow> bool" where
  "loader_enabled (BootLoaded e import_ok) l = (phase l = Booting)"
| "loader_enabled PreRun l = (phase l = Importing)"
| "loader_enabled (Settled url e) l = (url \<in> set (requested l))"
| "loader_enabled (PostRun runtime_ok) l = (phase l = Loading \<and> run_deps l = [])"

fun loader_step :: "allocator \<Rightarrow> string \<Rightarrow> loader_event \<Rightarrow> loader \<Rightarrow> loader" where
  "loader_step malloc appRoot (BootLoaded e import_ok) l = boot_loaded appRoot e import_ok l"
| "loader_step malloc appRoot PreRun l = preRun l"
| "loader_step malloc appRoot (Settled url e) l = assembly_settled malloc url e l"
| "loader_step malloc appRoot (PostRun runtime_ok) l = postRun runtime_ok l"

text \<open>The runs of a loader, with the events that led to each state.\<close>

inductive loader_trace ::
  "allocator \<Rightarrow> string \<Rightarrow> byte list \<Rightarrow> loader_event list \<Rightarrow> loader \<Rightarrow> bool"
  for malloc :: allocator and appRoot :: string and h0 :: "byte list" where
  begin_trace: "loader_trace malloc appRoot h0 [] (init_loader h0)"
| step_trace: "loader_trace malloc appRoot h0 evs l \<Longrightarrow> loader_enabled ev l \<Longrightarrow>
     loader_trace malloc appRoot h0 (evs @ [ev]) (loader_step malloc appRoot ev l)"

inductive_cases loader_trace_snocE: "loader_trace malloc appRoot h0 (evs @ [ev]) l"
inductive_simps loader_trace_Nil: "loader_trace malloc appRoot h0 [] l"

section \<open>What a run has done\<close>

fun settlements :: "loader_event list \<Rightarrow> (string \<times> byte list option xhr_event) list" where
  "settlements [] = []"
| "settlements (Settled url e # evs) = (url, e) # settlements evs"
| "settlements (_ # evs) = settlements evs"

lemma settlements_append [simp]: "settlements (xs @ ys) = settlements xs @ settlements ys"
  by (induction xs rule: settlements.induct) auto

definition stored :: "loader_event list \<Rightarrow> (string \<times> byte list) list" where
  "stored evs = concat (map (\<lambda>(url, e). case loadBinary e of Inl _ \<Rightarrow> [] | Inr data \<Rightarrow> [(url, data)])
     (settlements evs))"

definition reported :: "loader_event list \<Rightarrow> effect list" where
  "reported evs = concat (map (\<lambda>(url, e). case loadBinary e of
       Inl err \<Rightarrow> if isPdb404 url err then [] else [ConsoleError [rejection_value err]]
     | Inr _ \<Rightarrow> []) (settlements evs))"

lemma stored_simps [simp]:
  "stored [] = []"
  "stored (evs @ [BootLoaded b import_ok]) = stored evs"
  "stored (evs @ [PreRun]) = stored evs"
  "stored (evs @ [PostRun runtime_ok]) = stored evs"
  "stored (evs @ [Settled url e]) = stored evs
     @ (case loadBinary e of Inl _ \<Rightarrow> [] | Inr data \<Rightarrow> [(url, data)])"
  by (simp_all add: stored_def)

lemma reported_simps [simp]:
  "reported [] = []"
  "reported (evs @ [BootLoaded b import_ok]) = reported evs"
  "reported (evs @ [PreRun]) = reported evs"
  "reported (evs @ [PostRun runtime_ok]) = reported evs"
  "reported (evs @ [Settled url e]) = reported evs
     @ (case loadBinary e of
          Inl err \<Rightarrow> if isPdb404 url err then [] else [ConsoleError [rejection_value err]]
        | Inr _ \<Rightarrow> [])"
  by (simp_all add: reported_def)

lemma runDependencyId_inj [simp]: "runDependencyId x = runDependencyId y \<longleftrightarrow> x = y"
  by (simp add: runDependencyId_def)

lemma map_remove1_id:
  "map runDependencyId (remove1 x xs) = remove1 (runDependencyId x) (map runDependencyId xs)"
  by (induction xs) auto

lemma first_insertions_set [simp]: "set (first_insertions xs) = set xs"
  by (induction xs) auto

lemma distinct_removeAll: "distinct xs \<Longrightarrow> distinct (removeAll x xs)"
  by (induction xs) auto

lemma first_insertions_distinct [simp]: "distinct (first_insertions xs)"
  by (induction xs) (simp_all add: distinct_removeAll)

lemma object_keys_distinct: "object_keys v = Some ks \<Longrightarrow> distinct ks"
  by (cases v) (auto simp: distinct_map inj_on_def dest: decimal_inj)

lemma assembly_keys_distinct: "assembly_keys boot = Some ks \<Longrightarrow> distinct ks"
  by (auto simp: assembly_keys_def dest: object_keys_distinct split: option.splits)

text \<open>Every key is an own key, so the loop requests all of them.\<close>

lemma prerun_loop_requests:
  "set urls \<subseteq> set keys \<Longrightarrow> prerun_loop keys urls l =
     (if urls \<noteq> [] \<and> ''hasOwnProperty'' \<in> set keys then None
      else Some (l\<lparr>run_deps := run_deps l @ map runDependencyId urls, requested := requested l @ urls\<rparr>))"
  by (induction urls arbitrary: l) (auto simp: prerun_one_def)


section \<open>What every run keeps\<close>

definition loader_inv :: "loader \<Rightarrow> bool" where
  "loader_inv l \<longleftrightarrow> nonExistingDlls l = [] \<and> distinct (requested l) \<and> distinct (run_deps l)
     \<and> runDependencyId ` set (requested l) \<subseteq> set (run_deps l)
     \<and> (phase l \<noteq> Loading \<longrightarrow> run_deps l = [])
     \<and> (phase l \<in> {Booting, Importing} \<longrightarrow> assemblies l = [] \<and> loaded_files l = [])
     \<and> outbox l = (if phase l = Ready then [ready_message] else [])
     \<and> (onmessage_set l \<longleftrightarrow> phase l = Ready)"

lemma boot_loaded_inv: "loader_inv l \<Longrightarrow> phase l = Booting \<Longrightarrow> loader_inv (boot_loaded appRoot e import_ok l)"
  by (auto simp: loader_inv_def boot_loaded_def onError_def Let_def split: sum.split option.split)

lemma preRun_eq:
  "preRun l = (case assembly_keys (blazorBootManifest l) of
       None \<Rightarrow> l\<lparr>loaded_files := [], phase := Failed\<rparr>
     | Some keys \<Rightarrow>
         if ''hasOwnProperty'' \<in> set keys then l\<lparr>loaded_files := [], phase := Failed\<rparr>
         else l\<lparr>loaded_files := [], run_deps := run_deps l @ map runDependencyId keys,
                requested := requested l @ keys, phase := Loading\<rparr>)"
  by (auto simp: preRun_def Let_def prerun_loop_requests split: option.split)

lemma preRun_inv: "loader_inv l \<Longrightarrow> phase l = Importing \<Longrightarrow> loader_inv (preRun l)"
  by (auto simp: loader_inv_def preRun_eq distinct_map inj_on_def
      dest: assembly_keys_distinct split: option.split)

lemma assembly_settled_inv:
  "loader_inv l \<Longrightarrow> url \<in> set (requested l) \<Longrightarrow> loader_inv (assembly_settled malloc url e l)"
  by (auto simp: loader_inv_def assembly_settled_def assembly_failed_def assembly_loaded_def onError_def
      Let_def case_prod_beta split: sum.split)

lemma postRun_inv: "loader_inv l \<Longrightarrow> phase l = Loading \<Longrightarrow> run_deps l = [] \<Longrightarrow> loader_inv (postRun runtime_ok l)"
  by (auto simp: loader_inv_def postRun_def onReady_def Let_def)

lemma loader_trace_inv: "loader_trace malloc appRoot h0 evs l \<Longrightarrow> loader_inv l"
proof (induction rule: loader_trace.induct)
  case begin_trace
  show ?case by (simp add: loader_inv_def init_loader_def)
next
  case (step_trace evs l ev)
  then show ?case
    by (cases ev) (auto intro: boot_loaded_inv preRun_inv assembly_settled_inv postRun_inv)
qed

text \<open>What the documentation of \<open>malloc\<close> promises of a call that does not return a null pointer (the code
  does not test for one): the block lies in the heap, is disjoint from the
  blocks in use, and their contents survive a growth of the heap.\<close>

definition good_malloc :: "allocator \<Rightarrow> bool" where
  "good_malloc malloc \<longleftrightarrow> (\<forall>h regs n. (\<forall>(b, m) \<in> set regs. b + m \<le> length h) \<longrightarrow>
     (case malloc h regs n of (h', a) \<Rightarrow> length h \<le> length h' \<and> a + n \<le> length h'
        \<and> (\<forall>(b, m) \<in> set regs. take m (drop b h') = take m (drop b h) \<and> (b + m \<le> a \<or> a + n \<le> b))))"

definition bump_malloc :: allocator where
  "bump_malloc h regs n = (h @ replicate n 0, length h)"

lemma bump_malloc_good: "good_malloc bump_malloc"
  by (auto simp: good_malloc_def bump_malloc_def)

lemma region_overlay_other:
  assumes "b + m \<le> length h" and "b + m \<le> a \<or> a + length d \<le> b"
  shows "take m (drop b (overlay h a d)) = take m (drop b h)"
  using assms by (auto intro!: nth_equalityI simp: nth_overlay)

lemma region_overlay_self:
  "a + length d \<le> length h \<Longrightarrow> take (length d) (drop a (overlay h a d)) = d"
  by (auto intro!: nth_equalityI simp: nth_overlay)

text \<open>A block of the heap that holds an assembly.\<close>

definition holds :: "byte list \<Rightarrow> string \<times> byte list \<Rightarrow> string \<times> nat \<times> nat \<Rightarrow> bool" where
  "holds h file block \<longleftrightarrow> fst block = fst file \<and> snd (snd block) = length (snd file)
     \<and> fst (snd block) + length (snd file) \<le> length h
     \<and> take (length (snd file)) (drop (fst (snd block)) h) = snd file"

definition heap_inv :: "loader_event list \<Rightarrow> loader \<Rightarrow> bool" where
  "heap_inv evs l \<longleftrightarrow> run_deps l = map runDependencyId (requested l)
     \<and> list_all2 (holds (heap l)) (stored evs) (assemblies l)
     \<and> loaded_files l = map fst (assemblies l) \<and> allocated l = map snd (assemblies l)
     \<and> (phase l \<noteq> Failed \<longrightarrow> worker_log l = reported evs)"

lemma holds_le: "list_all2 (holds h) fs bs \<Longrightarrow> (b, m) \<in> set (map snd bs) \<Longrightarrow> b + m \<le> length h"
  by (induction rule: list_all2_induct) (auto simp: holds_def)

lemma assembly_loaded_heap:
  assumes "good_malloc malloc" "heap_inv evs l" "url \<in> set (requested l)" "loadBinary e = Inr data"
  shows "heap_inv (evs @ [Settled url e]) (assembly_settled malloc url e l)"
proof -
  obtain h a where ha: "malloc (heap l) (allocated l) (length data) = (h, a)" by force
  from assms(2) have l2: "list_all2 (holds (heap l)) (stored evs) (assemblies l)"
    and al: "allocated l = map snd (assemblies l)" by (auto simp: heap_inv_def)
  have "\<forall>(b, m) \<in> set (allocated l). b + m \<le> length (heap l)"
    unfolding al using holds_le [OF l2] by (auto simp del: set_map)
  with assms(1) ha have g: "length (heap l) \<le> length h" "a + length data \<le> length h"
    "\<forall>(b, m) \<in> set (allocated l). take m (drop b h) = take m (drop b (heap l))
       \<and> (b + m \<le> a \<or> a + length data \<le> b)"
    by (auto simp: good_malloc_def dest!: spec [of _ "heap l"] spec [of _ "allocated l"]
        spec [of _ "length data"])
  have "list_all2 (holds (overlay h a data)) (stored evs) (assemblies l)"
  proof (rule list.rel_mono_strong [OF l2])
    fix f x assume x: "x \<in> set (assemblies l)" and hx: "holds (heap l) f x"
    then have "snd x \<in> set (allocated l)" by (simp add: al)
    with g(3) have "take (snd (snd x)) (drop (fst (snd x)) h) = take (snd (snd x)) (drop (fst (snd x)) (heap l))"
      "fst (snd x) + snd (snd x) \<le> a \<or> a + length data \<le> fst (snd x)" by (auto split: prod.splits)
    then show "holds (overlay h a data) f x" using hx g(1)
      by (simp add: holds_def region_overlay_other)
  qed
  moreover have "holds (overlay h a data) (url, data) (url, a, length data)"
    using g(2) by (simp add: holds_def region_overlay_self)
  ultimately show ?thesis
    using assms(2-4) ha g(2)
    by (auto simp: heap_inv_def assembly_settled_def assembly_loaded_def Let_def map_remove1_id
        list_all2_appendI)
qed

lemma assembly_failed_heap:
  assumes "heap_inv evs l" "loadBinary e = Inl err"
  shows "heap_inv (evs @ [Settled url e]) (assembly_settled malloc url e l)"
  using assms by (simp add: heap_inv_def assembly_settled_def assembly_failed_def onError_def Let_def
      map_remove1_id)

lemma boot_loaded_heap:
  "heap_inv evs l \<Longrightarrow> phase l = Booting \<Longrightarrow> heap_inv (evs @ [BootLoaded e import_ok]) (boot_loaded appRoot e import_ok l)"
  by (auto simp: heap_inv_def boot_loaded_def onError_def Let_def split: sum.split option.split)

lemma preRun_heap:
  "heap_inv evs l \<Longrightarrow> loader_inv l \<Longrightarrow> phase l = Importing \<Longrightarrow> heap_inv (evs @ [PreRun]) (preRun l)"
  by (auto simp: heap_inv_def loader_inv_def preRun_eq split: option.split)

lemma postRun_heap:
  "heap_inv evs l \<Longrightarrow> loader_inv l \<Longrightarrow> phase l = Loading \<Longrightarrow> heap_inv (evs @ [PostRun runtime_ok]) (postRun runtime_ok l)"
  by (auto simp: heap_inv_def loader_inv_def postRun_def onReady_def Let_def)

lemma loader_trace_heap:
  assumes "good_malloc malloc"
  shows "loader_trace malloc appRoot h0 evs l \<Longrightarrow> heap_inv evs l"
proof (induction rule: loader_trace.induct)
  case begin_trace
  show ?case by (simp add: heap_inv_def init_loader_def)
next
  case (step_trace evs l ev)
  have i: "loader_inv l" by (rule loader_trace_inv) (rule step_trace.hyps)
  show ?case
  proof (cases ev)
    case (Settled url e)
    then show ?thesis
      using step_trace assembly_loaded_heap [OF assms] assembly_failed_heap
      by (cases "loadBinary e") auto
  qed (use step_trace i in \<open>auto intro: boot_loaded_heap preRun_heap postRun_heap\<close>)
qed

section \<open>Progress\<close>

fun phase_rank :: "phase \<Rightarrow> nat" where
  "phase_rank Booting = 3"
| "phase_rank Importing = 2"
| "phase_rank Loading = 1"
| "phase_rank Ready = 0"
| "phase_rank Failed = 0"

lemma boot_loaded_phase: "phase (boot_loaded appRoot e import_ok l) \<in> {Importing, Failed}"
  by (auto simp: boot_loaded_def onError_def Let_def split: sum.split option.split)

lemma preRun_phase: "phase (preRun l) \<in> {Loading, Failed}"
  by (auto simp: preRun_eq split: option.split)

lemma assembly_settled_phase [simp]: "phase (assembly_settled malloc url e l) = phase l"
  by (auto simp: assembly_settled_def assembly_failed_def assembly_loaded_def onError_def Let_def
      case_prod_beta split: sum.split)

lemma assembly_settled_requested [simp]:
  "requested (assembly_settled malloc url e l) = remove1 url (requested l)"
  by (auto simp: assembly_settled_def assembly_failed_def assembly_loaded_def onError_def Let_def
      case_prod_beta split: sum.split)

lemma postRun_phase [simp]:
  "phase (postRun runtime_ok l) = (if runtime_ok then Ready else Failed)"
  "requested (postRun runtime_ok l) = requested l"
  by (simp_all add: postRun_def onReady_def Let_def)

text \<open>The phases in the order of a run; a failed loader stays failed.\<close>

fun phase_index :: "phase \<Rightarrow> nat" where
  "phase_index Booting = 0"
| "phase_index Importing = 1"
| "phase_index Loading = 2"
| "phase_index Ready = 3"
| "phase_index Failed = 4"

lemma phase_index_inj: "phase_index p = phase_index q \<Longrightarrow> p = q"
  by (cases p; cases q) simp_all

instantiation phase :: linorder
begin

definition less_eq_phase :: "phase \<Rightarrow> phase \<Rightarrow> bool" where
  "less_eq_phase p q = (phase_index p \<le> phase_index q)"

definition less_phase :: "phase \<Rightarrow> phase \<Rightarrow> bool" where
  "less_phase p q = (phase_index p < phase_index q)"

instance
  by standard (auto simp: less_eq_phase_def less_phase_def intro: phase_index_inj)

end

lemma phase_le_iff: "p \<le> q \<longleftrightarrow> phase_index p \<le> phase_index q" for p q :: phase
  by (simp add: less_eq_phase_def)

text \<open>No event takes the loader back to an earlier phase.\<close>

lemma loader_step_phase: "loader_enabled ev l \<Longrightarrow> phase l \<le> phase (loader_step malloc appRoot ev l)"
  using boot_loaded_phase [of appRoot _ _ l] preRun_phase [of l]
  by (cases ev) (fastforce simp: phase_le_iff)+

text \<open>Every event lowers the rank of the phase, or keeps it and settles a request.\<close>

lemma loader_step_decreases:
  "loader_enabled ev l \<Longrightarrow>
   (loader_step malloc appRoot ev l, l) \<in> measures [\<lambda>l. phase_rank (phase l), \<lambda>l. length (requested l)]"
proof (cases ev)
  case (BootLoaded e import_ok)
  assume "loader_enabled ev l"
  then show ?thesis using BootLoaded boot_loaded_phase [of appRoot e import_ok l] by auto
next
  case PreRun
  assume "loader_enabled ev l"
  then show ?thesis using PreRun preRun_phase [of l] by auto
next
  case (Settled url e)
  assume "loader_enabled ev l"
  then show ?thesis using Settled by (auto simp: length_remove1 dest: length_pos_if_in_set)
next
  case (PostRun runtime_ok)
  assume "loader_enabled ev l"
  then show ?thesis using PostRun by auto
qed

text \<open>A manifest with a dotnet script in its runtime and an assembly object.\<close>

definition good_manifest :: "jsval \<Rightarrow> string list \<Rightarrow> bool" where
  "good_manifest boot ks \<longleftrightarrow> Option.bind (runtime_keys boot) find_dotnetjs \<noteq> None \<and> assembly_keys boot = Some ks
     \<and> ''hasOwnProperty'' \<notin> set ks"

definition booted_with :: "jsval \<Rightarrow> loader_event list \<Rightarrow> bool" where
  "booted_with boot evs \<longleftrightarrow> (case evs of BootLoaded e _ # _ \<Rightarrow> loadJson e = Inr boot | _ \<Rightarrow> False)"

text \<open>The script can be imported, and Mono starts.\<close>

fun sound_event :: "loader_event \<Rightarrow> bool" where
  "sound_event (BootLoaded e import_ok) = import_ok"
| "sound_event (PostRun runtime_ok) = runtime_ok"
| "sound_event _ = True"

lemma booted_with_snoc:
  "evs \<noteq> [] \<Longrightarrow> booted_with boot (evs @ [ev]) = booted_with boot evs"
  by (cases evs) (auto simp: booted_with_def split: loader_event.split)

lemma booted_with_first:
  "booted_with boot [ev] \<longleftrightarrow> (\<exists>e import_ok. ev = BootLoaded e import_ok \<and> loadJson e = Inr boot)"
  by (simp add: booted_with_def split: loader_event.split)

lemma find_dotnetjs_nonempty [simp]: "find_dotnetjs ks \<noteq> Some []"
  by (auto simp: find_dotnetjs_def find_Some_iff prefix_def)

lemma boot_loaded_good:
  assumes "good_manifest boot ks" "loadJson e = Inr boot"
  shows "phase (boot_loaded appRoot e True l) = Importing"
    "blazorBootManifest (boot_loaded appRoot e True l) = boot"
    "requested (boot_loaded appRoot e True l) = requested l"
  using assms by (auto simp: good_manifest_def boot_loaded_def Let_def bind_eq_Some_conv)

lemma preRun_good:
  assumes "good_manifest (blazorBootManifest l) ks"
  shows "phase (preRun l) = Loading" "requested (preRun l) = requested l @ ks"
    "blazorBootManifest (preRun l) = blazorBootManifest l"
  using assms by (auto simp: good_manifest_def preRun_eq)

definition progress_inv :: "jsval \<Rightarrow> string list \<Rightarrow> loader_event list \<Rightarrow> loader \<Rightarrow> bool" where
  "progress_inv boot ks evs l \<longleftrightarrow> phase l \<noteq> Failed \<and> (evs = [] \<longleftrightarrow> phase l = Booting)
     \<and> length evs + phase_rank (phase l) = 3 + length (settlements evs)
     \<and> (if evs = [] then requested l = []
        else blazorBootManifest l = boot
          \<and> (if phase l = Importing then requested l = [] \<and> settlements evs = []
             else mset (requested l) + mset (map fst (settlements evs)) = mset ks))"

lemma assembly_settled_manifest [simp]:
  "blazorBootManifest (assembly_settled malloc url e l) = blazorBootManifest l"
  "blazorBootManifest (postRun runtime_ok l) = blazorBootManifest l"
  by (auto simp: assembly_settled_def assembly_failed_def assembly_loaded_def onError_def Let_def
      case_prod_beta postRun_def onReady_def split: sum.split)

lemma progress_step:
  assumes "good_manifest boot ks" "progress_inv boot ks evs l" "loader_enabled ev l"
    "booted_with boot (evs @ [ev])" "loader_inv l" "sound_event ev"
  shows "progress_inv boot ks (evs @ [ev]) (loader_step malloc appRoot ev l)"
proof (cases ev)
  case (BootLoaded e import_ok)
  then have e: "evs = []" "requested l = []" using assms(2,3) by (auto simp: progress_inv_def split: if_splits)
  then have "loadJson e = Inr boot" using assms(4) BootLoaded by (simp add: booted_with_first)
  then show ?thesis using e BootLoaded boot_loaded_good [OF assms(1)] assms(6) by (simp add: progress_inv_def)
next
  case PreRun
  then have "evs \<noteq> []" "phase l = Importing" using assms(2,3) by (auto simp: progress_inv_def)
  then show ?thesis using PreRun assms(1,2) preRun_good [of l ks] by (auto simp: progress_inv_def)
next
  case (Settled url e)
  then have u: "url \<in> set (requested l)" using assms(3) by simp
  then have "phase l = Loading" using assms(5) by (auto simp: loader_inv_def)
  moreover have m: "mset (requested l) = add_mset url (mset (remove1 url (requested l)))" using u by simp
  ultimately show ?thesis using Settled u assms(2)
    by (auto simp: progress_inv_def m simp del: mset_remove1)
next
  case (PostRun runtime_ok)
  then show ?thesis using assms(2,3,6) by (auto simp: progress_inv_def)
qed

lemma loader_trace_progress:
  assumes "good_manifest boot ks"
  shows "loader_trace malloc appRoot h0 evs l \<Longrightarrow> evs = [] \<or> booted_with boot evs \<Longrightarrow> list_all sound_event evs \<Longrightarrow>
    progress_inv boot ks evs l"
proof (induction rule: loader_trace.induct)
  case begin_trace
  show ?case by (simp add: progress_inv_def init_loader_def)
next
  case (step_trace evs l ev)
  have i: "loader_inv l" by (rule loader_trace_inv) (rule step_trace.hyps)
  have b: "booted_with boot (evs @ [ev])" and f: "list_all sound_event evs" "sound_event ev"
    using step_trace.prems by simp_all
  then have "evs = [] \<or> booted_with boot evs" using booted_with_snoc by metis
  then show ?case using progress_step [OF assms step_trace.IH step_trace.hyps(2) b i f(2)] f(1) by simp
qed

lemma stuck_loader:
  assumes "loader_inv l" "heap_inv evs l" "\<forall>ev. \<not> loader_enabled ev l" "phase l \<noteq> Failed"
  shows "phase l = Ready \<and> requested l = []"
proof -
  have "phase l \<noteq> Booting" using assms(3) loader_enabled.simps(1) by blast
  moreover have "phase l \<noteq> Importing" using assms(3) loader_enabled.simps(2) by blast
  moreover have r: "requested l = []"
    using assms(3) loader_enabled.simps(3) by (metis list.set_intros(1) neq_Nil_conv)
  moreover have "phase l \<noteq> Loading"
    using assms(2,3) r loader_enabled.simps(4) by (metis heap_inv_def list.simps(8))
  ultimately show ?thesis by (cases "phase l") (use assms(4) in auto)
qed

section \<open>Concrete runs\<close>

definition sample_boot :: jsval where
  "sample_boot = JObj [(''resources'', JObj [(''runtime'', JObj [(''dotnet.5.0.4.js'', JStr [])]),
     (''assembly'', JObj [(''a.dll'', JStr []), (''a.pdb'', JStr [])])])]"

definition sample_events :: "loader_event list" where
  "sample_events = [BootLoaded (XhrLoad 200 sample_boot) True, PreRun, Settled ''a.pdb'' (XhrLoad 404 None),
     Settled ''a.dll'' (XhrLoad 200 (Some [7, 8])), PostRun True]"

fun loader_run_ok :: "allocator \<Rightarrow> string \<Rightarrow> loader_event list \<Rightarrow> loader \<Rightarrow> bool" where
  "loader_run_ok malloc appRoot [] l = True"
| "loader_run_ok malloc appRoot (ev # evs) l =
     (loader_enabled ev l \<and> loader_run_ok malloc appRoot evs (loader_step malloc appRoot ev l))"

definition run_loader :: "allocator \<Rightarrow> string \<Rightarrow> loader_event list \<Rightarrow> loader \<Rightarrow> loader" where
  "run_loader malloc appRoot evs l = fold (loader_step malloc appRoot) evs l"

lemma loader_run_phase:
  "loader_run_ok malloc appRoot evs l \<Longrightarrow> phase l \<le> phase (run_loader malloc appRoot evs l)"
proof (induction evs arbitrary: l)
  case (Cons ev evs)
  then show ?case
    using order_trans [OF loader_step_phase [of ev l malloc appRoot]] by (fastforce simp: run_loader_def)
qed (simp add: run_loader_def)

lemma loader_trace_run:
  "loader_trace malloc appRoot h0 es l \<Longrightarrow> loader_run_ok malloc appRoot evs l \<Longrightarrow>
   loader_trace malloc appRoot h0 (es @ evs) (run_loader malloc appRoot evs l)"
proof (induction evs arbitrary: es l)
  case (Cons ev evs)
  then have "loader_trace malloc appRoot h0 (es @ [ev]) (loader_step malloc appRoot ev l)"
    by (auto intro: step_trace)
  from Cons.IH [OF this] Cons.prems(2) show ?case by (simp add: run_loader_def)
qed (simp add: run_loader_def)

definition sample_loader :: loader where
  "sample_loader = run_loader bump_malloc ''o'' sample_events (init_loader [1])"

lemma sample_ok: "loader_run_ok bump_malloc ''o'' sample_events (init_loader [1])"
  by code_simp

lemma sample_final:
  "phase sample_loader = Ready" "heap sample_loader = [1, 7, 8]"
  "assemblies sample_loader = [(''a.dll'', 1, 2)]" "outbox sample_loader = [ready_message]"
  "worker_log sample_loader = []" "stored sample_events = [(''a.dll'', [7, 8])]"
  by code_simp+

lemma sample_trace: "loader_trace bump_malloc ''o'' [1] sample_events sample_loader"
  using loader_trace_run [OF begin_trace sample_ok] by (simp add: sample_loader_def)


section \<open>Properties\<close>

text \<open>C29: The worker announces itself at most once, and only when every assembly has settled: in
  every state of every run, whatever malloc does and whichever requests fail, the ready message has
  been posted exactly if postRun has run; then no request and no run dependency is outstanding and
  self.onmessage forwards to F#, and before it self.onmessage drops every message.\<close>

theorem ready_after_assemblies:
  assumes "loader_trace malloc appRoot h0 evs l"
  shows "outbox l = (if phase l = Ready then [ready_message] else [])
    \<and> (if phase l = Ready then requested l = [] \<and> run_deps l = [] \<and> worker_receive m l = Some m
       else worker_receive m l = None)"
  using loader_trace_inv [OF assms] by (auto simp: loader_inv_def worker_receive_def)

theorem ready_after_assemblies_witness:
  "outbox sample_loader = [ready_message] \<and> requested sample_loader = []
   \<and> worker_receive JNull sample_loader = Some JNull"
  using ready_after_assemblies [OF sample_trace, of JNull] by (simp add: sample_final)

text \<open>C27: Every assembly that was downloaded stays intact in the WebAssembly heap: with an allocator
  as documented, in every state of every run the assemblies announced to Mono are exactly the
  downloads that succeeded, in the order of completion, each with an address and a length at which
  the heap holds its bytes, and loaded_files lists their names.\<close>

theorem assemblies_in_heap:
  assumes "loader_trace malloc appRoot h0 evs l" and "good_malloc malloc"
  shows "list_all2 (holds (heap l)) (stored evs) (assemblies l)
    \<and> loaded_files l = map fst (stored evs)"
proof -
  from loader_trace_heap [OF assms(2,1)] have h: "heap_inv evs l" .
  then have "list_all2 (holds (heap l)) (stored evs) (assemblies l)" by (simp add: heap_inv_def)
  moreover from this have "map fst (assemblies l) = map fst (stored evs)"
    by (induction rule: list_all2_induct) (auto simp: holds_def)
  ultimately show ?thesis using h by (simp add: heap_inv_def)
qed

theorem assemblies_in_heap_witness:
  "list_all2 (holds [1, 7, 8]) [(''a.dll'', [7, 8])] [(''a.dll'', 1, 2)]
   \<and> loaded_files sample_loader = [''a.dll'']"
  using assemblies_in_heap [OF sample_trace bump_malloc_good] by (simp add: sample_final)

text \<open>C28: With a well-formed manifest, which names a dotnet script, a sound allocator, a script that can be
  imported and a Mono that starts, the loader always gets ready: whatever the order in which the
  assembly requests settle and however many of them fail, no run has more than 3 + the number of
  assemblies events, and a run that cannot continue has settled every assembly once, has posted the
  ready message, and has reported exactly the failures that are not a 404 for a .pdb file.\<close>

theorem loader_always_ready:
  assumes "good_malloc malloc" and "good_manifest boot ks" and "booted_with boot evs"
    and "list_all sound_event evs" and "loader_trace malloc appRoot h0 evs l"
  shows "length evs \<le> 3 + length ks
    \<and> ((\<forall>ev. \<not> loader_enabled ev l) \<longrightarrow> phase l = Ready \<and> outbox l = [ready_message]
        \<and> mset (map fst (settlements evs)) = mset ks \<and> worker_log l = reported evs)"
proof -
  have p: "progress_inv boot ks evs l" using loader_trace_progress [OF assms(2,5)] assms(3,4) by blast
  have i: "loader_inv l" by (rule loader_trace_inv [OF assms(5)])
  have h: "heap_inv evs l" by (rule loader_trace_heap [OF assms(1,5)])
  have ne: "evs \<noteq> []" using assms(3) by (auto simp: booted_with_def)
  have "length (settlements evs) \<le> length ks"
    using p ne unfolding progress_inv_def
    by (metis le_add2 length_map list.size(3) size_mset size_union zero_le)
  then have "length evs \<le> 3 + length ks" using p by (auto simp: progress_inv_def)
  moreover have "phase l = Ready \<and> outbox l = [ready_message]
      \<and> mset (map fst (settlements evs)) = mset ks \<and> worker_log l = reported evs"
    if "\<forall>ev. \<not> loader_enabled ev l"
    using stuck_loader [OF i h that] p ne i h
    by (auto simp: progress_inv_def loader_inv_def heap_inv_def)
  ultimately show ?thesis by blast
qed

lemma sample_stuck: "\<not> loader_enabled ev sample_loader"
  using loader_trace_inv [OF sample_trace] by (cases ev) (auto simp: sample_final loader_inv_def)

theorem loader_always_ready_witness:
  "length sample_events \<le> 5 \<and> mset (map fst (settlements sample_events)) = {#''a.dll'', ''a.pdb''#}
   \<and> worker_log sample_loader = reported sample_events"
proof -
  have m: "good_manifest sample_boot [''a.dll'', ''a.pdb'']" "booted_with sample_boot sample_events"
    "list_all sound_event sample_events"
    by code_simp+
  show ?thesis
    using loader_always_ready [OF bump_malloc_good m sample_trace] sample_stuck by simp
qed

text \<open>A manifest that lists no dotnet script is not reported: find returns undefined, which the
  test against the empty string does not catch, so the loader imports the script
  .../blazor/undefined; the throw with the message about the missing file is never reached, whatever
  the manifest, and when this import fails nothing is posted and nothing is logged by the code.\<close>

theorem missing_dotnet_imports_undefined:
  assumes "loadJson e = Inr boot" and "runtime_keys boot = Some ks"
    and "\<forall>k\<in>set ks. \<not> (prefix ''dotnet.'' k \<and> suffix ''.js'' k)"
  shows "imported (boot_loaded appRoot e import_ok l) = imported l @ [appRoot @ ''/blazor/undefined'']
    \<and> worker_log (boot_loaded appRoot e import_ok l) = worker_log l
    \<and> outbox (boot_loaded appRoot e import_ok l) = outbox l
    \<and> phase (boot_loaded appRoot e import_ok l) = (if import_ok then Importing else Failed)"
proof -
  have "find_dotnetjs ks = None" using assms(3) by (auto simp: find_dotnetjs_def find_None_iff)
  then show ?thesis using assms(1,2) by (simp add: boot_loaded_def blazor_path_def)
qed

theorem missing_dotnet_imports_undefined_witness:
  "imported (boot_loaded ''https://darklang.com''
     (XhrLoad 200 (JObj [(''resources'', JObj [(''runtime'', JObj [(''dotnet.wasm'', JNull)])])])) False
     (init_loader [])) = [''https://darklang.com/blazor/undefined'']"
proof -
  let ?boot = "JObj [(''resources'', JObj [(''runtime'', JObj [(''dotnet.wasm'', JNull)])])]"
  have k: "loadJson (XhrLoad 200 ?boot) = Inr ?boot" "runtime_keys ?boot = Some [''dotnet.wasm'']"
    "\<forall>k\<in>set [''dotnet.wasm'']. \<not> (prefix ''dotnet.'' k \<and> suffix ''.js'' k)"
    by code_simp+
  show ?thesis
    using missing_dotnet_imports_undefined [OF k, of "''https://darklang.com''" False "init_loader []"]
    by (simp add: init_loader_def)
qed

end
