(* ===== verification/System.thy ===== *)
theory System
  imports AnalysisQueue BlazorLoader
begin

text \<open>
  The page and the Blazor worker together. The page runs the tasks of \<open>AnalysisQueue\<close>, the worker
  the events of \<open>BlazorLoader\<close> from the moment the page has created it; messages travel in order in
  both directions, and a message that reaches the worker while \<open>self.onmessage\<close> is unset is lost.
  What \<open>AnalysisQueue\<close> assumes of its worker (it announces itself once, after its creation and
  before it answers) is proved here of the loader.
\<close>

record system =
  page :: dark
  wk :: loader
  loader_events :: "loader_event list"
  to_page :: "jsval list"
  received :: "jsval list"
  lost :: "jsval list"

definition init_system :: "jsval \<Rightarrow> byte list \<Rightarrow> system" where
  "init_system param h0 = \<lparr>page = init_dark param, wk = init_loader h0, loader_events = [],
     to_page = [], received = [], lost = []\<rparr>"

fun page_side :: "dark_task \<Rightarrow> bool" where
  "page_side BlazorReady = False"
| "page_side (BlazorAnswer r now rs) = False"
| "page_side _ = True"

definition worker_event :: "allocator \<Rightarrow> string \<Rightarrow> loader_event \<Rightarrow> system \<Rightarrow> system" where
  "worker_event malloc appRoot ev s =
     (let l = loader_step malloc appRoot ev (wk s)
      in s\<lparr>wk := l, loader_events := loader_events s @ [ev],
           to_page := to_page s @ drop (length (outbox (wk s))) (outbox l)\<rparr>)"

definition deliver :: "system \<Rightarrow> system" where
  "deliver s =
     (let m = fsharp_history (page s) ! (length (received s) + length (lost s))
      in case worker_receive m (wk s) of
           Some x \<Rightarrow> s\<lparr>received := received s @ [x]\<rparr>
         | None \<Rightarrow> s\<lparr>lost := lost s @ [m]\<rparr>)"

inductive sys_steps ::
  "(jsval \<Rightarrow> string) \<Rightarrow> decoder \<Rightarrow> allocator \<Rightarrow> string \<Rightarrow> byte list \<Rightarrow> jsval \<Rightarrow> system \<Rightarrow> bool"
  for enc :: "jsval \<Rightarrow> string" and dec :: decoder and malloc :: allocator and appRoot :: string
    and h0 :: "byte list" and param :: jsval where
  sys_start: "sys_steps enc dec malloc appRoot h0 param (init_system param h0)"
| sys_page: "sys_steps enc dec malloc appRoot h0 param s \<Longrightarrow> page_side t \<Longrightarrow> enabled t (page s) \<Longrightarrow>
     sys_steps enc dec malloc appRoot h0 param (s\<lparr>page := fst (run_task enc dec t (page s))\<rparr>)"
| sys_worker: "sys_steps enc dec malloc appRoot h0 param s \<Longrightarrow> blazorWorker (page s) \<noteq> None \<Longrightarrow>
     loader_enabled ev (wk s) \<Longrightarrow>
     sys_steps enc dec malloc appRoot h0 param (worker_event malloc appRoot ev s)"
| sys_message: "sys_steps enc dec malloc appRoot h0 param s \<Longrightarrow> to_page s = m # ms \<Longrightarrow>
     sys_steps enc dec malloc appRoot h0 param
       (s\<lparr>to_page := ms, page := fst (blazor_onmessage enc dec m now rs (page s))\<rparr>)"
| sys_deliver: "sys_steps enc dec malloc appRoot h0 param s \<Longrightarrow>
     length (received s) + length (lost s) < length (fsharp_history (page s)) \<Longrightarrow>
     sys_steps enc dec malloc appRoot h0 param (deliver s)"
| sys_answer: "sys_steps enc dec malloc appRoot h0 param s \<Longrightarrow> blazorWorker (page s) = Some c \<Longrightarrow>
     answered c < length (received s) \<Longrightarrow> r \<noteq> ready_message \<Longrightarrow>
     sys_steps enc dec malloc appRoot h0 param
       (s\<lparr>page := fst (blazor_answer enc dec r now rs (page s))\<rparr>)"

inductive_cases sys_stepsE: "sys_steps enc dec malloc appRoot h0 param s"

section \<open>The page before and after the announcement\<close>

lemma request_initialized [simp]:
  "fsharp_initialized (fst (request_analysis enc p d)) = fsharp_initialized d"
  by (auto simp: request_analysis_def fsharp_request_def fsharp_enqueue_eq ocaml_request_def emit_def
      Let_def split: option.split)

lemma listeners_initialized [simp]:
  "fsharp_initialized (requests_from_listeners enc rs d) = fsharp_initialized d"
  by (induction rs arbitrary: d) (simp_all add: requests_from_listeners_def)

lemma task_initialized:
  "t \<noteq> BlazorReady \<Longrightarrow> enabled t d \<Longrightarrow>
   fsharp_initialized (fst (run_task enc dec t d)) = fsharp_initialized d"
proof (cases t)
  case FsharpTimer
  then show ?thesis by (auto simp: fsharp_timer_def fsharp_request_def fsharp_enqueue_eq emit_def Let_def
      split: list.split option.split)
next
  case OcamlTimer
  then show ?thesis by (auto simp: ocaml_timer_def ocaml_request_def emit_def Let_def
      split: list.split option.split)
next
  case (OcamlAnswer r now rs)
  then show ?thesis by (simp add: ocaml_answer_def emit_def Let_def)
next
  case (BlazorAnswer r now rs)
  assume "enabled t d"
  then show ?thesis using BlazorAnswer
    by (auto simp: blazor_answer_def blazor_onmessage_def fsharp_callback_def emit_def Let_def
        blazor_postMessage_def split: sum.split option.split)
qed (auto simp: ocaml_worker_loaded_def initializeBlazorWorker_def blazor_initWorker_def)

text \<open>What a task may do to the messages of the Blazor worker: post more, once the worker has
  announced itself.\<close>

definition grows :: "dark \<Rightarrow> dark \<Rightarrow> bool" where
  "grows d d' \<longleftrightarrow> prefix (fsharp_history d) (fsharp_history d')
     \<and> (fsharp_initialized d \<or> fsharp_history d' = fsharp_history d)
     \<and> (blazorWorker d \<noteq> None \<longrightarrow> blazorWorker d' \<noteq> None)"

lemma grows_same: "blazorWorker d' = blazorWorker d \<Longrightarrow> grows d d'"
  by (simp add: grows_def fsharp_history_def)

lemma grows_post:
  "fsharp_initialized d \<Longrightarrow> blazorWorker d = Some c \<Longrightarrow> blazorWorker d' = Some (post x c) \<Longrightarrow> grows d d'"
  by (simp add: grows_def fsharp_history_def post_def)

lemma request_grows: "grows d (fst (request_analysis enc p d))"
  by (auto simp: request_analysis_def fsharp_request_def fsharp_enqueue_eq ocaml_request_def emit_def
      Let_def intro: grows_same grows_post split: option.split)

lemma timer_grows: "grows d (fst (fsharp_timer enc d))"
  by (auto simp: fsharp_timer_def fsharp_request_def fsharp_enqueue_eq emit_def Let_def
      intro: grows_same grows_post split: list.split option.split)

lemma task_grows:
  assumes "fsharp_inv False d" "ocaml_inv d" "enabled t d"
  shows "grows d (fst (run_task enc dec t d))"
proof (cases t)
  case (Request p)
  then show ?thesis by (simp add: request_grows)
next
  case OcamlTimer
  then show ?thesis by (auto simp: ocaml_timer_def ocaml_request_def emit_def Let_def intro: grows_same
      split: list.split option.split)
next
  case FsharpTimer
  then show ?thesis by (simp add: timer_grows)
next
  case OcamlLoaded
  then show ?thesis by (simp add: grows_same ocaml_worker_loaded_def)
next
  case BlazorInit
  then show ?thesis using assms(3)
    by (auto simp: initializeBlazorWorker_def blazor_initWorker_def grows_def fsharp_history_def new_channel_def)
next
  case BlazorReady
  then show ?thesis by (simp add: grows_same blazor_onmessage_def initializedCallback_def emit_def)
next
  case (OcamlAnswer r now rs)
  then obtain c where "analysisWorker d = Some c" "in_flight c \<noteq> []"
    using assms(3) by (auto split: option.splits)
  then show ?thesis using OcamlAnswer by (simp add: ocaml_answer_eq [OF assms(2)] grows_same)
next
  case (BlazorAnswer r now rs)
  then obtain c where c: "blazorWorker d = Some c" "in_flight c \<noteq> []" "r \<noteq> ready_message"
    using assms(3) by (auto split: option.splits)
  then have "fsharp_initialized d" using assms(1) by (auto simp: fsharp_inv_def split: if_splits)
  then show ?thesis using BlazorAnswer c
    by (auto simp: blazor_answer_eq [OF assms(1) c] grows_def fsharp_history_def Let_def post_def answer_def
        split: sum.split)
qed

section \<open>What the two keep true together\<close>

definition sys_inv :: "system \<Rightarrow> bool" where
  "sys_inv s \<longleftrightarrow> lost s = []
     \<and> received s = take (length (received s)) (fsharp_history (page s))
     \<and> (if fsharp_initialized (page s) then phase (wk s) = Ready \<and> to_page s = []
        else fsharp_history (page s) = [] \<and> to_page s = (if phase (wk s) = Ready then [ready_message] else []))
     \<and> (blazorWorker (page s) = None \<longrightarrow> phase (wk s) = Booting)"

definition sys_refines ::
  "(jsval \<Rightarrow> string) \<Rightarrow> decoder \<Rightarrow> allocator \<Rightarrow> string \<Rightarrow> byte list \<Rightarrow> jsval \<Rightarrow> system \<Rightarrow> bool" where
  "sys_refines enc dec malloc appRoot h0 param s \<longleftrightarrow> dark_reach enc dec param (page s)
     \<and> loader_trace malloc appRoot h0 (loader_events s) (wk s)"

lemma sys_inv_page:
  assumes "sys_inv s" "grows (page s) d" "fsharp_initialized d = fsharp_initialized (page s)"
  shows "sys_inv (s\<lparr>page := d\<rparr>)"
proof -
  obtain xs where xs: "fsharp_history d = fsharp_history (page s) @ xs"
    using assms(2) by (auto simp: grows_def prefix_def)
  have "length (received s) \<le> length (fsharp_history (page s))"
    using assms(1) by (metis length_take min.cobounded1 min.commute sys_inv_def)
  then show ?thesis using assms xs by (auto simp: sys_inv_def grows_def)
qed

lemma loader_ready_stays:
  "loader_inv l \<Longrightarrow> phase l = Ready \<Longrightarrow> \<not> loader_enabled ev l"
  by (cases ev) (auto simp: loader_inv_def)

lemma sys_worker_inv:
  assumes "sys_inv s" "loader_inv (wk s)" "blazorWorker (page s) \<noteq> None" "loader_enabled ev (wk s)"
  shows "sys_inv (worker_event malloc appRoot ev s)"
proof -
  let ?l = "loader_step malloc appRoot ev (wk s)"
  have nr: "phase (wk s) \<noteq> Ready" using loader_ready_stays assms(2,4) by blast
  have "loader_inv ?l" using assms(2,4)
    by (cases ev) (auto intro: boot_loaded_inv preRun_inv assembly_settled_inv postRun_inv)
  then have "outbox ?l = (if phase ?l = Ready then [ready_message] else [])" "outbox (wk s) = []"
    using assms(2) nr by (auto simp: loader_inv_def)
  then show ?thesis using assms(1,3) nr by (auto simp: sys_inv_def worker_event_def Let_def split: if_splits)
qed

lemma sys_deliver_inv:
  assumes "sys_inv s" "loader_inv (wk s)"
    "length (received s) + length (lost s) < length (fsharp_history (page s))"
  shows "sys_inv (deliver s)"
proof -
  have l: "lost s = []" and i: "fsharp_initialized (page s)" "phase (wk s) = Ready"
    using assms by (auto simp: sys_inv_def split: if_splits)
  have "worker_receive m (wk s) = Some m" for m
    using assms(2) i by (simp add: worker_receive_def loader_inv_def)
  then show ?thesis using assms l by (auto simp: sys_inv_def deliver_def take_Suc_conv_app_nth)
qed

lemma sys_steps_inv:
  "sys_steps enc dec malloc appRoot h0 param s \<Longrightarrow>
   sys_inv s \<and> sys_refines enc dec malloc appRoot h0 param s"
proof (induction rule: sys_steps.induct)
  case sys_start
  show ?case
    by (auto simp: sys_inv_def sys_refines_def init_system_def fsharp_history_def init_dark_def
        init_loader_def [of h0] intro: dark_steps.start begin_trace [unfolded init_loader_def])
next
  case (sys_page s t)
  then have i: "sys_inv s" and r: "dark_reach enc dec param (page s)"
    and l: "loader_trace malloc appRoot h0 (loader_events s) (wk s)" by (auto simp: sys_refines_def)
  have t: "t \<noteq> BlazorReady" using sys_page.hyps(2) by auto
  have "grows (page s) (fst (run_task enc dec t (page s)))"
    using reach_inv [OF r] sys_page.hyps(3) by (intro task_grows) auto
  then have "sys_inv (s\<lparr>page := fst (run_task enc dec t (page s))\<rparr>)"
    using i t sys_page.hyps(3) task_initialized by (intro sys_inv_page) auto
  then show ?case using l dark_steps.task [OF r sys_page.hyps(3)] by (simp add: sys_refines_def)
next
  case (sys_worker s ev)
  then have i: "sys_inv s" and r: "dark_reach enc dec param (page s)"
    and l: "loader_trace malloc appRoot h0 (loader_events s) (wk s)" by (auto simp: sys_refines_def)
  show ?case using sys_worker_inv [OF i loader_trace_inv [OF l] sys_worker.hyps(2,3)] r
      step_trace [OF l sys_worker.hyps(3)]
    by (simp add: sys_refines_def worker_event_def Let_def)
next
  case (sys_message s m ms now rs)
  then have i: "sys_inv s" and r: "dark_reach enc dec param (page s)"
    and l: "loader_trace malloc appRoot h0 (loader_events s) (wk s)" by (auto simp: sys_refines_def)
  have m: "m = ready_message" "ms = []" "\<not> fsharp_initialized (page s)" "phase (wk s) = Ready"
    "blazorWorker (page s) \<noteq> None"
    using i sys_message.hyps(2) by (auto simp: sys_inv_def split: if_splits)
  have e: "enabled BlazorReady (page s)" using m by simp
  have "fst (blazor_onmessage enc dec m now rs (page s)) = fst (run_task enc dec BlazorReady (page s))"
    by (simp add: m blazor_onmessage_def)
  then show ?case using i m l dark_steps.task [OF r e]
    by (auto simp: sys_refines_def sys_inv_def blazor_onmessage_def initializedCallback_def emit_def
        fsharp_history_def)
next
  case (sys_deliver s)
  then have i: "sys_inv s" and r: "sys_refines enc dec malloc appRoot h0 param s" by auto
  then have l: "loader_inv (wk s)" using loader_trace_inv by (auto simp: sys_refines_def)
  show ?case using sys_deliver_inv [OF i l sys_deliver.hyps(2)] r
    by (auto simp: sys_refines_def deliver_def Let_def split: option.split)
next
  case (sys_answer s c r now rs)
  then have i: "sys_inv s" and d: "dark_reach enc dec param (page s)"
    and l: "loader_trace malloc appRoot h0 (loader_events s) (wk s)" by (auto simp: sys_refines_def)
  have "length (received s) \<le> length (posted c)"
    using i sys_answer.hyps(2) by (metis fsharp_history_def length_take min.cobounded1 min.commute option.simps(5) sys_inv_def)
  then have e: "enabled (BlazorAnswer r now rs) (page s)"
    using sys_answer.hyps(2-4) by (simp add: in_flight_def)
  have "grows (page s) (fst (run_task enc dec (BlazorAnswer r now rs) (page s)))"
    using reach_inv [OF d] e by (intro task_grows) auto
  then have "sys_inv (s\<lparr>page := fst (run_task enc dec (BlazorAnswer r now rs) (page s))\<rparr>)"
    using i e task_initialized [of "BlazorAnswer r now rs" "page s"] by (intro sys_inv_page) auto
  then show ?case using l dark_steps.task [OF d e] by (simp add: sys_refines_def)
qed

section \<open>A concrete run\<close>

definition page_task :: "dark_task \<Rightarrow> system \<Rightarrow> system" where
  "page_task t s = s\<lparr>page := fst (run_task (\<lambda>_. ''{}'') Inr t (page s))\<rparr>"

definition announce :: "system \<Rightarrow> system" where
  "announce s = (case to_page s of [] \<Rightarrow> s
     | m # ms \<Rightarrow> s\<lparr>to_page := ms, page := fst (blazor_onmessage (\<lambda>_. ''{}'') Inr m 0 [] (page s))\<rparr>)"

abbreviation sample_steps :: "system \<Rightarrow> bool" where
  "sample_steps \<equiv> sys_steps (\<lambda>_. ''{}'') Inr bump_malloc ''o'' [1] (JStr ''1'')"

lemma worker_run_steps:
  "sys_steps enc dec malloc appRoot h0 param s \<Longrightarrow> blazorWorker (page s) \<noteq> None \<Longrightarrow>
   loader_run_ok malloc appRoot evs (wk s) \<Longrightarrow>
   sys_steps enc dec malloc appRoot h0 param (fold (worker_event malloc appRoot) evs s)"
proof (induction evs arbitrary: s)
  case (Cons ev evs)
  then have "sys_steps enc dec malloc appRoot h0 param (worker_event malloc appRoot ev s)"
    by (auto intro: sys_worker)
  then show ?case using Cons.IH [of "worker_event malloc appRoot ev s"] Cons.prems
    by (simp add: worker_event_def Let_def)
qed simp

text \<open>A request before the worker is ready, the worker's start, the announcement, the retry of the
  request, and its delivery.\<close>

definition sample_system1 :: system where
  "sample_system1 = page_task (Request (JNum 3)) (page_task BlazorInit (init_system (JStr ''1'') [1]))"

definition sample_system2 :: system where
  "sample_system2 = announce (fold (worker_event bump_malloc ''o'') sample_events sample_system1)"

definition sample_system :: system where
  "sample_system = deliver (page_task FsharpTimer sample_system2)"

lemma sample_steps1: "sample_steps sample_system1"
proof -
  have "sample_steps (page_task BlazorInit (init_system (JStr ''1'') [1]))"
    unfolding page_task_def by (rule sys_page [OF sys_start]) (simp_all add: init_system_def init_dark_def)
  then show ?thesis unfolding sample_system1_def page_task_def by (rule sys_page) simp_all
qed

lemma sample_steps2: "sample_steps sample_system2"
proof -
  let ?s = "fold (worker_event bump_malloc ''o'') sample_events sample_system1"
  have "blazorWorker (page sample_system1) \<noteq> None" by code_simp
  moreover have "wk sample_system1 = init_loader [1]"
    by (simp add: sample_system1_def page_task_def init_system_def)
  ultimately have s: "sample_steps ?s" using sample_steps1 sample_ok by (intro worker_run_steps) simp_all
  then show ?thesis unfolding sample_system2_def announce_def
    by (auto split: list.split intro: sys_message)
qed

lemma sample_computed:
  "fsharp_timers (page sample_system2) \<noteq> []"
  "received (page_task FsharpTimer sample_system2) = []"
  "lost (page_task FsharpTimer sample_system2) = []"
  "fsharp_history (page (page_task FsharpTimer sample_system2)) = [JStr ''{}'']"
  "fsharp_history (page sample_system) = [JStr ''{}'']"
  "received sample_system = [JStr ''{}'']"
  by code_simp+

lemma sample_steps_final: "sample_steps sample_system"
proof -
  have "sample_steps (page_task FsharpTimer sample_system2)"
    unfolding page_task_def by (rule sys_page [OF sample_steps2]) (use sample_computed(1) in simp_all)
  then show ?thesis unfolding sample_system_def
    by (rule sys_deliver) (simp add: sample_computed)
qed

end
