(* ===== verification/AstPositions.thy ===== *)
theory AstPositions
  imports Dark_Prelude
begin

text \<open>
  \<open>window.Dark.ast.positions\<close> of \<open>client/src/appsupport.js\<close>: the ids and screen rectangles of the
  blank-or elements of a toplevel. The regular expression is the backtracking matcher ECMAScript
  defines for it, the coordinates are rationals (finite doubles), and an element is its class
  attribute, its rectangle and, for a toplevel, its descendants in document order. Class
  attributes are strings of Latin-1 characters.
\<close>

section \<open>The regular expression\<close>

text \<open>\<open>\s\<close> and the line terminators \<open>.\<close> does not match, in Latin-1.\<close>

definition re_space :: "char \<Rightarrow> bool" where
  "re_space c = (of_char c \<in> {9 :: nat, 10, 11, 12, 13, 32, 160})"

definition line_terminator :: "char \<Rightarrow> bool" where
  "line_terminator c = (of_char c \<in> {10 :: nat, 13})"

text \<open>\<open>id-(\S+)\<close> at the head of the text: the group is the longest run, and what follows it,
  \<open>.*\<close>, always matches.\<close>

definition match_id :: "string \<Rightarrow> string option" where
  "match_id s = (if prefix ''id-'' s
     then (let w = takeWhile (\<lambda>c. \<not> re_space c) (drop 3 s) in if w = [] then None else Some w)
     else None)"

text \<open>\<open>.*id-(\S+).*\<close> at the head of the text: the greedy \<open>.*\<close> first takes one character more, and
  gives it back when the rest does not match.\<close>

fun match_dots :: "string \<Rightarrow> string option" where
  "match_dots [] = match_id []"
| "match_dots (c # cs) =
     (if line_terminator c then match_id (c # cs)
      else (case match_dots cs of Some w \<Rightarrow> Some w | None \<Rightarrow> match_id (c # cs)))"

text \<open>\<open>/.*id-(\S+).*/g.exec(s)\<close> on a fresh expression tries every start from 0 on; the result is
  \<open>matches[1]\<close>, or \<open>None\<close> for \<open>null\<close>.\<close>

fun exec_id :: "string \<Rightarrow> string option" where
  "exec_id [] = match_dots []"
| "exec_id (c # cs) =
     (case match_dots (c # cs) of Some w \<Rightarrow> Some w | None \<Rightarrow> exec_id cs)"

section \<open>Elements\<close>

record rect =
  left :: rat
  right :: rat
  top :: rat
  bottom :: rat

record element =
  className :: string
  bounds :: rect

record toplevel =
  tl_class :: string
  descendants :: "element list"

record atom =
  atom_id :: string
  atom_left :: string
  atom_right :: string
  atom_top :: string
  atom_bottom :: string

datatype ast_error =
    NullMatch
  | ThrownString string

text \<open>\<open>matches[1]\<close> on \<open>null\<close> is a \<open>TypeError\<close>; the group takes part in every match, so the test for
  \<open>undefined\<close> never holds.\<close>

definition extractId :: "element \<Rightarrow> ast_error + string" where
  "extractId elem = (case exec_id (className elem) of None \<Rightarrow> Inl NullMatch | Some w \<Rightarrow> Inr w)"

text \<open>\<open>"" + (x | 0)\<close>: \<open>ToInt32\<close>, then the decimal string.\<close>

definition to_int32_rat :: "rat \<Rightarrow> int" where
  "to_int32_rat q = sint (word_of_int (js_trunc q) :: 32 word)"

definition coordinate :: "rat \<Rightarrow> string" where
  "coordinate q = decimal_int (to_int32_rat q)"

text \<open>The class list of an attribute: its tokens between ASCII white space.\<close>

definition ascii_space :: "char \<Rightarrow> bool" where
  "ascii_space c = (of_char c \<in> {9 :: nat, 10, 12, 13, 32})"

fun class_tokens :: "string \<Rightarrow> string \<Rightarrow> string list" where
  "class_tokens acc [] = (if acc = [] then [] else [acc])"
| "class_tokens acc (c # cs) =
     (if ascii_space c then (if acc = [] then [] else [acc]) @ class_tokens [] cs
      else class_tokens (acc @ [c]) cs)"

definition has_class :: "string \<Rightarrow> string \<Rightarrow> bool" where
  "has_class c attr = (c \<in> set (class_tokens [] attr))"

text \<open>The selectors \<open>.blankOr.nested\<close> and \<open>.blankOr:not(.nested)\<close>.\<close>

definition selected :: "bool \<Rightarrow> element \<Rightarrow> bool" where
  "selected nested v = (has_class ''blankOr'' (className v)
     \<and> (if nested then has_class ''nested'' (className v) else \<not> has_class ''nested'' (className v)))"

definition atom_of :: "element \<Rightarrow> ast_error + atom" where
  "atom_of v = (case extractId v of
       Inl e \<Rightarrow> Inl e
     | Inr i \<Rightarrow> (let r = bounds v in Inr \<lparr>atom_id = i, atom_left = coordinate (left r),
         atom_right = coordinate (right r), atom_top = coordinate (top r),
         atom_bottom = coordinate (bottom r)\<rparr>))"

fun push_atoms :: "element list \<Rightarrow> ast_error + atom list" where
  "push_atoms [] = Inr []"
| "push_atoms (v # vs) = (case atom_of v of
       Inl e \<Rightarrow> Inl e
     | Inr a \<Rightarrow> (case push_atoms vs of Inl e \<Rightarrow> Inl e | Inr as \<Rightarrow> Inr (a # as)))"

definition find_atoms :: "toplevel \<Rightarrow> bool \<Rightarrow> ast_error + atom list" where
  "find_atoms t nested = push_atoms (filter (selected nested) (descendants t))"

text \<open>\<open>document.getElementsByClassName("toplevel tl-" + tlid)\<close>.\<close>

definition toplevels_of :: "toplevel list \<Rightarrow> string \<Rightarrow> toplevel list" where
  "toplevels_of doc tlid = filter (\<lambda>t. \<forall>c \<in> set (class_tokens [] (''toplevel tl-'' @ tlid)).
     has_class c (tl_class t)) doc"

definition positions :: "toplevel list \<Rightarrow> string \<Rightarrow> ast_error + (atom list \<times> atom list)" where
  "positions doc tlid =
     (case toplevels_of doc tlid of
        [] \<Rightarrow> Inl (ThrownString (''Dark.ast.atomPositions: Cannot find toplevel: '' @ tlid))
      | t # _ \<Rightarrow>
          (case find_atoms t False of
             Inl e \<Rightarrow> Inl e
           | Inr atoms \<Rightarrow>
               (case find_atoms t True of Inl e \<Rightarrow> Inl e | Inr nested \<Rightarrow> Inr (atoms, nested))))"

section \<open>The matcher finds the last occurrence\<close>

text \<open>An occurrence of the expression's core: an \<open>id-\<close> with a maximal non-empty run after it.\<close>

definition id_at :: "string \<Rightarrow> string \<Rightarrow> string \<Rightarrow> bool" where
  "id_at s pre w \<longleftrightarrow> (\<exists>post. s = pre @ ''id-'' @ w @ post \<and> w \<noteq> [] \<and> (\<forall>c\<in>set w. \<not> re_space c)
     \<and> (post = [] \<or> re_space (hd post)))"

lemma match_id_iff: "match_id s = Some w \<longleftrightarrow> id_at s [] w"
proof
  assume m: "match_id s = Some w"
  then obtain t where t: "s = ''id-'' @ t" "w = takeWhile (\<lambda>c. \<not> re_space c) t" "w \<noteq> []"
    by (auto simp: match_id_def Let_def prefix_def split: if_splits)
  have "t = w @ dropWhile (\<lambda>c. \<not> re_space c) t" by (simp add: t(2))
  moreover have "\<forall>c\<in>set w. \<not> re_space c" unfolding t(2) by (auto dest: set_takeWhileD)
  moreover have "dropWhile (\<lambda>c. \<not> re_space c) t = [] \<or> re_space (hd (dropWhile (\<lambda>c. \<not> re_space c) t))"
    using hd_dropWhile [of "\<lambda>c. \<not> re_space c" t] by auto
  ultimately show "id_at s [] w" using t(1,3) unfolding id_at_def by auto
next
  assume "id_at s [] w"
  then obtain post where p: "s = ''id-'' @ w @ post" "w \<noteq> []" "\<forall>c\<in>set w. \<not> re_space c"
    "post = [] \<or> re_space (hd post)" by (auto simp: id_at_def)
  then have "takeWhile (\<lambda>c. \<not> re_space c) (w @ post) = w"
    by (cases post) (simp_all add: takeWhile_append2)
  then show "match_id s = Some w" using p(1,2) by (simp add: match_id_def Let_def)
qed

lemma match_id_None: "match_id s = None \<longleftrightarrow> (\<forall>w. \<not> id_at s [] w)"
  using match_id_iff [of s] by (metis not_None_eq)

lemma id_at_Cons: "id_at (c # cs) (d # pre) w \<longleftrightarrow> c = d \<and> id_at cs pre w"
  by (auto simp: id_at_def)

lemma id_at_length: "id_at s pre w \<Longrightarrow> length pre < length s"
  by (auto simp: id_at_def)

definition last_id :: "string \<Rightarrow> string \<Rightarrow> bool" where
  "last_id s w \<longleftrightarrow> (\<exists>pre. id_at s pre w \<and> (\<forall>pre' w'. id_at s pre' w' \<longrightarrow> length pre' \<le> length pre))"

lemma last_id_id_at: "last_id s w \<Longrightarrow> \<exists>pre. id_at s pre w"
  by (auto simp: last_id_def)

lemma last_id_exists:
  assumes "id_at s p u"
  shows "\<exists>w. last_id s w"
proof -
  have "\<exists>x. id_at s (fst x) (snd x) \<and> (\<forall>y. id_at s (fst y) (snd y) \<longrightarrow> length (fst y) \<le> length (fst x))"
    by (rule ex_has_greatest_nat [where b = "length s" and k = "(p, u)"])
      (use assms in \<open>auto dest: id_at_length\<close>)
  then obtain x where x: "id_at s (fst x) (snd x)"
    "\<And>y. id_at s (fst y) (snd y) \<Longrightarrow> length (fst y) \<le> length (fst x)" by blast
  have "length q \<le> length (fst x)" if "id_at s q v" for q v using x(2) [of "(q, v)"] that by simp
  then show ?thesis using x(1) unfolding last_id_def by blast
qed

lemma last_id_Cons:
  "last_id (c # cs) w \<longleftrightarrow>
     last_id cs w \<or> ((\<forall>p u. \<not> id_at cs p u) \<and> id_at (c # cs) [] w)"
proof (cases "\<exists>p u. id_at cs p u")
  case True
  then obtain v where "last_id cs v" using last_id_exists by blast
  then obtain pre where p: "id_at cs pre v" "\<And>pre' w'. id_at cs pre' w' \<Longrightarrow> length pre' \<le> length pre"
    by (auto simp: last_id_def)
  have up: "id_at (c # cs) (c # pre) v" using p(1) by (simp add: id_at_Cons)
  show ?thesis
  proof
    assume "last_id (c # cs) w"
    then obtain q where q: "id_at (c # cs) q w" "\<And>pre' w'. id_at (c # cs) pre' w' \<Longrightarrow> length pre' \<le> length q"
      by (auto simp: last_id_def)
    from q(2) [OF up] q(1) obtain q' where q': "q = c # q'" "id_at cs q' w"
      by (cases q) (auto simp: id_at_Cons)
    have "length pre' \<le> length q'" if "id_at cs pre' w'" for pre' w'
      using q(2) [of "c # pre'" w'] that q'(1) by (simp add: id_at_Cons)
    then show "last_id cs w \<or> ((\<forall>p u. \<not> id_at cs p u) \<and> id_at (c # cs) [] w)"
      using q'(2) unfolding last_id_def by blast
  next
    assume "last_id cs w \<or> ((\<forall>p u. \<not> id_at cs p u) \<and> id_at (c # cs) [] w)"
    then obtain q where q: "id_at cs q w" "\<And>pre' w'. id_at cs pre' w' \<Longrightarrow> length pre' \<le> length q"
      using True by (auto simp: last_id_def)
    have "length pre' \<le> length (c # q)" if "id_at (c # cs) pre' w'" for pre' w'
      using that q(2) by (cases pre') (auto simp: id_at_Cons)
    moreover have "id_at (c # cs) (c # q) w" using q(1) by (simp add: id_at_Cons)
    ultimately show "last_id (c # cs) w" unfolding last_id_def by blast
  qed
next
  case False
  then have i: "id_at (c # cs) q u \<longleftrightarrow> q = [] \<and> id_at (c # cs) [] u" for q u
    by (cases q) (auto simp: id_at_Cons)
  have "last_id (c # cs) w \<longleftrightarrow> id_at (c # cs) [] w"
    unfolding last_id_def using i by (metis eq_imp_le)
  then show ?thesis using False last_id_id_at by blast
qed

lemma last_id_unique: "last_id s w \<Longrightarrow> last_id s v \<Longrightarrow> v = w"
proof (induction s)
  case Nil
  then show ?case by (auto simp: last_id_def id_at_def)
next
  case (Cons c cs)
  then show ?case unfolding last_id_Cons [of c cs]
    by (metis last_id_id_at match_id_iff option.inject)
qed

text \<open>On one line the matcher returns the run after the last occurrence.\<close>

lemma match_dots_last:
  "\<forall>c\<in>set s. \<not> line_terminator c \<Longrightarrow> match_dots s = Some w \<longleftrightarrow> last_id s w"
proof (induction s arbitrary: w)
  case Nil
  then show ?case by (auto simp: match_id_def id_at_def last_id_def)
next
  case (Cons c cs)
  then have nt: "\<not> line_terminator c" and IH: "\<And>w. match_dots cs = Some w \<longleftrightarrow> last_id cs w" by auto
  show ?case
  proof (cases "match_dots cs")
    case None
    then have "\<forall>p u. \<not> id_at cs p u" "\<not> last_id cs w"
      using IH last_id_exists by (metis option.distinct(1))+
    then show ?thesis using nt None by (simp add: last_id_Cons match_id_iff)
  next
    case (Some v)
    then have "last_id cs v" using IH by simp
    then show ?thesis using nt Some last_id_id_at [of cs v] last_id_unique [of cs v w]
      by (auto simp: last_id_Cons)
  qed
qed

lemma exec_id_line: "\<forall>c\<in>set s. \<not> line_terminator c \<Longrightarrow> exec_id s = match_dots s"
  by (induction s) (auto split: option.split)

section \<open>Properties\<close>

text \<open>C39: On a one-line class attribute extractId returns the text after the last "id-" that is
  followed by a non-space, up to the next white space, and raises the TypeError of indexing null,
  never its own error message, exactly when there is none.\<close>

theorem extractId_last_id:
  assumes "\<forall>c\<in>set (className v). \<not> line_terminator c"
  shows "(extractId v = Inr w \<longleftrightarrow> last_id (className v) w)
    \<and> (extractId v = Inl e \<longleftrightarrow> e = NullMatch \<and> (\<forall>pre w. \<not> id_at (className v) pre w))"
proof -
  let ?s = "className v"
  have m: "exec_id ?s = Some u \<longleftrightarrow> last_id ?s u" for u
    using match_dots_last [OF assms] by (simp add: exec_id_line [OF assms])
  then have "exec_id ?s = None \<longleftrightarrow> (\<forall>pre w. \<not> id_at ?s pre w)"
    using last_id_exists [of ?s] last_id_id_at [of ?s] by (metis not_None_eq)
  then show ?thesis using m by (cases "exec_id ?s") (auto simp: extractId_def simp flip: m)
qed

theorem extractId_last_id_witness:
  "extractId \<lparr>className = ''blankOr id-12 invalid-name'', bounds = \<lparr>left = 0, right = 1, top = 0, bottom = 1\<rparr>\<rparr> = Inr ''name''
   \<and> last_id ''blankOr id-12 invalid-name'' ''name''"
proof -
  let ?v = "\<lparr>className = ''blankOr id-12 invalid-name'', bounds = \<lparr>left = 0, right = 1, top = 0, bottom = 1\<rparr>\<rparr>"
  have l: "\<forall>c\<in>set (className ?v). \<not> line_terminator c" by (simp add: line_terminator_def)
  have "exec_id ''blankOr id-12 invalid-name'' = Some ''name''" by code_simp
  then have "extractId ?v = Inr ''name''" by (simp add: extractId_def)
  then show ?thesis using extractId_last_id [OF l, of "''name''"] by simp
qed

lemma js_trunc_dist: "\<bar>rat_of_int (js_trunc q) - q\<bar> < 1"
  by (cases "0 \<le> q") (simp_all add: js_trunc_def abs_less_iff, linarith+)

lemma to_int32_small: "- (2 ^ 31) \<le> js_trunc q \<Longrightarrow> js_trunc q < 2 ^ 31 \<Longrightarrow> to_int32_rat q = js_trunc q"
  by (simp add: to_int32_rat_def sint_sbintrunc' signed_take_bit_int_eq_self)

lemma push_atoms_ok:
  "push_atoms vs = Inr as \<Longrightarrow> list_all2 (\<lambda>v a. atom_of v = Inr a) vs as"
  by (induction vs arbitrary: as) (auto split: sum.splits)

lemma push_atoms_error: "push_atoms vs = Inl e \<Longrightarrow> \<exists>v\<in>set vs. atom_of v = Inl e"
  by (induction vs) (auto split: sum.splits)

lemma atom_of_ok: "atom_of v = Inr a \<longleftrightarrow> extractId v = Inr (atom_id a)
    \<and> atom_left a = coordinate (left (bounds v)) \<and> atom_right a = coordinate (right (bounds v))
    \<and> atom_top a = coordinate (top (bounds v)) \<and> atom_bottom a = coordinate (bottom (bounds v))"
  by (cases a) (auto simp: atom_of_def Let_def split: sum.split)

lemma atom_of_error: "atom_of v = Inl e \<longleftrightarrow> extractId v = Inl e"
  by (auto simp: atom_of_def Let_def split: sum.split)

lemma extractId_error: "extractId v = Inl e \<Longrightarrow> e = NullMatch"
  by (auto simp: extractId_def split: option.splits)

text \<open>The rectangle of an atom is that of its element, truncated.\<close>

definition reads :: "element \<Rightarrow> atom \<Rightarrow> bool" where
  "reads v a \<longleftrightarrow> extractId v = Inr (atom_id a)
     \<and> atom_left a = coordinate (left (bounds v)) \<and> atom_right a = coordinate (right (bounds v))
     \<and> atom_top a = coordinate (top (bounds v)) \<and> atom_bottom a = coordinate (bottom (bounds v))"

text \<open>positions lists every blank-or element of the toplevel once: the elements without the
  class nested are in atoms and those with it in nested, each in document order with its id and its
  coordinates, and together they are all the blank-or descendants; the call fails exactly if there
  is no such toplevel, with the message that names it, or if one of these elements has no id, with
  a TypeError.\<close>

theorem positions_lists_blankOrs:
  "case positions doc tlid of
     Inr (atoms, nested) \<Rightarrow> (\<exists>t ts. toplevels_of doc tlid = t # ts
       \<and> list_all2 reads (filter (selected False) (descendants t)) atoms
       \<and> list_all2 reads (filter (selected True) (descendants t)) nested
       \<and> mset (filter (selected False) (descendants t)) + mset (filter (selected True) (descendants t))
         = mset (filter (\<lambda>v. has_class ''blankOr'' (className v)) (descendants t)))
   | Inl (ThrownString m) \<Rightarrow> toplevels_of doc tlid = []
       \<and> m = ''Dark.ast.atomPositions: Cannot find toplevel: '' @ tlid
   | Inl NullMatch \<Rightarrow> (\<exists>t ts v. toplevels_of doc tlid = t # ts \<and> v \<in> set (descendants t)
       \<and> has_class ''blankOr'' (className v) \<and> extractId v = Inl NullMatch)"
proof (cases "toplevels_of doc tlid")
  case Nil
  then show ?thesis by (simp add: positions_def)
next
  case (Cons t ts)
  have part: "mset (filter (selected False) vs) + mset (filter (selected True) vs)
      = mset (filter (\<lambda>v. has_class ''blankOr'' (className v)) vs)" for vs
    by (induction vs) (auto simp: selected_def)
  have bad: "\<exists>v\<in>set (descendants t). has_class ''blankOr'' (className v) \<and> extractId v = Inl NullMatch \<and> e = NullMatch"
    if "find_atoms t n = Inl e" for n e
    using push_atoms_error [OF that [unfolded find_atoms_def]] extractId_error
    by (auto simp: atom_of_error selected_def)
  have good: "list_all2 reads (filter (selected n) (descendants t)) as"
    if "find_atoms t n = Inr as" for n as
    using push_atoms_ok [OF that [unfolded find_atoms_def]]
    by (rule list.rel_mono_strong) (simp add: reads_def atom_of_ok)
  have null: "\<exists>t ts v. toplevels_of doc tlid = t # ts \<and> v \<in> set (descendants t)
      \<and> has_class ''blankOr'' (className v) \<and> extractId v = Inl NullMatch" "e = NullMatch"
    if "find_atoms t n = Inl e" for n e
    using bad [OF that] Cons by auto
  show ?thesis
  proof (cases "find_atoms t False")
    case (Inl e)
    then show ?thesis using Cons null [OF Inl] by (simp add: positions_def)
  next
    case (Inr as)
    show ?thesis
    proof (cases "find_atoms t True")
      case (Inl e)
      then show ?thesis using Cons Inr null [OF Inl] by (simp add: positions_def)
    next
      case (Inr ns)
      then show ?thesis using Cons \<open>find_atoms t False = Inr as\<close> part [of "descendants t"] good
        by (simp add: positions_def)
    qed
  qed
qed

text \<open>The rectangles survive the trip through strings: coordinates within 32 bits are the
  decimal representation of the coordinate rounded towards zero, and two coordinates are the same
  string only if they round to the same number.\<close>

theorem coordinate_rounds:
  assumes "- (2 ^ 31) \<le> p" and "p < 2 ^ 31" and "- (2 ^ 31) \<le> q" and "q < 2 ^ 31"
  shows "coordinate p = decimal_int (js_trunc p)
    \<and> (coordinate p = coordinate q \<longleftrightarrow> js_trunc p = js_trunc q)
    \<and> \<bar>rat_of_int (js_trunc p) - p\<bar> < 1"
proof -
  have b: "to_int32_rat r = js_trunc r" if "- (2 ^ 31) \<le> r" "r < 2 ^ 31" for r
  proof (rule to_int32_small)
    show "- (2 ^ 31) \<le> js_trunc r" using js_trunc_mono [OF that(1)] js_trunc_int [of "- (2 ^ 31)"] by simp
    show "js_trunc r < 2 ^ 31" using that(2) by (simp add: js_trunc_def floor_less_iff ceiling_less_iff)
  qed
  then show ?thesis using assms js_trunc_dist [of p]
    by (auto simp: coordinate_def dest: decimal_int_inj)
qed

theorem coordinate_rounds_witness:
  "coordinate (- 7 / 2) = ''-3'' \<and> coordinate (7 / 2) \<noteq> coordinate (- 7 / 2)"
proof -
  have "js_trunc (- 7 / 2) = - 3" "js_trunc (7 / 2) = 3" "decimal_int (- 3) = ''-3''" by code_simp+
  then show ?thesis using coordinate_rounds [of "- 7 / 2" "7 / 2"] by auto
qed

end
