(* ===== verification/Browser.thy ===== *)
theory Browser
  imports Dark_Prelude
begin

text \<open>
  The browser checks of \<open>client/src/appsupport.js\<close> and \<open>client/src/unsupportedBrowser.js\<close>: the
  user-agent test and its overlay, the observer that reloads the page when the overlay is
  removed, the platform number, the keys kept from the browser, the page-visibility poll and the
  wheel listener. A regular expression without operators is a substring test, an alternation of
  such a disjunction.
\<close>

section \<open>Unsupported browsers\<close>

record navigator =
  userAgent :: string
  vendor :: string
  platform :: string

definition unsupportedBrowser :: "navigator \<Rightarrow> bool" where
  "unsupportedBrowser nav =
     (let isChrome = sublist ''Chrome'' (userAgent nav) \<and> sublist ''Google Inc'' (vendor nav);
          isMobile = list_ex (\<lambda>m. sublist m (userAgent nav))
            [''Android'', ''BlackBerry'', ''iPhone'', ''iPad'', ''iPod'', ''Opera Mini'', ''IEMobile''];
          isDesktopApp = sublist ''DarkLang/Editor'' (userAgent nav);
          isSupported = isDesktopApp \<or> (isChrome \<and> \<not> isMobile)
      in \<not> isSupported)"

text \<open>The second copy of the test, in \<open>unsupportedBrowser.js\<close>, and its listener, which appends the
  overlay to the body.\<close>

definition unsupportedBrowser_overlay :: "navigator \<Rightarrow> bool" where
  "unsupportedBrowser_overlay nav =
     (let isChrome = sublist ''Chrome'' (userAgent nav) \<and> sublist ''Google Inc'' (vendor nav);
          isMobile = list_ex (\<lambda>m. sublist m (userAgent nav))
            [''Android'', ''BlackBerry'', ''iPhone'', ''iPad'', ''iPod'', ''Opera Mini'', ''IEMobile''];
          isDesktopApp = sublist ''DarkLang/Editor'' (userAgent nav);
          isSupported = isDesktopApp \<or> (isChrome \<and> \<not> isMobile)
      in \<not> isSupported)"

text \<open>The page's body, as the ids of the elements appended to it.\<close>

definition overlay_listener :: "navigator \<Rightarrow> string list \<Rightarrow> string list" where
  "overlay_listener nav body =
     (if unsupportedBrowser_overlay nav then body @ [''unsupportedBrowser''] else body)"

text \<open>
  The observer's callback: \<open>records\<close> are lists of the ids of removed nodes. The flag \<open>reload\<close> is
  never reset, so every record from the first that removed the overlay on reloads the page.
\<close>

fun observer_records :: "string list list \<Rightarrow> bool \<Rightarrow> effect list" where
  "observer_records [] reload = []"
| "observer_records (removed # records) reload =
     (let reload' = fold (\<lambda>nid r. if nid = ''unsupportedBrowser'' then True else r) removed reload
      in (if reload' then [Reload] else []) @ observer_records records reload')"

definition observer_callback :: "string list list \<Rightarrow> effect list" where
  "observer_callback records = observer_records records False"

text \<open>\<open>if (unsupportedBrowser)\<close> tests the function object, which is truthy, so the observer is
  installed in every browser.\<close>

definition observer_installed :: "navigator \<Rightarrow> bool" where
  "observer_installed nav = truthy (JObj [])"

lemma removed_flag:
  "fold (\<lambda>nid r. if nid = ''unsupportedBrowser'' then True else r) removed reload
     \<longleftrightarrow> reload \<or> ''unsupportedBrowser'' \<in> set removed"
  by (induction removed arbitrary: reload) auto

lemma observer_records_eq:
  "observer_records records reload =
     replicate (length (if reload then records
       else dropWhile (\<lambda>removed. ''unsupportedBrowser'' \<notin> set removed) records)) Reload"
  by (induction records arbitrary: reload) (auto simp: removed_flag Let_def)

text \<open>The overlay cannot be deleted from the page: the observer, which runs in every browser,
  reloads the page exactly when one of the mutation records removed the overlay's node, once for
  each record from that one on.\<close>

theorem overlay_removal_reloads:
  "observer_installed nav
   \<and> (observer_callback records \<noteq> [] \<longleftrightarrow> (\<exists>removed \<in> set records. ''unsupportedBrowser'' \<in> set removed))
   \<and> observer_callback records = replicate
       (length (dropWhile (\<lambda>removed. ''unsupportedBrowser'' \<notin> set removed) records)) Reload"
  by (auto simp: observer_installed_def observer_callback_def observer_records_eq dropWhile_eq_Nil_conv)

text \<open>The two copies of the browser test agree, and they classify as supported exactly the
  desktop client and Google's Chrome on a user agent that names no mobile platform; the overlay is
  appended for every other browser.\<close>

theorem browser_support:
  "(unsupportedBrowser nav \<longleftrightarrow>
      \<not> sublist ''DarkLang/Editor'' (userAgent nav)
      \<and> (\<not> sublist ''Chrome'' (userAgent nav) \<or> \<not> sublist ''Google Inc'' (vendor nav)
         \<or> (\<exists>m \<in> {''Android'', ''BlackBerry'', ''iPhone'', ''iPad'', ''iPod'', ''Opera Mini'', ''IEMobile''}.
              sublist m (userAgent nav))))
   \<and> (''unsupportedBrowser'' \<in> set (overlay_listener nav body)
        \<longleftrightarrow> unsupportedBrowser nav \<or> ''unsupportedBrowser'' \<in> set body)"
  unfolding unsupportedBrowser_def overlay_listener_def unsupportedBrowser_overlay_def Let_def
  by auto

theorem browser_support_witness:
  "unsupportedBrowser \<lparr>userAgent = ''Firefox'', vendor = [], platform = ''Linux''\<rparr>"
proof -
  have "\<not> sublist ''DarkLang/Editor'' ''Firefox''" "\<not> sublist ''Chrome'' ''Firefox''" by code_simp+
  then show ?thesis
    using browser_support [of "\<lparr>userAgent = ''Firefox'', vendor = [], platform = ''Linux''\<rparr>" "[]"]
    by simp
qed

section \<open>Platform and keys\<close>

definition getBrowserPlatform :: "navigator \<Rightarrow> nat" where
  "getBrowserPlatform nav =
     (let isMac = (platform nav = ''MacIntel'');
          isLinux = sublist ''Linux'' (platform nav);
          isWindows = (platform nav = ''Win32'')
      in if isMac then 0 else if isLinux then 1 else if isWindows then 2 else 3)"

record key_event =
  ctrlKey :: bool
  metaKey :: bool
  key :: string

definition stopKeys :: "navigator \<Rightarrow> key_event \<Rightarrow> effect list" where
  "stopKeys nav event =
     (if (ctrlKey event \<or> metaKey event) \<and> key event = ''s'' then [PreventDefault] else [])
     @ (if ctrlKey event \<and> key event = ''k'' \<and> sublist ''Linux'' (platform nav)
        then [PreventDefault] else [])"

lemma platform_linux: "sublist ''Linux'' (platform nav) \<longleftrightarrow> getBrowserPlatform nav = 1"
proof (cases "platform nav = ''MacIntel''")
  case True
  have "\<not> sublist ''Linux'' ''MacIntel''" by code_simp
  with True show ?thesis by (simp add: getBrowserPlatform_def)
qed (simp add: getBrowserPlatform_def)

text \<open>Exactly the save key (with ctrl or meta) and, where the platform number is Linux, ctrl-k
  are kept from the browser, each once; every other key event is left alone.\<close>

theorem stopped_keys:
  "stopKeys nav event =
     (if key event = ''s'' \<and> (ctrlKey event \<or> metaKey event)
         \<or> key event = ''k'' \<and> ctrlKey event \<and> getBrowserPlatform nav = 1
      then [PreventDefault] else [])"
  by (auto simp: stopKeys_def platform_linux)

section \<open>Visibility\<close>

text \<open>A property of \<open>document\<close> that a browser may not have: \<open>None\<close> is \<open>undefined\<close>.\<close>

record document =
  doc_hidden :: "bool option"
  doc_mozHidden :: "bool option"
  doc_msHidden :: "bool option"
  doc_webkitHidden :: "bool option"

definition document_hidden :: "document \<Rightarrow> bool" where
  "document_hidden doc =
     (case doc_hidden doc of Some h \<Rightarrow> h
      | None \<Rightarrow> (case doc_mozHidden doc of Some h \<Rightarrow> h
        | None \<Rightarrow> (case doc_msHidden doc of Some h \<Rightarrow> h
          | None \<Rightarrow> (case doc_webkitHidden doc of Some h \<Rightarrow> h
            | None \<Rightarrow> False))))"

definition windowFocusChange :: "bool \<Rightarrow> effect list" where
  "windowFocusChange visible = [DispatchEvent ''windowFocusChange'' (JBool visible)]"

text \<open>\<open>visibilityCheck\<close> on the variable \<open>pageHidden\<close>: its new value and the events.\<close>

definition visibilityCheck :: "document \<Rightarrow> bool \<Rightarrow> bool \<times> effect list" where
  "visibilityCheck doc pageHidden =
     (let hidden = document_hidden doc
      in if pageHidden \<noteq> hidden then (hidden, windowFocusChange hidden) else (pageHidden, []))"

definition on_focus :: "effect list" where
  "on_focus = windowFocusChange True"

definition on_blur :: "effect list" where
  "on_blur = windowFocusChange False"

text \<open>What the client makes of the event (\<open>Main.ml\<close>): the detail is read as the visibility.\<close>

datatype visibility = Visible | Hidden

definition visibility_of_detail :: "bool \<Rightarrow> visibility" where
  "visibility_of_detail v = (if v then Visible else Hidden)"

text \<open>A poll every two seconds: the state and events over a sequence of observed documents.\<close>

fun visibility_polls :: "document list \<Rightarrow> bool \<Rightarrow> bool \<times> effect list" where
  "visibility_polls [] pageHidden = (pageHidden, [])"
| "visibility_polls (doc # docs) pageHidden =
     (let (h, es) = visibilityCheck doc pageHidden; (h', es') = visibility_polls docs h
      in (h', es @ es'))"

text \<open>The poll reports every change of the page's visibility once, in order, and nothing else:
  the details dispatched are the observed hidden flags with repetitions removed, starting from the
  remembered one.\<close>

theorem polls_report_changes:
  "events_named ''windowFocusChange'' (snd (visibility_polls docs h))
     = map JBool (tl (remdups_adj (h # map document_hidden docs)))
   \<and> fst (visibility_polls docs h) = last (h # map document_hidden docs)"
proof (induction docs arbitrary: h)
  case (Cons doc docs)
  obtain h' es' where r: "visibility_polls docs (document_hidden doc) = (h', es')"
    by (cases "visibility_polls docs (document_hidden doc)")
  show ?case
  proof (cases "h = document_hidden doc")
    case True
    then show ?thesis using Cons.IH [of h] r by (simp add: visibilityCheck_def Let_def)
  next
    case False
    let ?xs = "document_hidden doc # map document_hidden docs"
    have "remdups_adj (h # ?xs) = h # remdups_adj ?xs" using False by simp
    moreover have "map JBool (remdups_adj ?xs) = JBool (document_hidden doc) # map JBool (tl (remdups_adj ?xs))"
      by (metis list.simps(9) remdups_adj_Cons_alt)
    ultimately show ?thesis using False Cons.IH [of "document_hidden doc"] r
      by (simp add: visibilityCheck_def Let_def windowFocusChange_def del: remdups_adj.simps)
  qed
qed simp

text \<open>The poll reports the wrong way round: visibilityCheck passes the hidden flag where the
  event carries the visibility, so when the page becomes hidden the client is told Visible, and
  when it becomes visible again the client is told Hidden, while onfocus and onblur are right.\<close>

theorem visibility_inverted:
  assumes "document_hidden doc \<noteq> pageHidden"
  shows "(\<exists>detail. events_named ''windowFocusChange'' (snd (visibilityCheck doc pageHidden)) = [JBool detail]
       \<and> visibility_of_detail detail = (if document_hidden doc then Visible else Hidden))
     \<and> events_named ''windowFocusChange'' on_focus = [JBool True]
     \<and> events_named ''windowFocusChange'' on_blur = [JBool False]"
  using assms
  by (auto simp: visibilityCheck_def Let_def windowFocusChange_def on_focus_def on_blur_def
      visibility_of_detail_def)

theorem visibility_inverted_witness:
  "let doc = \<lparr>doc_hidden = Some True, doc_mozHidden = None, doc_msHidden = None, doc_webkitHidden = None\<rparr>
   in document_hidden doc
      \<and> (\<exists>detail. events_named ''windowFocusChange'' (snd (visibilityCheck doc False)) = [JBool detail]
           \<and> visibility_of_detail detail = Visible)"
  using visibility_inverted [of "\<lparr>doc_hidden = Some True, doc_mozHidden = None, doc_msHidden = None,
      doc_webkitHidden = None\<rparr>" False]
  by (simp add: document_hidden_def Let_def)

section \<open>Wheel events\<close>

text \<open>
  \<open>addWheelListener\<close>: which events it listens to and the normalized event its handler builds.
  A missing property is \<open>JUndefined\<close>. The normalized
  event goes nowhere: nothing receives it.
\<close>

datatype wheel_support = Wheel | Mousewheel | DOMMouseScroll

definition detect_support :: "bool \<Rightarrow> bool \<Rightarrow> wheel_support" where
  "detect_support onwheel_in_div onmousewheel_defined =
     (if onwheel_in_div then Wheel
      else if onmousewheel_defined then Mousewheel else DOMMouseScroll)"

fun support_name :: "wheel_support \<Rightarrow> string" where
  "support_name Wheel = ''wheel''"
| "support_name Mousewheel = ''mousewheel''"
| "support_name DOMMouseScroll = ''DOMMouseScroll''"

text \<open>The events listened to, as the calls of \<open>addEventListener\<close> or \<open>attachEvent\<close>.\<close>

definition wheel_listeners :: "bool \<Rightarrow> wheel_support \<Rightarrow> (string \<times> string) list" where
  "wheel_listeners has_addEventListener support =
     (let (meth, pre) = (if has_addEventListener then (''addEventListener'', [])
                         else (''attachEvent'', ''on''))
      in [(meth, pre @ support_name support)]
         @ (if support = DOMMouseScroll then [(meth, pre @ ''MozMousePixelScroll'')] else []))"

record wheel_event =
  we_type :: string
  we_target :: jsval
  we_srcElement :: jsval
  we_deltaY :: jsval
  we_detail :: jsval
  we_wheelDelta :: jsval
  we_wheelDeltaX :: jsval
  we_has_preventDefault :: bool

record normalized_wheel =
  nw_target :: jsval
  nw_type :: string
  nw_deltaMode :: nat
  nw_deltaX :: jsval
  nw_deltaY :: jsval
  nw_deltaZ :: jsval
  nw_preventDefault :: "effect list"

text \<open>\<open>(-1 / 40) * v\<close>: the wheel deltas are numbers where the browser defines them, and the
  product with \<open>undefined\<close> is \<open>NaN\<close>.\<close>

fun wheel_scale :: "jsval \<Rightarrow> jsval" where
  "wheel_scale (JNum q) = JNum ((- 1 / 40) * q)"
| "wheel_scale _ = JNaN"

text \<open>The event's own \<open>preventDefault\<close>: the call it makes, or the write of \<open>returnValue\<close>.\<close>

definition wheel_preventDefault :: "wheel_event \<Rightarrow> effect list" where
  "wheel_preventDefault e =
     (if we_has_preventDefault e then [PreventDefault]
      else [CallExt ''originalEvent.returnValue'' [JBool False]])"

definition normalize_wheel :: "wheel_support \<Rightarrow> wheel_event \<Rightarrow> normalized_wheel" where
  "normalize_wheel support e =
     (let event = \<lparr>nw_target = js_or (we_target e) (we_srcElement e), nw_type = ''wheel'',
            nw_deltaMode = (if we_type e = ''MozMousePixelScroll'' then 0 else 1),
            nw_deltaX = JNum 0, nw_deltaY = JNum 0, nw_deltaZ = JNum 0,
            nw_preventDefault = wheel_preventDefault e\<rparr>
      in if support = Mousewheel
         then (let event1 = event\<lparr>nw_deltaY := wheel_scale (we_wheelDelta e)\<rparr>
               in if truthy (we_wheelDeltaX e) then event1\<lparr>nw_deltaX := wheel_scale (we_wheelDeltaX e)\<rparr>
                  else event1)
         else event\<lparr>nw_deltaY := js_or (we_deltaY e) (we_detail e)\<rparr>)"

text \<open>The handler builds the normalized event and returns nothing: it has no effect.\<close>

definition wheel_handler :: "wheel_support \<Rightarrow> wheel_event \<Rightarrow> effect list" where
  "wheel_handler support e = (let event = normalize_wheel support e in [])"

text \<open>The wheel listener listens to the pixel-scroll event of older Firefox besides its wheel
  event and to one event in every other browser; only such pixel scrolls get the delta mode 0; a
  browser with mousewheel events gets minus a fortieth of its deltas, and there alone a horizontal
  one that is not 0; elsewhere the vertical delta is deltaY, or detail where that is absent or 0.\<close>

theorem wheel_normalized:
  "length (wheel_listeners has_ael support) = (if support = DOMMouseScroll then 2 else 1)
   \<and> (nw_deltaMode (normalize_wheel support e) = 0 \<longleftrightarrow> we_type e = ''MozMousePixelScroll'')
   \<and> nw_deltaX (normalize_wheel support e) =
       (if support = Mousewheel \<and> truthy (we_wheelDeltaX e) then wheel_scale (we_wheelDeltaX e) else JNum 0)
   \<and> nw_deltaY (normalize_wheel support e) =
       (if support = Mousewheel then wheel_scale (we_wheelDelta e)
        else if truthy (we_deltaY e) then we_deltaY e else we_detail e)"
  by (auto simp: wheel_listeners_def normalize_wheel_def js_or_def Let_def split: if_splits)

end
