(* ===== verification/Telemetry.thy ===== *)
theory Telemetry
  imports Dark_Prelude
begin

text \<open>
  The reporting code of \<open>client/src/appsupport.js\<close>: the heap analytics stub of
  \<open>client/static/vendor/heapio.js\<close> and its use at start-up, the configuration of Rollbar, the
  global error handlers with \<open>displayError\<close>, the screenshot, and the calls of FullStory with the user's
  consent. FullStory, Rollbar, html2canvas and the text of a rejection reason are not in the
  repository; a call of one of them is a \<open>CallExt\<close> effect, and what one returns is an argument.
\<close>

section \<open>Heap analytics\<close>

text \<open>\<open>window.heapio\<close>: an array used as a queue, with an id, a configuration and the methods that
  \<open>load\<close> installs. \<open>scripts\<close> are the script elements of the page, by source.\<close>

record heapio =
  appid :: jsval
  config :: jsval
  methods :: "string list"
  queue :: "jsval list list"
  scripts :: "string list"

datatype heap_error = HeapTypeError

definition heapio_methods :: "string list" where
  "heapio_methods = [''addEventProperties'', ''addUserProperties'', ''clearEventProperties'',
     ''identify'', ''resetIdentity'', ''removeEventProperty'', ''setEventProperties'', ''track'',
     ''unsetEventProperty'']"

text \<open>Before \<open>load\<close> has run the only method is \<open>load\<close>. The page's scripts are those already
  parsed; \<open>insertBefore\<close> needs one of them.\<close>

definition init_heapio :: "string list \<Rightarrow> heapio" where
  "init_heapio srcs = \<lparr>appid = JUndefined, config = JUndefined, methods = [], queue = [], scripts = srcs\<rparr>"

fun install_methods :: "string list \<Rightarrow> heapio \<Rightarrow> heapio" where
  "install_methods [] h = h"
| "install_methods (p # ps) h = install_methods ps (h\<lparr>methods := methods h @ [p]\<rparr>)"

definition heapio_load :: "string \<Rightarrow> jsval \<Rightarrow> heapio \<Rightarrow> heapio \<times> heap_error option" where
  "heapio_load e t h =
     (let h1 = h\<lparr>appid := JStr e, config := js_or t (JObj [])\<rparr>
      in case scripts h1 of
           [] \<Rightarrow> (h1, Some HeapTypeError)
         | s # ss \<Rightarrow>
             (install_methods heapio_methods
                (h1\<lparr>scripts := (''https://cdn.heapanalytics.com/js/heap-'' @ e @ ''.js'') # s # ss\<rparr>), None))"

definition heapio_call :: "string \<Rightarrow> jsval list \<Rightarrow> heapio \<Rightarrow> heapio \<times> heap_error option" where
  "heapio_call m args h =
     (if m \<in> set (methods h) then (h\<lparr>queue := queue h @ [JStr m # args]\<rparr>, None)
      else (h, Some HeapTypeError))"

text \<open>The user the page was rendered for.\<close>

record dark_user =
  userID :: string
  username :: string
  userEmail :: string
  userFullname :: string
  userCreatedAt :: jsval
  userIsAdmin :: bool

definition heapio_startup :: "string \<Rightarrow> dark_user \<Rightarrow> heapio \<Rightarrow> heapio \<times> heap_error option" where
  "heapio_startup heapioID u h =
     (case heapio_load heapioID JUndefined h of
        (h1, Some e) \<Rightarrow> (h1, Some e)
      | (h1, None) \<Rightarrow>
          (case heapio_call ''identify'' [JStr (userID u)] h1 of
             (h2, Some e) \<Rightarrow> (h2, Some e)
           | (h2, None) \<Rightarrow>
               heapio_call ''addUserProperties''
                 [JObj [(''handle'', JStr (username u)), (''username'', JStr (username u)),
                        (''email'', JStr (userEmail u)), (''name'', JStr (userFullname u)),
                        (''created_at'', userCreatedAt u)]] h2))"

text \<open>\<open>window._fs_ready\<close>; \<open>url_at\<close> and \<open>url\<close> are what FullStory returns for the session.\<close>

definition fs_ready :: "jsval \<Rightarrow> jsval \<Rightarrow> heapio \<Rightarrow> heapio \<times> heap_error option" where
  "fs_ready url_at url h =
     (case heapio_call ''track'' [JStr ''FullStory Session'',
             JObj [(''Fullstory Session URL'', url_at)]] h of
        (h1, Some e) \<Rightarrow> (h1, Some e)
      | (h1, None) \<Rightarrow>
          heapio_call ''addUserProperties'' [JObj [(''Latest FullStory Session'', url)]] h1)"

definition sendHeapioMessage :: "jsval \<Rightarrow> heapio \<Rightarrow> heapio \<times> heap_error option" where
  "sendHeapioMessage event_name h = heapio_call ''track'' [event_name] h"

section \<open>Rollbar and the error handlers\<close>

text \<open>Writing a property of an object value; on another value the write has no effect.\<close>

fun set_prop :: "string \<Rightarrow> jsval \<Rightarrow> jsval \<Rightarrow> jsval" where
  "set_prop k v (JObj fs) = JObj (if k \<in> set (map fst fs)
     then map (\<lambda>f. if fst f = k then (k, v) else f) fs else fs @ [(k, v)])"
| "set_prop k v w = w"

definition prop_or :: "jsval \<Rightarrow> string \<Rightarrow> jsval" where
  "prop_or v k = (case get_prop v k of None \<Rightarrow> JUndefined | Some w \<Rightarrow> w)"

definition rollbar_payload :: "dark_user \<Rightarrow> jsval \<Rightarrow> jsval" where
  "rollbar_payload u rollbarConfig =
     (let payload = js_or (prop_or rollbarConfig ''payload'') (JObj []);
          person = JObj [(''id'', JStr (userID u)), (''username'', JStr (username u))]
      in set_prop ''payload'' (set_prop ''person'' person payload) rollbarConfig)"

definition displayError :: "jsval \<Rightarrow> effect list" where
  "displayError msg = [DispatchEvent ''displayError'' msg]"

record error_state =
  lastError :: jsval
  lastRejection :: jsval
  error_log :: "effect list"

definition window_onerror :: "jsval \<Rightarrow> jsval \<Rightarrow> jsval \<Rightarrow> jsval \<Rightarrow> jsval \<Rightarrow> error_state \<Rightarrow> error_state" where
  "window_onerror msg url lineno colno error s =
     s\<lparr>lastError := error,
       error_log := error_log s @ [CallExt ''Rollbar.error'' [msg, error],
         ConsoleError [JStr ''Uncaught exception'', msg, url, lineno, colno, error]] @ displayError msg\<rparr>"

text \<open>\<open>text\<close> is the conversion of a value to a string.\<close>

definition window_onunhandledrejection ::
  "(jsval \<Rightarrow> string) \<Rightarrow> jsval \<Rightarrow> jsval \<Rightarrow> jsval \<Rightarrow> error_state \<Rightarrow> error_state" where
  "window_onunhandledrejection text e etype reason s =
     s\<lparr>lastRejection := e,
       error_log := error_log s @ [CallExt ''Rollbar.error''
           [JStr ''Unhandled promise rejection'', etype, reason],
         ConsoleError [JStr ''Unhandled promise rejection'', etype, reason, e]]
         @ displayError (JStr (''Unhandled promise rejection: '' @ text etype @ '', '' @ text reason))\<rparr>"

datatype page_error =
    Uncaught jsval jsval jsval jsval jsval
  | Rejected jsval jsval jsval

fun report :: "(jsval \<Rightarrow> string) \<Rightarrow> page_error \<Rightarrow> error_state \<Rightarrow> error_state" where
  "report text (Uncaught msg url lineno colno error) s = window_onerror msg url lineno colno error s"
| "report text (Rejected e etype reason) s = window_onunhandledrejection text e etype reason s"

section \<open>Screenshots\<close>

definition ignored_element :: "string \<Rightarrow> bool" where
  "ignored_element eid = (eid = ''sidebar-left'' \<or> eid = ''minimap'')"

text \<open>\<open>rendered\<close> is what \<open>html2canvas\<close> settles to: an image as a data URL, or an error.\<close>

definition view_capture :: "jsval + jsval \<Rightarrow> effect list" where
  "view_capture rendered =
     (case rendered of
        Inl err \<Rightarrow> [ConsoleError [JStr ''captureView'', err]]
      | Inr data \<Rightarrow> [DispatchEvent ''captureView'' data])"

section \<open>FullStory\<close>

definition setConsent :: "jsval \<Rightarrow> effect list" where
  "setConsent consent = CallExt ''FullStory.consent'' [consent]
     # (if truthy consent then [CallExt ''FullStory.restart'' []] else [CallExt ''FullStory.shutdown'' []])"

text \<open>The age is \<open>None\<close> for \<open>NaN\<close>, which compares false.\<close>

definition isOlderThanWeWantToRecord :: "rat option \<Rightarrow> bool" where
  "isOlderThanWeWantToRecord msSinceAccountCreated =
     (let maxAccountAgeToRecordMs = 48 * 60 * 60 * 1000
      in case msSinceAccountCreated of None \<Rightarrow> False | Some ms \<Rightarrow> ms > maxAccountAgeToRecordMs)"

text \<open>\<open>stored\<close> is \<open>localStorage.getItem("userState-" + username)\<close> and \<open>parse\<close> is \<open>JSON.parse\<close>, which
  gives its exception or the value. An exception while reading the consent is logged.\<close>

definition stored_consent :: "(string \<Rightarrow> jsval + jsval) \<Rightarrow> jsval \<Rightarrow> string \<Rightarrow> effect list" where
  "stored_consent parse type_error userStr =
     (case parse userStr of
        Inl err \<Rightarrow> [ConsoleError [err]]
      | Inr userSetting \<Rightarrow>
          (case get_prop userSetting ''recordConsent'' of
             None \<Rightarrow> [ConsoleError [type_error]]
           | Some recordConsent \<Rightarrow> setConsent recordConsent))"

definition fullstory_init ::
  "(string \<Rightarrow> jsval + jsval) \<Rightarrow> jsval \<Rightarrow> dark_user \<Rightarrow> rat option \<Rightarrow> string option \<Rightarrow> jsval \<Rightarrow> effect list" where
  "fullstory_init parse type_error u age stored canvas =
     (let old = isOlderThanWeWantToRecord age
      in (if userIsAdmin u \<or> old
          then [ConsoleLog [JStr (''FullStory is not enabled for this user because the account is too old; ''
             @ ''console warnings that it is in dev mode may be safely ignored.'')]] else [])
         @ [CallExt ''FullStory.init'' [JObj [(''orgId'', JStr ''TMVRZ''), (''devMode'', JBool (userIsAdmin u \<or> old))]],
            CallExt ''FullStory.identify'' [JStr (username u),
              JObj [(''displayName'', JStr (username u)), (''canvas'', canvas)]]]
         @ (case stored of
              None \<Rightarrow> []
            | Some userStr \<Rightarrow> if userStr = [] then [] else stored_consent parse type_error userStr))"

text \<open>The calls of FullStory among the effects.\<close>

fun fullstory_calls :: "effect list \<Rightarrow> (string \<times> jsval list) list" where
  "fullstory_calls [] = []"
| "fullstory_calls (CallExt m args # es) =
     (if prefix ''FullStory.'' m then (m, args) # fullstory_calls es else fullstory_calls es)"
| "fullstory_calls (e # es) = fullstory_calls es"

section \<open>Properties\<close>

lemma install_methods_eq: "install_methods ps h = h\<lparr>methods := methods h @ ps\<rparr>"
  by (induction ps arbitrary: h) simp_all

fun heapio_calls :: "(string \<times> jsval list) list \<Rightarrow> heapio \<Rightarrow> heapio" where
  "heapio_calls [] h = h"
| "heapio_calls ((m, args) # cs) h = heapio_calls cs (fst (heapio_call m args h))"

lemma heapio_calls_queue:
  "methods (heapio_calls cs h) = methods h \<and> queue (heapio_calls cs h) = queue h
     @ map (\<lambda>(m, args). JStr m # args) (filter (\<lambda>(m, args). m \<in> set (methods h)) cs)"
  by (induction cs arbitrary: h) (auto simp: heapio_call_def)

text \<open>No analytics call is lost while the heap script loads: after the start-up on a page with a
  script element, whatever calls of the nine stub methods follow, the queue the script will replay
  holds identify, addUserProperties and then exactly these calls, in order; any other method name is
  a TypeError and leaves the queue as it is.\<close>

theorem heapio_queues_calls:
  assumes "scripts h = s # ss" and "methods h = []" and "queue h = []"
  shows "snd (heapio_startup heapioID u h) = None
    \<and> (\<exists>props. queue (heapio_calls cs (fst (heapio_startup heapioID u h)))
        = [JStr ''identify'', JStr (userID u)] # [JStr ''addUserProperties'', props]
          # map (\<lambda>(m, args). JStr m # args) (filter (\<lambda>(m, args). m \<in> set heapio_methods) cs))
    \<and> (snd (heapio_call m args (fst (heapio_startup heapioID u h))) = None \<longleftrightarrow> m \<in> set heapio_methods)"
proof -
  let ?h = "fst (heapio_startup heapioID u h)"
  have m: "''identify'' \<in> set heapio_methods" "''addUserProperties'' \<in> set heapio_methods"
    by (simp_all add: heapio_methods_def)
  have "snd (heapio_startup heapioID u h) = None \<and> methods ?h = heapio_methods
      \<and> (\<exists>props. queue ?h = [[JStr ''identify'', JStr (userID u)], [JStr ''addUserProperties'', props]])"
    using assms m by (simp add: heapio_startup_def heapio_load_def install_methods_eq heapio_call_def Let_def)
  then show ?thesis using heapio_calls_queue [of cs ?h] by (auto simp: heapio_call_def)
qed

theorem heapio_queues_calls_witness:
  "\<exists>props. queue (heapio_calls [(''track'', [JStr ''x'']), (''load'', [])]
      (fst (heapio_startup ''7'' \<lparr>userID = ''u'', username = ''n'', userEmail = ''e'', userFullname = ''f'',
         userCreatedAt = JNum 0, userIsAdmin = False\<rparr> (init_heapio [''app.js'']))))
    = [[JStr ''identify'', JStr ''u''], [JStr ''addUserProperties'', props], [JStr ''track'', JStr ''x'']]"
proof -
  have "''track'' \<in> set heapio_methods" "''load'' \<notin> set heapio_methods"
    by (simp_all add: heapio_methods_def)
  then show ?thesis
    using heapio_queues_calls [of "init_heapio [''app.js'']" "''app.js''" "[]" "''7''"
      "\<lparr>userID = ''u'', username = ''n'', userEmail = ''e'', userFullname = ''f'',
         userCreatedAt = JNum 0, userIsAdmin = False\<rparr>" "[(''track'', [JStr ''x'']), (''load'', [])]"]
    by (simp add: init_heapio_def)
qed

text \<open>The consent that the page reads from the stored state, if it can.\<close>

definition consent_read :: "(string \<Rightarrow> jsval + jsval) \<Rightarrow> string option \<Rightarrow> jsval option" where
  "consent_read parse stored =
     (case stored of
        None \<Rightarrow> None
      | Some userStr \<Rightarrow>
          if userStr = [] then None
          else (case parse userStr of Inl err \<Rightarrow> None | Inr v \<Rightarrow> get_prop v ''recordConsent''))"

definition consent_calls :: "jsval option \<Rightarrow> (string \<times> jsval list) list" where
  "consent_calls consent =
     (case consent of
        None \<Rightarrow> []
      | Some c \<Rightarrow> [(''FullStory.consent'', [c]), (if truthy c then ''FullStory.restart'' else ''FullStory.shutdown'', [])])"

definition start_calls :: "dark_user \<Rightarrow> rat option \<Rightarrow> jsval \<Rightarrow> (string \<times> jsval list) list" where
  "start_calls u age canvas =
     [(''FullStory.init'', [JObj [(''orgId'', JStr ''TMVRZ''), (''devMode'', JBool (userIsAdmin u \<or> isOlderThanWeWantToRecord age))]]),
      (''FullStory.identify'', [JStr (username u), JObj [(''displayName'', JStr (username u)), (''canvas'', canvas)]])]"

lemma fullstory_calls_append [simp]: "fullstory_calls (xs @ ys) = fullstory_calls xs @ fullstory_calls ys"
  by (induction xs rule: fullstory_calls.induct) simp_all

lemma stored_consent_calls:
  "fullstory_calls (stored_consent parse type_error userStr)
     = consent_calls (case parse userStr of Inl err \<Rightarrow> None | Inr v \<Rightarrow> get_prop v ''recordConsent'')"
  by (simp add: stored_consent_def setConsent_def consent_calls_def split: sum.split option.split)

lemma isOlder_iff: "isOlderThanWeWantToRecord age \<longleftrightarrow> (\<exists>ms. age = Some ms \<and> 172800000 < ms)"
  by (auto simp: isOlderThanWeWantToRecord_def split: option.split)

text \<open>What the page asks of FullStory: it initialises it, in dev mode exactly for an admin and for an account
  more than 48 hours old (not for one whose age is not a number), names the user, and then passes on
  the consent of the stored state and restarts or shuts the recording down; nothing of the latter
  happens if there is no stored state or it cannot be read.\<close>

theorem recording_follows_consent:
  "fullstory_calls (fullstory_init parse type_error u age stored canvas)
     = start_calls u age canvas @ consent_calls (consent_read parse stored)"
  by (auto simp: fullstory_init_def start_calls_def consent_read_def stored_consent_calls Let_def consent_calls_def
      split: option.split)

end
