(* ===== verification/Json.thy ===== *)
theory Json
  imports Dark_Prelude
begin

text \<open>
  \<open>JSON.stringify\<close> and \<open>JSON.parse\<close>, which \<open>client/src/appsupport.js\<close> uses for the client's
  parameters, the workers' configuration and the stored user state. Values are the prelude's, strings
  are Latin-1: a text with an escape beyond it is an error of its own. The value of a number is the
  rational it denotes.
\<close>

section \<open>JSON.stringify\<close>

text \<open>Strings are Latin-1. \<open>num\<close> is the text of a number; \<open>None\<close> is \<open>undefined\<close>, which an object
  leaves out and an array writes as \<open>null\<close>. \<open>NaN\<close> is written as \<open>null\<close>.\<close>

definition hex_digit :: "nat \<Rightarrow> char" where
  "hex_digit n = ''0123456789abcdef'' ! (n mod 16)"

definition json_char :: "char \<Rightarrow> string" where
  "json_char c = (let n = of_char c :: nat in
     if n = 34 then [char_of (92 :: nat), c]
     else if n = 92 then [c, c]
     else if n = 8 then [char_of (92 :: nat), CHR ''b'']
     else if n = 9 then [char_of (92 :: nat), CHR ''t'']
     else if n = 10 then [char_of (92 :: nat), CHR ''n'']
     else if n = 12 then [char_of (92 :: nat), CHR ''f'']
     else if n = 13 then [char_of (92 :: nat), CHR ''r'']
     else if n < 32 then [char_of (92 :: nat), CHR ''u'', CHR ''0'', CHR ''0'', hex_digit (n div 16), hex_digit n]
     else [c])"

definition json_string :: "string \<Rightarrow> string" where
  "json_string s = [char_of (34 :: nat)] @ concat (map json_char s) @ [char_of (34 :: nat)]"

fun commas :: "string list \<Rightarrow> string" where
  "commas [] = []"
| "commas [s] = s"
| "commas (s # ss) = s @ '','' @ commas ss"

fun json :: "(rat \<Rightarrow> string) \<Rightarrow> jsval \<Rightarrow> string option" where
  "json num JUndefined = None"
| "json num JNull = Some ''null''"
| "json num (JBool b) = Some (if b then ''true'' else ''false'')"
| "json num (JNum q) = Some (num q)"
| "json num JNaN = Some ''null''"
| "json num (JStr s) = Some (json_string s)"
| "json num (JArr vs) = Some (''['' @ commas (map (\<lambda>v. case json num v of None \<Rightarrow> ''null'' | Some t \<Rightarrow> t) vs) @ '']'')"
| "json num (JObj fs) = Some (''{'' @ commas (concat (map (\<lambda>f. case json num (snd f) of
       None \<Rightarrow> [] | Some t \<Rightarrow> [json_string (fst f) @ '':'' @ t]) fs)) @ ''}'')"

section \<open>JSON.parse\<close>

text \<open>\<open>OutOfFuel\<close> never occurs in \<open>json_parse\<close>: each level of the grammar consumes a character
  every second call.\<close>

datatype json_error = JsonSyntax | BeyondLatin1 | OutOfFuel

definition json_space :: "char \<Rightarrow> bool" where
  "json_space c = (of_char c \<in> {9 :: nat, 10, 13, 32})"

definition skip_space :: "string \<Rightarrow> string" where
  "skip_space s = dropWhile json_space s"

definition is_digit :: "char \<Rightarrow> bool" where
  "is_digit c = (48 \<le> (of_char c :: nat) \<and> (of_char c :: nat) \<le> 57)"

definition digit_value :: "char \<Rightarrow> nat" where
  "digit_value c = of_char c - 48"

definition digits_value :: "string \<Rightarrow> nat" where
  "digits_value ds = foldl (\<lambda>a c. 10 * a + digit_value c) 0 ds"

definition hex_digit_value :: "char \<Rightarrow> nat option" where
  "hex_digit_value c = (let n = of_char c :: nat in
     if is_digit c then Some (n - 48)
     else if 97 \<le> n \<and> n \<le> 102 then Some (n - 87)
     else if 65 \<le> n \<and> n \<le> 70 then Some (n - 55)
     else None)"

definition hex4 :: "char \<Rightarrow> char \<Rightarrow> char \<Rightarrow> char \<Rightarrow> nat option" where
  "hex4 a b c d = (case (hex_digit_value a, hex_digit_value b, hex_digit_value c, hex_digit_value d) of
     (Some p, Some q, Some r, Some t) \<Rightarrow> Some (4096 * p + 256 * q + 16 * r + t) | _ \<Rightarrow> None)"

definition json_escape :: "char \<Rightarrow> char option" where
  "json_escape c = (let n = of_char c :: nat in
     if n \<in> {34, 92, 47} then Some c
     else if c = CHR ''b'' then Some (char_of (8 :: nat))
     else if c = CHR ''f'' then Some (char_of (12 :: nat))
     else if c = CHR ''n'' then Some (char_of (10 :: nat))
     else if c = CHR ''r'' then Some (char_of (13 :: nat))
     else if c = CHR ''t'' then Some (char_of (9 :: nat))
     else None)"

text \<open>A parser returns an error or a value and the rest of the text.\<close>

definition map_res :: "('a \<Rightarrow> 'b) \<Rightarrow> json_error + 'a \<times> string \<Rightarrow> json_error + 'b \<times> string" where
  "map_res f x = (case x of Inl e \<Rightarrow> Inl e | Inr (a, rest) \<Rightarrow> Inr (f a, rest))"

definition bind_res ::
  "json_error + 'a \<times> string \<Rightarrow> ('a \<Rightarrow> string \<Rightarrow> json_error + 'b) \<Rightarrow> json_error + 'b" where
  "bind_res x f = (case x of Inl e \<Rightarrow> Inl e | Inr (a, rest) \<Rightarrow> f a rest)"

lemma map_res_simps [simp]:
  "map_res f (Inl e) = Inl e" "map_res f (Inr (a, r)) = Inr (f a, r)"
  "bind_res (Inl e) g = Inl e" "bind_res (Inr (a, r)) g = g a r"
  by (simp_all add: map_res_def bind_res_def)

lemma map_res_Inr: "map_res f x = Inr (b, r) \<longleftrightarrow> (\<exists>a. x = Inr (a, r) \<and> b = f a)"
  by (auto simp: map_res_def split: sum.split)

lemma map_res_Inl [simp]: "map_res f x = Inl e \<longleftrightarrow> x = Inl e"
  by (auto simp: map_res_def split: sum.split)

lemma bind_res_Inr: "bind_res x g = Inr y \<longleftrightarrow> (\<exists>a r. x = Inr (a, r) \<and> g a r = Inr y)"
  by (auto simp: bind_res_def split: sum.split)

lemma bind_res_Inl: "bind_res x g = Inl e \<longleftrightarrow> x = Inl e \<or> (\<exists>a r. x = Inr (a, r) \<and> g a r = Inl e)"
  by (auto simp: bind_res_def split: sum.split)

text \<open>The rest of a string after its opening quote.\<close>

fun parse_string :: "string \<Rightarrow> json_error + string \<times> string" where
  "parse_string [] = Inl JsonSyntax"
| "parse_string (c # cs) =
     (if of_char c = (34 :: nat) then Inr ([], cs)
      else if (of_char c :: nat) < 32 then Inl JsonSyntax
      else if of_char c = (92 :: nat) then
        (case cs of
           [] \<Rightarrow> Inl JsonSyntax
         | e # es \<Rightarrow>
             if e = CHR ''u'' then
               (case es of
                  h1 # h2 # h3 # h4 # r \<Rightarrow>
                    (case hex4 h1 h2 h3 h4 of
                       None \<Rightarrow> Inl JsonSyntax
                     | Some n \<Rightarrow> if n < 256 then map_res (Cons (char_of n)) (parse_string r) else Inl BeyondLatin1)
                | _ \<Rightarrow> Inl JsonSyntax)
             else
               (case json_escape e of
                  None \<Rightarrow> Inl JsonSyntax
                | Some d \<Rightarrow> map_res (Cons d) (parse_string es)))
      else map_res (Cons c) (parse_string cs))"

text \<open>A number: sign, integer part without leading zeros, fraction, exponent.\<close>

definition parse_int_part :: "string \<Rightarrow> json_error + string \<times> string" where
  "parse_int_part s =
     (case s of
        [] \<Rightarrow> Inl JsonSyntax
      | c # cs \<Rightarrow>
          if c = CHR ''0'' then Inr ([c], cs)
          else if is_digit c then Inr (takeWhile is_digit s, dropWhile is_digit s)
          else Inl JsonSyntax)"

definition parse_fraction :: "string \<Rightarrow> json_error + rat \<times> string" where
  "parse_fraction s =
     (case s of
        c # cs \<Rightarrow>
          if c = CHR ''.'' then
            (let ds = takeWhile is_digit cs
             in if ds = [] then Inl JsonSyntax
                else Inr (of_nat (digits_value ds) / 10 ^ length ds, dropWhile is_digit cs))
          else Inr (0, s)
      | [] \<Rightarrow> Inr (0, s))"

definition parse_exponent :: "string \<Rightarrow> json_error + rat \<times> string" where
  "parse_exponent s =
     (case s of
        c # cs \<Rightarrow>
          if c = CHR ''e'' \<or> c = CHR ''E'' then
            (let (neg, ds0) = (case cs of
                   d # ds \<Rightarrow> if d = CHR ''-'' then (True, ds) else if d = CHR ''+'' then (False, ds) else (False, cs)
                 | [] \<Rightarrow> (False, cs));
                 ds = takeWhile is_digit ds0;
                 p = 10 ^ digits_value ds
             in if ds = [] then Inl JsonSyntax
                else Inr (if neg then 1 / p else p, dropWhile is_digit ds0))
          else Inr (1, s)
      | [] \<Rightarrow> Inr (1, s))"

definition parse_unsigned :: "string \<Rightarrow> json_error + rat \<times> string" where
  "parse_unsigned s =
     bind_res (parse_int_part s) (\<lambda>ds s1.
     bind_res (parse_fraction s1) (\<lambda>f s2.
     map_res (\<lambda>p. (of_nat (digits_value ds) + f) * p) (parse_exponent s2)))"

definition parse_number :: "string \<Rightarrow> json_error + rat \<times> string" where
  "parse_number s =
     (case s of
        c # cs \<Rightarrow> if c = CHR ''-'' then map_res uminus (parse_unsigned cs) else parse_unsigned s
      | [] \<Rightarrow> Inl JsonSyntax)"

text \<open>A character after space; the closing bracket after the last entry of a list, or a comma and
  more entries.\<close>

definition expect :: "(char \<Rightarrow> bool) \<Rightarrow> string \<Rightarrow> json_error + unit \<times> string" where
  "expect P s = (case skip_space s of [] \<Rightarrow> Inl JsonSyntax | c # r \<Rightarrow> if P c then Inr ((), r) else Inl JsonSyntax)"

definition close_or_more ::
  "char \<Rightarrow> 'a \<Rightarrow> (string \<Rightarrow> json_error + 'a list \<times> string) \<Rightarrow> string \<Rightarrow> json_error + 'a list \<times> string" where
  "close_or_more closing v more s =
     (case skip_space s of
        [] \<Rightarrow> Inl JsonSyntax
      | c # r \<Rightarrow>
          if c = closing then Inr ([v], r)
          else if c = CHR '','' then map_res (Cons v) (more r)
          else Inl JsonSyntax)"

text \<open>Values. \<open>parse_elements\<close> reads a non-empty list of values up to the closing bracket,
  \<open>parse_members\<close> a non-empty list of pairs up to the closing brace; all skip leading space.\<close>

fun parse_value :: "nat \<Rightarrow> string \<Rightarrow> json_error + jsval \<times> string"
and parse_elements :: "nat \<Rightarrow> string \<Rightarrow> json_error + jsval list \<times> string"
and parse_members :: "nat \<Rightarrow> string \<Rightarrow> json_error + (string \<times> jsval) list \<times> string" where
  "parse_value 0 s = Inl OutOfFuel"
| "parse_value (Suc n) s0 =
     (case skip_space s0 of
        [] \<Rightarrow> Inl JsonSyntax
      | c # cs \<Rightarrow>
          if prefix ''null'' (c # cs) then Inr (JNull, drop 3 cs)
          else if prefix ''true'' (c # cs) then Inr (JBool True, drop 3 cs)
          else if prefix ''false'' (c # cs) then Inr (JBool False, drop 4 cs)
          else if of_char c = (34 :: nat) then map_res JStr (parse_string cs)
          else if c = CHR ''['' then
            (if prefix '']'' (skip_space cs) then Inr (JArr [], tl (skip_space cs))
             else map_res JArr (parse_elements n cs))
          else if c = CHR ''{'' then
            (if prefix ''}'' (skip_space cs) then Inr (JObj [], tl (skip_space cs))
             else map_res JObj (parse_members n cs))
          else map_res JNum (parse_number (c # cs)))"
| "parse_elements 0 s = Inl OutOfFuel"
| "parse_elements (Suc n) s =
     bind_res (parse_value n s) (\<lambda>v. close_or_more (CHR '']'') v (parse_elements n))"
| "parse_members 0 s = Inl OutOfFuel"
| "parse_members (Suc n) s =
     bind_res (expect (\<lambda>c. of_char c = (34 :: nat)) s) (\<lambda>_ s1.
     bind_res (parse_string s1) (\<lambda>k s2.
     bind_res (expect (\<lambda>c. c = CHR '':'') s2) (\<lambda>_ s3.
     bind_res (parse_value n s3) (\<lambda>v. close_or_more (CHR ''}'') (k, v) (parse_members n)))))"

definition json_parse :: "string \<Rightarrow> json_error + jsval" where
  "json_parse s =
     (case parse_value (2 * length s + 2) s of
        Inl e \<Rightarrow> Inl e
      | Inr (v, r) \<Rightarrow> if skip_space r = [] then Inr v else Inl JsonSyntax)"

section \<open>Strings and numbers read back\<close>

lemma char_eq_nat: "c = char_of (n :: nat) \<longleftrightarrow> of_char c = n mod 256"
  by (metis char_of_char of_char_of)

lemma char_of_eq: "char_of (n :: nat) = c \<longleftrightarrow> of_char c = n mod 256"
  by (metis char_eq_nat)

lemma of_char_less_256: "(of_char c :: nat) < 256"
  by (simp add: of_char_def)

lemma hex_digit_value_digit: "hex_digit_value (hex_digit n) = Some (n mod 16)"
proof -
  define k where "k = n mod 16"
  have "k < 16" by (simp add: k_def)
  then have "k = 0 \<or> k = 1 \<or> k = 2 \<or> k = 3 \<or> k = 4 \<or> k = 5 \<or> k = 6 \<or> k = 7 \<or> k = 8 \<or> k = 9
    \<or> k = 10 \<or> k = 11 \<or> k = 12 \<or> k = 13 \<or> k = 14 \<or> k = 15" by arith
  then have "hex_digit_value (''0123456789abcdef'' ! k) = Some k"
    by (elim disjE) (simp_all add: hex_digit_value_def is_digit_def)
  then show ?thesis by (simp add: hex_digit_def k_def)
qed

lemma hex4_control:
  assumes "n < 32"
  shows "hex4 (CHR ''0'') (CHR ''0'') (hex_digit (n div 16)) (hex_digit n) = Some n"
proof -
  have z: "hex_digit_value (CHR ''0'') = Some 0" by (simp add: hex_digit_value_def is_digit_def)
  have "n div 16 mod 16 = n div 16" using assms by (simp add: mod_less)
  then have "16 * (n div 16 mod 16) + n mod 16 = n" by simp
  then show ?thesis by (simp add: hex4_def z hex_digit_value_digit)
qed

lemma of_char_eq_char: "of_char c = (n :: nat) \<Longrightarrow> c = char_of n"
  by auto

lemma parse_string_char: "parse_string (json_char c @ t) = map_res (Cons c) (parse_string t)"
proof -
  let ?n = "of_char c :: nat"
  have b: "of_char (char_of (92 :: nat)) = (92 :: nat)" by simp
  consider "?n = 34" | "?n = 92" | "?n = 8" | "?n = 9" | "?n = 10" | "?n = 12" | "?n = 13"
    | "?n < 32" "?n \<noteq> 8" "?n \<noteq> 9" "?n \<noteq> 10" "?n \<noteq> 12" "?n \<noteq> 13"
    | "32 \<le> ?n" "?n \<noteq> 34" "?n \<noteq> 92" by (metis not_le)
  then show ?thesis
  proof cases
    case 8
    have "char_of ?n = c" by simp
    then show ?thesis using 8 hex4_control [of ?n] by (simp add: json_char_def Let_def)
  next
    case 9
    then show ?thesis by (simp add: json_char_def Let_def)
  qed (drule of_char_eq_char, hypsubst, simp add: json_char_def json_escape_def Let_def char_of_eq)+
qed

lemma parse_string_json: "parse_string (concat (map json_char s) @ char_of (34 :: nat) # rest) = Inr (s, rest)"
  by (induction s) (simp_all add: parse_string_char)

definition not_number_char :: "char \<Rightarrow> bool" where
  "not_number_char c \<longleftrightarrow> \<not> is_digit c \<and> c \<notin> {CHR ''.'', CHR ''e'', CHR ''E''}"

definition number_ends :: "string \<Rightarrow> bool" where
  "number_ends s \<longleftrightarrow> (s = [] \<or> not_number_char (hd s))"

lemma decimal_is_digit: "c \<in> set (decimal n) \<Longrightarrow> is_digit c"
  using decimal_digits [of n] by (auto simp: is_digit_def)

lemma digits_value_snoc: "digits_value (ds @ [c]) = 10 * digits_value ds + digit_value c"
  by (simp add: digits_value_def)

lemma digits_value_decimal: "digits_value (decimal n) = n"
proof (induction n rule: less_induct)
  case (less n)
  have d: "digit_value (char_of (48 + k)) = k" if "k < 10" for k :: nat
    using that by (simp add: digit_value_def)
  show ?case
  proof (cases "n < 10")
    case True
    then show ?thesis using d [of n] by (simp add: decimal_small digits_value_def)
  next
    case False
    then have "digits_value (decimal n) = 10 * (n div 10) + n mod 10"
      using less.IH [of "n div 10"] d [of "n mod 10"] by (simp add: decimal_big digits_value_snoc)
    then show ?thesis by simp
  qed
qed

lemma decimal_head: "0 < n \<Longrightarrow> hd (decimal n) \<noteq> CHR ''0''"
proof (induction n rule: less_induct)
  case (less n)
  show ?case
  proof (cases "n < 10")
    case True
    then show ?thesis using less.prems by (simp add: decimal_small char_of_eq)
  next
    case False
    then show ?thesis using less.IH [of "n div 10"] by (simp add: decimal_big)
  qed
qed

lemma parse_int_part_decimal:
  assumes "number_ends rest"
  shows "parse_int_part (decimal n @ rest) = Inr (decimal n, rest)"
proof -
  have r: "takeWhile is_digit rest = []" "dropWhile is_digit rest = rest"
    using assms by (cases rest; simp add: number_ends_def not_number_char_def)+
  show ?thesis
  proof (cases "n = 0")
    case True
    then show ?thesis by (simp add: decimal_small parse_int_part_def char_of_eq)
  next
    case False
    obtain c cs where c: "decimal n = c # cs" by (cases "decimal n") auto
    then have "c \<noteq> CHR ''0''" "is_digit c" using False decimal_head [of n] decimal_is_digit [of c n] by auto
    moreover have "takeWhile is_digit (decimal n @ rest) = decimal n"
      "dropWhile is_digit (decimal n @ rest) = rest"
      using r by (simp_all add: takeWhile_append2 dropWhile_append2 decimal_is_digit)
    ultimately show ?thesis using c by (simp add: parse_int_part_def)
  qed
qed

lemma parse_unsigned_decimal:
  assumes "number_ends rest"
  shows "parse_unsigned (decimal n @ rest) = Inr (of_nat n, rest)"
proof -
  have "parse_fraction rest = Inr (0, rest)" "parse_exponent rest = Inr (1, rest)"
    using assms by (cases rest; auto simp: number_ends_def not_number_char_def parse_fraction_def parse_exponent_def)+
  then show ?thesis
    by (simp add: parse_unsigned_def parse_int_part_decimal [OF assms] digits_value_decimal)
qed

lemma parse_number_int:
  assumes "number_ends rest"
  shows "parse_number (decimal_int i @ rest) = Inr (of_int i, rest)"
proof (cases "i < 0")
  case True
  then show ?thesis by (simp add: decimal_int_def parse_number_def parse_unsigned_decimal [OF assms])
next
  case False
  obtain c cs where c: "decimal (nat i) = c # cs" by (cases "decimal (nat i)") auto
  then have "c \<noteq> CHR ''-''" using decimal_is_digit [of c "nat i"] by (auto simp: is_digit_def)
  then show ?thesis using False c parse_unsigned_decimal [OF assms, of "nat i"]
    by (simp add: decimal_int_def parse_number_def)
qed

section \<open>The parser consumes its input and has fuel enough\<close>

lemma parse_string_length: "parse_string s = Inr (t, r) \<Longrightarrow> length r < length s"
proof (induction s arbitrary: t rule: parse_string.induct)
  case (2 c cs)
  then show ?case
    by (fastforce simp: map_res_Inr split: if_splits list.splits option.splits)
qed simp

lemma parse_string_fuel: "parse_string s \<noteq> Inl OutOfFuel"
proof (induction s rule: length_induct)
  case (1 s)
  then have IH: "\<And>t. length t < length s \<Longrightarrow> parse_string t \<noteq> Inl OutOfFuel" by blast
  show ?case
  proof (cases s)
    case (Cons c cs)
    show ?thesis
    proof (cases "of_char c = (92 :: nat)")
      case True
      show ?thesis
      proof (cases cs)
        case c2: (Cons e es)
        have "(case es of h1 # h2 # h3 # h4 # r \<Rightarrow> (case hex4 h1 h2 h3 h4 of None \<Rightarrow> Inl JsonSyntax
            | Some n \<Rightarrow> if n < 256 then map_res (Cons (char_of n)) (parse_string r) else Inl BeyondLatin1)
          | _ \<Rightarrow> Inl JsonSyntax) \<noteq> Inl OutOfFuel"
          using IH Cons c2 by (auto split: list.split option.split)
        then show ?thesis using IH [of es] Cons c2 True by (simp split: option.split)
      qed (use Cons True in simp)
    qed (use IH [of cs] Cons in simp)
  qed simp
qed

lemma dropWhile_length: "length (dropWhile P s) \<le> length s"
  by (induction s) auto

lemma skip_space_length: "length (skip_space s) \<le> length s"
  by (simp add: skip_space_def dropWhile_length)

lemma skip_space_Cons: "skip_space s = c # cs \<Longrightarrow> length cs < length s"
  using skip_space_length [of s] by simp

lemma parse_int_part_length: "parse_int_part s = Inr (ds, r) \<Longrightarrow> length r < length s"
  using dropWhile_length [of is_digit "tl s"]
  by (auto simp: parse_int_part_def split: list.splits if_splits)

lemma parse_fraction_length: "parse_fraction s = Inr (q, r) \<Longrightarrow> length r \<le> length s"
  using dropWhile_length [of is_digit "tl s"]
  by (auto simp: parse_fraction_def Let_def split: list.splits if_splits)

text \<open>The sign of an exponent and its digits.\<close>

lemma parse_exponent_length: "parse_exponent s = Inr (q, r) \<Longrightarrow> length r \<le> length s"
proof (cases s)
  case (Cons c cs)
  assume p: "parse_exponent s = Inr (q, r)"
  have "length (dropWhile is_digit cs) \<le> length cs" "length (dropWhile is_digit (tl cs)) \<le> length cs"
    using dropWhile_length [of is_digit cs] dropWhile_length [of is_digit "tl cs"] by simp_all
  then show ?thesis using p Cons
    by (auto simp: parse_exponent_def Let_def split: if_splits list.splits)
qed (simp add: parse_exponent_def)

lemma parse_unsigned_length:
  assumes "parse_unsigned s = Inr (q, r)"
  shows "length r < length s"
proof -
  obtain ds s1 f s2 p where "parse_int_part s = Inr (ds, s1)" "parse_fraction s1 = Inr (f, s2)"
    "parse_exponent s2 = Inr (p, r)"
    using assms by (auto simp: parse_unsigned_def bind_res_Inr map_res_Inr)
  from parse_int_part_length [OF this(1)] parse_fraction_length [OF this(2)] parse_exponent_length [OF this(3)]
  show ?thesis by simp
qed

lemma parse_number_length: "parse_number s = Inr (q, r) \<Longrightarrow> length r < length s"
  by (auto simp: parse_number_def map_res_Inr split: list.splits if_splits dest!: parse_unsigned_length)

lemma parse_exponent_fuel: "parse_exponent s \<noteq> Inl OutOfFuel"
  by (auto simp: parse_exponent_def Let_def split: list.split prod.split)

lemma parse_number_fuel: "parse_number s \<noteq> Inl OutOfFuel"
proof -
  have "parse_int_part s \<noteq> Inl OutOfFuel" "parse_fraction s \<noteq> Inl OutOfFuel" for s
    by (auto simp: parse_int_part_def parse_fraction_def Let_def split: list.split)
  then have "parse_unsigned s \<noteq> Inl OutOfFuel" for s
    by (simp add: parse_unsigned_def bind_res_Inl parse_exponent_fuel)
  then show ?thesis by (simp add: parse_number_def split: list.split)
qed

lemma expect_length: "expect P s = Inr (u, r) \<Longrightarrow> length r < length s"
  by (auto simp: expect_def split: list.splits if_splits dest: skip_space_Cons)

lemma expect_fuel: "expect P s \<noteq> Inl OutOfFuel"
  by (simp add: expect_def split: list.split)

lemma close_or_more_Inr:
  "close_or_more closing v more s = Inr (vs, r) \<Longrightarrow>
   \<exists>r'. length r' < length s \<and> (r = r' \<or> (\<exists>vs'. more r' = Inr (vs', r)))"
  by (auto simp: close_or_more_def map_res_Inr split: list.splits if_splits dest: skip_space_Cons)

lemma close_or_more_fuel:
  "close_or_more closing v more s = Inl OutOfFuel \<Longrightarrow> \<exists>r. length r < length s \<and> more r = Inl OutOfFuel"
  by (auto simp: close_or_more_def split: list.splits if_splits dest: skip_space_Cons)

lemma if_cases_Inr:
  "(if b then x else y) = Inr z \<Longrightarrow> (b \<Longrightarrow> x = Inr z \<Longrightarrow> P) \<Longrightarrow> (\<not> b \<Longrightarrow> y = Inr z \<Longrightarrow> P) \<Longrightarrow> P"
  by (simp split: if_splits)

lemma parse_lengths:
  "(\<forall>s v r. parse_value n s = Inr (v, r) \<longrightarrow> length r < length s)
   \<and> (\<forall>s vs r. parse_elements n s = Inr (vs, r) \<longrightarrow> length r < length s)
   \<and> (\<forall>s fs r. parse_members n s = Inr (fs, r) \<longrightarrow> length r < length s)"
proof (induction n)
  case (Suc n)
  then have v: "\<And>s v r. parse_value n s = Inr (v, r) \<Longrightarrow> length r < length s"
    and e: "\<And>s vs r. parse_elements n s = Inr (vs, r) \<Longrightarrow> length r < length s"
    and m: "\<And>s fs r. parse_members n s = Inr (fs, r) \<Longrightarrow> length r < length s" by blast+
  have "length r < length s" if "parse_value (Suc n) s = Inr (x, r)" for s x r
  proof -
    note p = that
    obtain c cs where s: "skip_space s = c # cs" using p by (cases "skip_space s") auto
    have d: "length (drop k cs) \<le> length cs" "length (skip_space cs) - Suc 0 \<le> length cs" for k
      using skip_space_length [of cs] by simp_all
    have f: "parse_string cs = Inr (t, r) \<Longrightarrow> length r \<le> length cs"
      "parse_elements n cs = Inr (vs, r) \<Longrightarrow> length r \<le> length cs"
      "parse_members n cs = Inr (fs, r) \<Longrightarrow> length r \<le> length cs"
      "parse_number (c # cs) = Inr (q, r) \<Longrightarrow> length r \<le> length cs" for t vs fs q
      using e m parse_string_length parse_number_length [of "c # cs"] by fastforce+
    have "length r \<le> length cs"
      using p unfolding parse_value.simps s list.case
      by (elim if_cases_Inr) (auto simp: map_res_Inr d dest: f)
    then show ?thesis using skip_space_Cons [OF s] by simp
  qed
  moreover have "length r < length s" if p: "parse_elements (Suc n) s = Inr (x, r)" for s x r
  proof -
    from p obtain w r0 where r0: "parse_value n s = Inr (w, r0)"
      and c: "close_or_more (CHR '']'') w (parse_elements n) r0 = Inr (x, r)" by (auto simp: bind_res_Inr)
    from close_or_more_Inr [OF c] v [OF r0] e show ?thesis by fastforce
  qed
  moreover have "length r < length s" if p: "parse_members (Suc n) s = Inr (x, r)" for s x r
  proof -
    from p obtain s1 k s2 s3 w r0 where s: "expect (\<lambda>c. of_char c = (34 :: nat)) s = Inr ((), s1)"
      "parse_string s1 = Inr (k, s2)" "expect (\<lambda>c. c = CHR '':'') s2 = Inr ((), s3)"
      "parse_value n s3 = Inr (w, r0)"
      and c: "close_or_more (CHR ''}'') (k, w) (parse_members n) r0 = Inr (x, r)" by (auto simp: bind_res_Inr)
    from close_or_more_Inr [OF c] m have "length r < length r0" by fastforce
    then show ?thesis using expect_length [OF s(1)] parse_string_length [OF s(2)] expect_length [OF s(3)]
        v [OF s(4)] by simp
  qed
  ultimately show ?case by blast
qed simp

lemmas parse_value_length = parse_lengths [THEN conjunct1, rule_format]

lemma parse_fuel:
  "(\<forall>s. 2 * length s + 1 \<le> n \<longrightarrow> parse_value n s \<noteq> Inl OutOfFuel)
   \<and> (\<forall>s. 2 * length s + 2 \<le> n \<longrightarrow> parse_elements n s \<noteq> Inl OutOfFuel)
   \<and> (\<forall>s. 2 * length s + 2 \<le> n \<longrightarrow> parse_members n s \<noteq> Inl OutOfFuel)"
proof (induction n)
  case (Suc n)
  then have v: "\<And>s. 2 * length s + 1 \<le> n \<Longrightarrow> parse_value n s \<noteq> Inl OutOfFuel"
    and e: "\<And>s. 2 * length s + 2 \<le> n \<Longrightarrow> parse_elements n s \<noteq> Inl OutOfFuel"
    and m: "\<And>s. 2 * length s + 2 \<le> n \<Longrightarrow> parse_members n s \<noteq> Inl OutOfFuel" by blast+
  have "parse_value (Suc n) s \<noteq> Inl OutOfFuel" if "2 * length s + 1 \<le> Suc n" for s
  proof (cases "skip_space s")
    case (Cons c cs)
    then have "2 * length cs + 2 \<le> n" using that skip_space_Cons [OF Cons] by simp
    then show ?thesis using Cons e [of cs] m [of cs] parse_string_fuel [of cs] parse_number_fuel [of "c # cs"]
      by simp
  qed simp
  moreover have "parse_elements (Suc n) s \<noteq> Inl OutOfFuel" if f: "2 * length s + 2 \<le> Suc n" for s
  proof
    assume "parse_elements (Suc n) s = Inl OutOfFuel"
    then obtain a r0 where r: "parse_value n s = Inr (a, r0)"
      and c: "close_or_more (CHR '']'') a (parse_elements n) r0 = Inl OutOfFuel"
      using v [of s] f by (auto simp: bind_res_Inl)
    from close_or_more_fuel [OF c] obtain r' where r': "length r' < length r0" "parse_elements n r' = Inl OutOfFuel"
      by blast
    then show False using e [of r'] parse_value_length [OF r] f by simp
  qed
  moreover have "parse_members (Suc n) s \<noteq> Inl OutOfFuel" if f: "2 * length s + 2 \<le> Suc n" for s
  proof
    assume p: "parse_members (Suc n) s = Inl OutOfFuel"
    obtain s1 k s2 s3 where s: "expect (\<lambda>c. of_char c = (34 :: nat)) s = Inr ((), s1)"
      "parse_string s1 = Inr (k, s2)" "expect (\<lambda>c. c = CHR '':'') s2 = Inr ((), s3)"
      and b: "bind_res (parse_value n s3) (\<lambda>v. close_or_more (CHR ''}'') (k, v) (parse_members n)) = Inl OutOfFuel"
      using p by (auto simp: bind_res_Inl expect_fuel parse_string_fuel)
    have l: "length s3 < length s"
      using expect_length [OF s(1)] parse_string_length [OF s(2)] expect_length [OF s(3)] by simp
    from b obtain a r0 where r: "parse_value n s3 = Inr (a, r0)"
      and c: "close_or_more (CHR ''}'') (k, a) (parse_members n) r0 = Inl OutOfFuel"
      using v [of s3] f l by (auto simp: bind_res_Inl)
    from close_or_more_fuel [OF c] obtain r' where r': "length r' < length r0" "parse_members n r' = Inl OutOfFuel"
      by blast
    then show False using m [of r'] parse_value_length [OF r] f l by simp
  qed
  ultimately show ?case by blast
qed simp

text \<open>The parser is total: the fuel \<open>json_parse\<close> starts with is enough for every text.\<close>

lemma json_parse_total: "json_parse s \<noteq> Inl OutOfFuel"
  using parse_fuel [of "2 * length s + 2"] by (auto simp: json_parse_def split: sum.split)

section \<open>Values read back\<close>

definition integer_text :: "rat \<Rightarrow> string" where
  "integer_text q = decimal_int \<lfloor>q\<rfloor>"

text \<open>The values with a JSON text: integers, no \<open>undefined\<close> or \<open>NaN\<close>.\<close>

fun printable :: "jsval \<Rightarrow> bool" where
  "printable JUndefined = False"
| "printable JNaN = False"
| "printable (JNum q) = (of_int \<lfloor>q\<rfloor> = q)"
| "printable (JArr vs) = list_all printable vs"
| "printable (JObj fs) = list_all (\<lambda>f. printable (snd f)) fs"
| "printable _ = True"

definition json_text :: "jsval \<Rightarrow> string" where
  "json_text v = the (json integer_text v)"

lemma printable_json: "printable v \<Longrightarrow> json integer_text v = Some (json_text v)"
  by (cases v) (simp_all add: json_text_def)

lemma json_text_simps:
  "json_text JNull = ''null''"
  "json_text (JBool b) = (if b then ''true'' else ''false'')"
  "json_text (JNum q) = integer_text q"
  "json_text (JStr s) = json_string s"
  "list_all printable vs \<Longrightarrow> json_text (JArr vs) = ''['' @ commas (map json_text vs) @ '']''"
  "list_all (\<lambda>f. printable (snd f)) fs \<Longrightarrow> json_text (JObj fs)
     = ''{'' @ commas (map (\<lambda>f. json_string (fst f) @ '':'' @ json_text (snd f)) fs) @ ''}''"
proof -
  show "json_text (JNull) = ''null''" "json_text (JBool b) = (if b then ''true'' else ''false'')"
    "json_text (JNum q) = integer_text q" "json_text (JStr s) = json_string s"
    by (simp_all add: json_text_def)
  show "json_text (JArr vs) = ''['' @ commas (map json_text vs) @ '']''" if "list_all printable vs"
    using that by (auto simp: json_text_def [of "JArr vs"] list_all_iff printable_json
        intro!: arg_cong [of _ _ commas])
  have "concat (map (\<lambda>f. case json integer_text (snd f) of None \<Rightarrow> [] | Some t \<Rightarrow> [json_string (fst f) @ '':'' @ t]) fs)
     = map (\<lambda>f. json_string (fst f) @ '':'' @ json_text (snd f)) fs" if "list_all (\<lambda>f. printable (snd f)) fs"
    using that by (induction fs) (simp_all add: printable_json)
  then show "json_text (JObj fs)
     = ''{'' @ commas (map (\<lambda>f. json_string (fst f) @ '':'' @ json_text (snd f)) fs) @ ''}''"
    if "list_all (\<lambda>f. printable (snd f)) fs" using that by (simp add: json_text_def [of "JObj fs"])
qed

definition reads_back :: "jsval \<Rightarrow> bool" where
  "reads_back v \<longleftrightarrow> (\<forall>n rest. number_ends rest \<longrightarrow> 2 * length (json_text v) \<le> n \<longrightarrow>
     parse_value n (json_text v @ rest) = Inr (v, rest))"

lemma skip_space_head [simp]: "\<not> json_space c \<Longrightarrow> skip_space (c # cs) = c # cs"
  by (simp add: skip_space_def)

lemma number_ends_simps [simp]:
  "number_ends []"
  "number_ends (CHR '','' # r)" "number_ends (CHR '']'' # r)" "number_ends (CHR ''}'' # r)"
  by (simp_all add: number_ends_def not_number_char_def is_digit_def)

lemma json_space_simps [simp]:
  "\<not> json_space (CHR '','')" "\<not> json_space (CHR '']'')" "\<not> json_space (CHR ''}'')" "\<not> json_space (CHR '':'')"
  "\<not> json_space (CHR ''['')" "\<not> json_space (CHR ''{'')" "\<not> json_space (CHR ''n'')" "\<not> json_space (CHR ''t'')"
  "\<not> json_space (CHR ''f'')" "\<not> json_space (CHR ''-'')" "\<not> json_space (char_of (34 :: nat))"
  "is_digit c \<Longrightarrow> \<not> json_space c"
  by (auto simp: json_space_def is_digit_def)

lemma integer_text_head: "\<exists>c cs. integer_text q = c # cs \<and> (c = CHR ''-'' \<or> is_digit c)"
proof (cases "\<lfloor>q\<rfloor> < 0")
  case True
  then show ?thesis by (simp add: integer_text_def decimal_int_def)
next
  case False
  obtain c cs where "decimal (nat \<lfloor>q\<rfloor>) = c # cs" by (cases "decimal (nat \<lfloor>q\<rfloor>)") auto
  then show ?thesis using False decimal_is_digit [of c "nat \<lfloor>q\<rfloor>"] by (simp add: integer_text_def decimal_int_def)
qed

lemma reads_back_num:
  assumes "of_int \<lfloor>q\<rfloor> = q"
  shows "reads_back (JNum q)"
  unfolding reads_back_def
proof (intro allI impI)
  fix n rest assume r: "number_ends rest" and n: "2 * length (json_text (JNum q)) \<le> n"
  obtain c cs where t: "integer_text q = c # cs" and c: "c = CHR ''-'' \<or> is_digit c"
    using integer_text_head [of q] by blast
  obtain m where m: "n = Suc m" using n t by (cases n) (auto simp: json_text_simps)
  have h: "c \<noteq> CHR ''n''" "c \<noteq> CHR ''t''" "c \<noteq> CHR ''f''" "of_char c \<noteq> (34 :: nat)" "c \<noteq> CHR ''[''"
    "c \<noteq> CHR ''{''" "\<not> json_space c"
    using c by (auto simp: is_digit_def json_space_def)
  have "parse_number (c # cs @ rest) = Inr (q, rest)"
    using parse_number_int [OF r, of "\<lfloor>q\<rfloor>"] t assms by (simp add: integer_text_def)
  then show "parse_value n (json_text (JNum q) @ rest) = Inr (JNum q, rest)"
    using h by (simp add: m t json_text_simps)
qed

lemma reads_back_str: "reads_back (JStr s)"
  unfolding reads_back_def
proof (intro allI impI)
  fix n rest assume n: "2 * length (json_text (JStr s)) \<le> n"
  obtain m where m: "n = Suc m" using n by (cases n) (auto simp: json_text_simps json_string_def)
  have q: "\<not> prefix ''null'' (char_of (34 :: nat) # xs)" "\<not> prefix ''true'' (char_of (34 :: nat) # xs)"
    "\<not> prefix ''false'' (char_of (34 :: nat) # xs)" for xs
    by (simp_all add: char_eq_nat char_of_eq)
  show "parse_value n (json_text (JStr s) @ rest) = Inr (JStr s, rest)"
    by (simp add: m json_text_simps json_string_def q parse_string_json char_eq_nat char_of_eq)
qed

lemma parse_elements_texts:
  assumes "\<forall>v\<in>set vs. reads_back v" "vs \<noteq> []" "2 * length (commas (map json_text vs)) + 1 \<le> n"
  shows "parse_elements n (commas (map json_text vs) @ CHR '']'' # rest) = Inr (vs, rest)"
  using assms
proof (induction vs arbitrary: n)
  case (Cons v vs)
  then obtain m where m: "n = Suc m" by (cases n) auto
  have v: "\<And>r. number_ends r \<Longrightarrow> 2 * length (json_text v) \<le> m \<Longrightarrow> parse_value m (json_text v @ r) = Inr (v, r)"
    using Cons.prems(1) by (simp add: reads_back_def)
  show ?case
  proof (cases vs)
    case Nil
    then show ?thesis using v Cons.prems(3) by (simp add: m close_or_more_def)
  next
    case (Cons w ws)
    then show ?thesis using v Cons.IH [of m] Cons.prems by (simp add: m close_or_more_def)
  qed
qed simp

definition member_text :: "string \<times> jsval \<Rightarrow> string" where
  "member_text f = json_string (fst f) @ '':'' @ json_text (snd f)"

lemma expect_quote: "expect (\<lambda>c. of_char c = (34 :: nat)) (char_of (34 :: nat) # r) = Inr ((), r)"
  by (simp add: expect_def)

lemma expect_colon: "expect (\<lambda>c. c = CHR '':'') (CHR '':'' # r) = Inr ((), r)"
  by (simp add: expect_def)

lemma parse_members_texts:
  assumes "\<forall>f\<in>set fs. reads_back (snd f)" "fs \<noteq> []" "2 * length (commas (map member_text fs)) + 1 \<le> n"
  shows "parse_members n (commas (map member_text fs) @ CHR ''}'' # rest) = Inr (fs, rest)"
  using assms
proof (induction fs arbitrary: n)
  case (Cons f fs)
  obtain k v where f: "f = (k, v)" by (cases f)
  obtain m where m: "n = Suc m" using Cons.prems(3) by (cases n) auto
  have v: "\<And>r. number_ends r \<Longrightarrow> 2 * length (json_text v) \<le> m \<Longrightarrow> parse_value m (json_text v @ r) = Inr (v, r)"
    using Cons.prems(1) by (simp add: reads_back_def f)
  note p = m f member_text_def json_string_def expect_quote parse_string_json expect_colon close_or_more_def
  show ?case
  proof (cases fs)
    case Nil
    then show ?thesis using v Cons.prems(3) by (simp add: p)
  next
    case (Cons g gs)
    then show ?thesis using v Cons.IH [of m] Cons.prems by (simp add: p)
  qed
qed simp

lemma json_text_head:
  assumes "printable v"
  shows "\<exists>c cs. json_text v = c # cs \<and> \<not> json_space c \<and> c \<noteq> CHR '']''"
proof (cases v)
  case (JNum q)
  then show ?thesis using integer_text_head [of q] by (auto simp: json_text_simps is_digit_def)
next
  case (JStr s)
  then show ?thesis by (intro exI [of _ "char_of (34 :: nat)"]) (simp add: json_text_simps json_string_def char_of_eq)
qed (use assms in \<open>auto simp: json_text_simps\<close>)

lemma commas_head: "ts \<noteq> [] \<Longrightarrow> hd ts = c # cs \<Longrightarrow> \<exists>cs'. commas ts = c # cs'"
  by (induction ts rule: commas.induct) auto

lemma reads_back_arr:
  assumes p: "list_all printable vs" and r: "\<forall>v\<in>set vs. reads_back v"
  shows "reads_back (JArr vs)"
  unfolding reads_back_def
proof (intro allI impI)
  fix n rest assume n: "2 * length (json_text (JArr vs)) \<le> n"
  obtain m where m: "n = Suc m" using n p by (cases n) (auto simp: json_text_simps)
  show "parse_value n (json_text (JArr vs) @ rest) = Inr (JArr vs, rest)"
  proof (cases "vs = []")
    case False
    then obtain c cs where c: "json_text (hd vs) = c # cs" "\<not> json_space c" "c \<noteq> CHR '']''"
      using p json_text_head [of "hd vs"] by (cases vs) auto
    obtain cs' where "commas (map json_text vs) = c # cs'"
      using commas_head [of "map json_text vs" c cs] False c by (auto simp: hd_map)
    then show ?thesis using c n p parse_elements_texts [OF r False, of m rest] by (simp add: m json_text_simps)
  qed (simp add: m json_text_simps)
qed

lemma reads_back_obj:
  assumes p: "list_all (\<lambda>f. printable (snd f)) fs" and r: "\<forall>f\<in>set fs. reads_back (snd f)"
  shows "reads_back (JObj fs)"
  unfolding reads_back_def
proof (intro allI impI)
  fix n rest assume n: "2 * length (json_text (JObj fs)) \<le> n"
  obtain m where m: "n = Suc m" using n p by (cases n) (auto simp: json_text_simps)
  have t: "json_text (JObj fs) = ''{'' @ commas (map member_text fs) @ ''}''"
    using p by (simp add: json_text_simps member_text_def [abs_def])
  show "parse_value n (json_text (JObj fs) @ rest) = Inr (JObj fs, rest)"
  proof (cases "fs = []")
    case False
    then obtain cs where "commas (map member_text fs) = char_of (34 :: nat) # cs"
      using commas_head [of "map member_text fs"] by (cases fs) (auto simp: member_text_def json_string_def)
    then show ?thesis using n parse_members_texts [OF r False, of m rest] by (simp add: m t char_eq_nat char_of_eq)
  qed (simp add: m json_text_simps)
qed

lemma reads_back_literal: "reads_back JNull" "reads_back (JBool b)"
proof -
  have "parse_value n (json_text JNull @ rest) = Inr (JNull, rest)"
    if "2 * length (json_text JNull) \<le> n" for n rest
    using that by (cases n) (simp_all add: json_text_simps)
  then show "reads_back JNull" by (simp add: reads_back_def)
  have "parse_value n (json_text (JBool b) @ rest) = Inr (JBool b, rest)"
    if "2 * length (json_text (JBool b)) \<le> n" for n rest
    using that by (cases n; cases b) (simp_all add: json_text_simps)
  then show "reads_back (JBool b)" by (simp add: reads_back_def)
qed

lemma reads_back: "printable v \<Longrightarrow> reads_back v"
proof (induction v rule: printable.induct)
  case (4 vs)
  then show ?case by (intro reads_back_arr) (auto simp: list_all_iff)
next
  case (5 fs)
  then show ?case by (intro reads_back_obj) (auto simp: list_all_iff)
qed (simp_all add: reads_back_num reads_back_str reads_back_literal)

lemma json_parse_text: "printable v \<Longrightarrow> json_parse (json_text v) = Inr v"
proof -
  assume "printable v"
  then have "parse_value (2 * length (json_text v) + 2) (json_text v @ []) = Inr (v, [])"
    by (intro reads_back [unfolded reads_back_def, rule_format]) simp_all
  then show ?thesis by (simp add: json_parse_def skip_space_def del: parse_value.simps)
qed

interpretation js: partial_codec printable json_text json_parse
  by unfold_locales (rule json_parse_text)

section \<open>What a round trip keeps\<close>

text \<open>A field whose value is \<open>undefined\<close> is dropped; an entry of an array that is \<open>undefined\<close>, and
  \<open>NaN\<close> everywhere, become \<open>null\<close>.\<close>

fun json_normal :: "jsval \<Rightarrow> jsval" where
  "json_normal JNaN = JNull"
| "json_normal (JArr vs) = JArr (map (\<lambda>v. if v = JUndefined then JNull else json_normal v) vs)"
| "json_normal (JObj fs) = JObj (concat (map (\<lambda>f.
       if snd f = JUndefined then [] else [(fst f, json_normal (snd f))]) fs))"
| "json_normal v = v"

fun integral :: "jsval \<Rightarrow> bool" where
  "integral (JNum q) = (of_int \<lfloor>q\<rfloor> = q)"
| "integral (JArr vs) = list_all integral vs"
| "integral (JObj fs) = list_all (\<lambda>f. integral (snd f)) fs"
| "integral _ = True"

lemma printable_normal: "integral v \<Longrightarrow> v \<noteq> JUndefined \<Longrightarrow> printable (json_normal v)"
  by (induction v rule: json_normal.induct) (auto simp: list_all_iff)

lemma json_normal_undefined [simp]: "json_normal v = JUndefined \<longleftrightarrow> v = JUndefined"
  by (cases v) auto

lemma json_None [simp]: "json num v = None \<longleftrightarrow> v = JUndefined"
  by (cases v) auto

lemma json_normal_same: "json num (json_normal v) = json num v"
proof (induction v rule: json_normal.induct)
  case (2 vs)
  then show ?case by (auto intro!: arg_cong [where f = commas] split: option.split)
next
  case (3 fs)
  then have "concat (map (\<lambda>f. case json num (snd f) of None \<Rightarrow> [] | Some t \<Rightarrow> [json_string (fst f) @ '':'' @ t])
      (concat (map (\<lambda>f. if snd f = JUndefined then [] else [(fst f, json_normal (snd f))]) fs)))
    = concat (map (\<lambda>f. case json num (snd f) of None \<Rightarrow> [] | Some t \<Rightarrow> [json_string (fst f) @ '':'' @ t]) fs)"
    by (induction fs) (auto split: option.split)
  then show ?case by simp
qed simp_all

text \<open>Nothing is lost between JSON.stringify and JSON.parse: for every value whose numbers are
  integers, undefined has no text, and any other value is read back as itself, whatever its strings
  contain, but for the undefined fields (dropped) and the NaNs (null).\<close>

theorem json_round_trip:
  assumes "integral v"
  shows "map_option json_parse (json integer_text v)
    = (if v = JUndefined then None else Some (Inr (json_normal v)))"
proof (cases "v = JUndefined")
  case False
  have "json integer_text v = Some (json_text (json_normal v))"
    using printable_json [OF printable_normal [OF assms False]] by (simp add: json_normal_same)
  then show ?thesis using False by (simp add: json_parse_text printable_normal assms)
qed simp

theorem json_round_trip_witness:
  "map_option json_parse (json integer_text
      (JObj [(''recordConsent'', JNull), (''w'', JUndefined), (''n'', JArr [JNum (- 12), JStr [char_of (34 :: nat)]])]))
    = Some (Inr (JObj [(''recordConsent'', JNull), (''n'', JArr [JNum (- 12), JStr [char_of (34 :: nat)]])]))"
  by (subst json_round_trip) simp_all

end
