(* ===== verification/JsonDecode.thy ===== *)
theory JsonDecode
  imports Json
begin

text \<open>
  The JSON library of the OCaml client. It is not in the repository: \<open>json_lib\<close> is the record of the
  functions the modelled code calls, at the types it uses them, and \<open>json_lib_ok\<close> states what their
  documentation says of them. \<open>sample_lib\<close> is one library that keeps these promises.
\<close>

datatype json_exn = ParseError string | DecodeError string

type_synonym 'a dec = "jsval \<Rightarrow> json_exn + 'a"

record json_lib =
  lib_parseOrRaise :: "string \<Rightarrow> json_exn + jsval"
  lib_object :: "(string \<times> jsval) list \<Rightarrow> jsval"
  lib_bool :: "bool \<Rightarrow> jsval"
  lib_null :: jsval
  dec_bool :: "bool dec"
  dec_string :: "string dec"
  dec_optional :: "bool dec \<Rightarrow> bool option dec"
  dec_field :: "string \<Rightarrow> bool dec \<Rightarrow> bool dec"
  dec_field_string :: "string \<Rightarrow> string dec \<Rightarrow> string dec"
  dec_field_value :: "string \<Rightarrow> jsval dec \<Rightarrow> jsval dec"
  dec_field_option :: "string \<Rightarrow> bool option dec \<Rightarrow> bool option dec"
  dec_default :: "bool \<Rightarrow> bool dec \<Rightarrow> bool dec"
  dec_default_option :: "bool option \<Rightarrow> bool option dec \<Rightarrow> bool option dec"

definition decode_fails :: "json_exn + 'a \<Rightarrow> bool" where
  "decode_fails x = (case x of Inl (DecodeError m) \<Rightarrow> True | _ \<Rightarrow> False)"

text \<open>\<open>parseOrRaise\<close> is \<open>JSON.parse\<close> with \<open>ParseError\<close> as its exception.\<close>

definition parse_law :: "(string \<Rightarrow> json_exn + jsval) \<Rightarrow> bool" where
  "parse_law p \<longleftrightarrow> (\<forall>s v. json_parse s = Inr v \<longrightarrow> p s = Inr v)
     \<and> (\<forall>s. json_parse s = Inl JsonSyntax \<longrightarrow> (\<exists>m. p s = Inl (ParseError m)))"

text \<open>\<open>field\<close> decodes the value of a key, and raises on anything but an object with that key.\<close>

definition field_law :: "(string \<Rightarrow> 'a dec \<Rightarrow> 'a dec) \<Rightarrow> bool" where
  "field_law f \<longleftrightarrow> (\<forall>k d j.
     (case j of
        JObj fs \<Rightarrow>
          (case map_of (rev fs) k of
             None \<Rightarrow> decode_fails (f k d j)
           | Some v \<Rightarrow> v \<noteq> JUndefined \<longrightarrow>
               (\<forall>x. d v = Inr x \<longrightarrow> f k d j = Inr x) \<and> (decode_fails (d v) \<longrightarrow> decode_fails (f k d j)))
      | _ \<Rightarrow> decode_fails (f k d j)))"

text \<open>\<open>withDefault\<close> replaces a decoding failure by its default.\<close>

definition default_law :: "('a \<Rightarrow> 'a dec \<Rightarrow> 'a dec) \<Rightarrow> bool" where
  "default_law f \<longleftrightarrow> (\<forall>x d j. f x d j = (if decode_fails (d j) then Inr x else d j))"

definition bool_law :: "bool dec \<Rightarrow> bool" where
  "bool_law d \<longleftrightarrow> (\<forall>j. case j of JBool b \<Rightarrow> d j = Inr b | _ \<Rightarrow> decode_fails (d j))"

definition string_law :: "string dec \<Rightarrow> bool" where
  "string_law d \<longleftrightarrow> (\<forall>j. case j of JStr s \<Rightarrow> d j = Inr s | _ \<Rightarrow> decode_fails (d j))"

definition optional_law :: "(bool dec \<Rightarrow> bool option dec) \<Rightarrow> bool" where
  "optional_law f \<longleftrightarrow> (\<forall>d j. f d j = (if decode_fails (d j) then Inr None else map_sum id Some (d j)))"

definition json_lib_ok :: "json_lib \<Rightarrow> bool" where
  "json_lib_ok L \<longleftrightarrow> parse_law (lib_parseOrRaise L)
     \<and> lib_object L = JObj \<and> lib_bool L = JBool \<and> lib_null L = JNull
     \<and> bool_law (dec_bool L) \<and> optional_law (dec_optional L)
     \<and> string_law (dec_string L) \<and> field_law (dec_field L) \<and> field_law (dec_field_string L)
     \<and> field_law (dec_field_value L) \<and> field_law (dec_field_option L)
     \<and> default_law (dec_default L) \<and> default_law (dec_default_option L)"

section \<open>A library that keeps the promises\<close>

fun sample_bool :: "bool dec" where
  "sample_bool (JBool b) = Inr b"
| "sample_bool _ = Inl (DecodeError ''Expected boolean'')"

fun sample_string :: "string dec" where
  "sample_string (JStr s) = Inr s"
| "sample_string _ = Inl (DecodeError ''Expected string'')"

definition sample_optional :: "bool dec \<Rightarrow> bool option dec" where
  "sample_optional d j = (if decode_fails (d j) then Inr None else map_sum id Some (d j))"

fun sample_field :: "string \<Rightarrow> 'a dec \<Rightarrow> 'a dec" where
  "sample_field k d (JObj fs) =
     (case map_of (rev fs) k of None \<Rightarrow> Inl (DecodeError (''Expected field '' @ k)) | Some v \<Rightarrow> d v)"
| "sample_field k d _ = Inl (DecodeError ''Expected object'')"

definition sample_default :: "'a \<Rightarrow> 'a dec \<Rightarrow> 'a dec" where
  "sample_default x d j = (if decode_fails (d j) then Inr x else d j)"

definition sample_parse :: "string \<Rightarrow> json_exn + jsval" where
  "sample_parse s = map_sum (\<lambda>_. ParseError ''SyntaxError'') id (json_parse s)"

definition sample_lib :: json_lib where
  "sample_lib = \<lparr>lib_parseOrRaise = sample_parse, lib_object = JObj, lib_bool = JBool, lib_null = JNull,
     dec_bool = sample_bool, dec_string = sample_string, dec_optional = sample_optional, dec_field = sample_field,
     dec_field_string = sample_field, dec_field_value = sample_field, dec_field_option = sample_field, dec_default = sample_default, dec_default_option = sample_default\<rparr>"

lemma sample_field_law: "field_law sample_field"
proof -
  have "case j of
      JObj fs \<Rightarrow>
        (case map_of (rev fs) k of
           None \<Rightarrow> decode_fails (sample_field k d j)
         | Some v \<Rightarrow> v \<noteq> JUndefined \<longrightarrow>
             (\<forall>x. d v = Inr x \<longrightarrow> sample_field k d j = Inr x) \<and> (decode_fails (d v) \<longrightarrow> decode_fails (sample_field k d j)))
    | _ \<Rightarrow> decode_fails (sample_field k d j)" for k and d :: "'a dec" and j
    by (cases j) (auto simp: decode_fails_def split: option.split)
  then show ?thesis by (simp add: field_law_def)
qed

lemma sample_bool_law: "bool_law sample_bool"
proof -
  have "case j of JBool b \<Rightarrow> sample_bool j = Inr b | _ \<Rightarrow> decode_fails (sample_bool j)" for j
    by (cases j) (simp_all add: decode_fails_def)
  then show ?thesis by (simp add: bool_law_def)
qed

lemma sample_string_law: "string_law sample_string"
proof -
  have "case j of JStr s \<Rightarrow> sample_string j = Inr s | _ \<Rightarrow> decode_fails (sample_string j)" for j
    by (cases j) (simp_all add: decode_fails_def)
  then show ?thesis by (simp add: string_law_def)
qed

lemma sample_lib_ok: "json_lib_ok sample_lib"
  by (simp add: json_lib_ok_def sample_lib_def sample_field_law sample_bool_law sample_string_law parse_law_def sample_parse_def
      optional_law_def sample_optional_def default_law_def sample_default_def)

section \<open>What the decoders give\<close>

named_theorems lib_simps \<open>the JSON library on the values the client stores\<close>

lemma decode_fails_Inr [simp]: "\<not> decode_fails (Inr x)"
  by (simp add: decode_fails_def)

lemma field_found:
  assumes "field_law f" "map_of (rev fs) k = Some v" "v \<noteq> JUndefined" "d v = Inr x"
  shows "f k d (JObj fs) = Inr x"
  using assms(1) [unfolded field_law_def, THEN spec [of _ k], THEN spec [of _ d], THEN spec [of _ "JObj fs"]]
    assms(2-4) by simp

lemma field_missing:
  assumes "field_law f" "map_of (rev fs) k = None"
  shows "decode_fails (f k d (JObj fs))"
  using assms(1) [unfolded field_law_def, THEN spec [of _ k], THEN spec [of _ d], THEN spec [of _ "JObj fs"]]
    assms(2) by simp

lemma default_ok: "default_law f \<Longrightarrow> d j = Inr x \<Longrightarrow> f y d j = Inr x"
  by (simp add: default_law_def)

lemma default_fails: "default_law f \<Longrightarrow> decode_fails (d j) \<Longrightarrow> f y d j = Inr y"
  by (simp add: default_law_def)

lemma lib_bool_value [lib_simps]:
  assumes "json_lib_ok L"
  shows "dec_bool L (JBool b) = Inr b" "dec_optional L (dec_bool L) (JBool b) = Inr (Some b)"
    "dec_optional L (dec_bool L) JNull = Inr None"
proof -
  have l: "bool_law (dec_bool L)" "optional_law (dec_optional L)" using assms by (simp_all add: json_lib_ok_def)
  show b: "dec_bool L (JBool b) = Inr b"
    using l(1) [unfolded bool_law_def, rule_format, of "JBool b"] by simp
  have "decode_fails (dec_bool L JNull)"
    using l(1) [unfolded bool_law_def, rule_format, of JNull] by simp
  then show "dec_optional L (dec_bool L) JNull = Inr None" "dec_optional L (dec_bool L) (JBool b) = Inr (Some b)"
    using l(2) b by (simp_all add: optional_law_def)
qed

text \<open>A string field, a Boolean field and a field of any other decoder.\<close>

lemma lib_fields:
  assumes "json_lib_ok L"
  shows "field_law (dec_field L)" "field_law (dec_field_string L)" "field_law (dec_field_value L)"
  using assms by (simp_all add: json_lib_ok_def)

lemma lib_string_value [lib_simps]:
  assumes "json_lib_ok L"
  shows "dec_string L (JStr s) = Inr s"
proof -
  have "string_law (dec_string L)" using assms by (simp add: json_lib_ok_def)
  from this [unfolded string_law_def, rule_format, of "JStr s"] show ?thesis by simp
qed

lemma lib_string_field:
  assumes "json_lib_ok L" "map_of (rev fs) k = Some (JStr s)"
  shows "dec_field_string L k (dec_string L) (JObj fs) = Inr s"
  by (rule field_found [OF lib_fields(2) [OF assms(1)] assms(2)]) (simp_all add: lib_string_value [OF assms(1)])

lemma lib_bool_plain_field:
  assumes "json_lib_ok L" "map_of (rev fs) k = Some (JBool b)"
  shows "dec_field L k (dec_bool L) (JObj fs) = Inr b"
  by (rule field_found [OF lib_fields(1) [OF assms(1)] assms(2)]) (simp_all add: lib_bool_value [OF assms(1)])

lemma lib_value_field:
  assumes "json_lib_ok L" "map_of (rev fs) k = Some v" "v \<noteq> JUndefined" "d v = Inr x"
  shows "dec_field_value L k d (JObj fs) = Inr x"
  by (rule field_found [of _ fs k v d x, OF lib_fields(3) [OF assms(1)] assms(2-4)])

lemma lib_string_missing:
  assumes "json_lib_ok L" "map_of (rev fs) k = None"
  shows "\<exists>m. dec_field_string L k (dec_string L) (JObj fs) = Inl (DecodeError m)"
  using field_missing [OF lib_fields(2) [OF assms(1)] assms(2), of "dec_string L"]
  by (auto simp: decode_fails_def split: sum.splits json_exn.splits)

text \<open>A Boolean field with a default.\<close>

lemma lib_bool_field:
  assumes "json_lib_ok L" "map_of (rev fs) k = map_option JBool b"
  shows "dec_default L x (dec_field L k (dec_bool L)) (JObj fs) = Inr (case b of None \<Rightarrow> x | Some y \<Rightarrow> y)"
proof -
  have l: "field_law (dec_field L)" "default_law (dec_default L)" using assms(1) by (simp_all add: json_lib_ok_def)
  show ?thesis
  proof (cases b)
    case None
    then have "decode_fails (dec_field L k (dec_bool L) (JObj fs))" using field_missing [OF l(1)] assms(2) by simp
    then show ?thesis using default_fails [OF l(2)] None by simp
  next
    case (Some y)
    have "dec_field L k (dec_bool L) (JObj fs) = Inr y"
      by (rule field_found [OF l(1), where v = "JBool y"]) (use Some assms in \<open>simp_all add: lib_simps\<close>)
    then show ?thesis using default_ok [OF l(2)] Some by simp
  qed
qed

lemma lib_option_field:
  assumes "json_lib_ok L" "map_of (rev fs) k = Some (case c of None \<Rightarrow> JNull | Some b \<Rightarrow> JBool b)"
  shows "dec_default_option L x (dec_field_option L k (dec_optional L (dec_bool L))) (JObj fs) = Inr c"
proof -
  have l: "field_law (dec_field_option L)" "default_law (dec_default_option L)"
    using assms(1) by (simp_all add: json_lib_ok_def)
  have "dec_field_option L k (dec_optional L (dec_bool L)) (JObj fs) = Inr c"
    by (rule field_found [OF l(1) assms(2)]) (cases c; simp add: lib_simps assms(1))+
  then show ?thesis by (rule default_ok [OF l(2)])
qed

end
