(* ===== verification/Bootstrap.thy ===== *)
theory Bootstrap
  imports Json
begin

text \<open>
  The start-up task of \<open>client/src/appsupport.js\<close>: the parameters of the client, the choice of the
  debugger, the download of the worker scripts, the assembly of each worker's source, the creation
  of the workers, and the Pusher channel. What \<open>fetch\<close> delivers, the parsed query string and the
  text of a number in JSON are arguments.
\<close>

section \<open>The client\<close>

text \<open>The globals the page's template defines.\<close>

record page_globals =
  complete :: jsval
  userContentHost :: string
  environmentName :: string
  csrfToken :: string
  isAdmin :: bool
  page_buildHash :: string
  page_username :: string
  staticUrl :: string
  hashReplacements :: "(string \<times> string) list"

definition canvas_name :: "string \<Rightarrow> jsval" where
  "canvas_name pathname =
     (case nth_opt (js_split (CHR ''/'') pathname) 2 of None \<Rightarrow> JUndefined | Some s \<Rightarrow> JStr s)"

definition client_params :: "page_globals \<Rightarrow> jsval \<Rightarrow> jsval" where
  "client_params g canvasName = JObj [(''complete'', complete g), (''canvasName'', canvasName),
     (''userContentHost'', JStr (userContentHost g)), (''environment'', JStr (environmentName g)),
     (''csrfToken'', JStr (csrfToken g)), (''isAdmin'', JBool (isAdmin g)),
     (''buildHash'', JStr (page_buildHash g)), (''username'', JStr (page_username g))]"

datatype app_mode = Normal | Debugging

text \<open>\<open>urlParams.get\<close> gives the first value of the name, or \<open>null\<close>.\<close>

definition app_mode_of :: "(string \<times> string) list \<Rightarrow> app_mode" where
  "app_mode_of urlParams =
     (let enableDebugger = map_of urlParams ''debugger''
      in if enableDebugger = Some ''0'' \<or> enableDebugger = Some ''false'' \<or> enableDebugger = None
         then Normal else Debugging)"

section \<open>Downloading a script\<close>

text \<open>How \<open>fetch\<close> settles. The reason of a rejection is the network error, or the second call of
  \<open>resp.text()\<close>: a body can be read once, so that promise is itself rejected.\<close>

datatype fetch_outcome = RespOk string | RespBad string | NetworkError jsval

datatype fetch_reason = NetworkReason jsval | BodyAlreadyRead

text \<open>A promise on the console is written as an empty object.\<close>

definition promise_value :: jsval where
  "promise_value = JObj []"

definition script_url :: "page_globals \<Rightarrow> string \<Rightarrow> string" where
  "script_url g url = ''//'' @ staticUrl g
     @ (case map_of (hashReplacements g) url of
          None \<Rightarrow> url | Some h \<Rightarrow> if h = [] then url else h)"

definition fetcher :: "page_globals \<Rightarrow> string \<Rightarrow> fetch_outcome \<Rightarrow> (fetch_reason + string) \<times> effect list" where
  "fetcher g url0 outcome =
     (let url = script_url g url0;
          network = ConsoleError [JStr ''Network error fetching'', JStr url]
      in case outcome of
           RespOk text \<Rightarrow> (Inr text, [])
         | RespBad text \<Rightarrow> (Inl BodyAlreadyRead,
             [ConsoleError [JStr ''Response error fetching'', JStr url, promise_value], network])
         | NetworkError err \<Rightarrow> (Inl (NetworkReason err), [network]))"

section \<open>Starting the workers\<close>

definition newlines :: string where
  "newlines = [CHR ''\<newline>'', CHR ''\<newline>'']"

definition quote :: string where
  "quote = [char_of (39 :: nat)]"

definition rollbarConfigSetup :: "string \<Rightarrow> string" where
  "rollbarConfigSetup config_json = ''const rollbarConfig = '' @ quote @ config_json @ quote @ '';'' @ newlines"

definition buildHashSetup :: "string \<Rightarrow> string" where
  "buildHashSetup buildHash = ''const buildHash = '' @ quote @ buildHash @ quote @ '';'' @ newlines"

definition analysis_source :: "string \<Rightarrow> string \<Rightarrow> string \<Rightarrow> string \<Rightarrow> string" where
  "analysis_source config_json buildHash analysisjs analysiswrapperjs =
     concat [rollbarConfigSetup config_json, buildHashSetup buildHash, analysisjs, newlines, analysiswrapperjs]"

definition fetcher_source :: "string \<Rightarrow> string \<Rightarrow> string \<Rightarrow> string" where
  "fetcher_source config_json buildHash fetcherjs =
     concat [rollbarConfigSetup config_json, buildHashSetup buildHash, fetcherjs]"

text \<open>
  The three downloads run concurrently. The analysis worker's function first awaits \<open>analysis.js\<close>
  and then \<open>analysiswrapper.js\<close>; a rejection ends it with that reason. \<open>run_analysis\<close> and
  \<open>run_fetcher\<close> continue a function as far as the settled downloads allow.
\<close>

datatype script_file = AnalysisJs | AnalysisWrapperJs | FetcherJs

datatype starter = AwaitFirst | AwaitSecond string | Started | Rejected fetch_reason

record boot =
  settled :: "script_file \<Rightarrow> (fetch_reason + string) option"
  analysis_starter :: starter
  fetcher_starter :: starter
  workers :: "(script_file \<times> string) list"
  boot_log :: "effect list"

definition init_boot :: boot where
  "init_boot = \<lparr>settled = (\<lambda>_. None), analysis_starter = AwaitFirst, fetcher_starter = AwaitFirst,
     workers = [], boot_log = []\<rparr>"

definition await_first :: "boot \<Rightarrow> boot" where
  "await_first b =
     (if analysis_starter b = AwaitFirst
      then (case settled b AnalysisJs of
              None \<Rightarrow> b
            | Some (Inl r) \<Rightarrow> b\<lparr>analysis_starter := Rejected r\<rparr>
            | Some (Inr js) \<Rightarrow> b\<lparr>analysis_starter := AwaitSecond js\<rparr>)
      else b)"

definition await_second :: "string \<Rightarrow> string \<Rightarrow> boot \<Rightarrow> boot" where
  "await_second config_json buildHash b =
     (case analysis_starter b of
        AwaitSecond js \<Rightarrow>
          (case settled b AnalysisWrapperJs of
             None \<Rightarrow> b
           | Some (Inl r) \<Rightarrow> b\<lparr>analysis_starter := Rejected r\<rparr>
           | Some (Inr wrapper) \<Rightarrow> b\<lparr>analysis_starter := Started,
               workers := workers b @ [(AnalysisJs, analysis_source config_json buildHash js wrapper)]\<rparr>)
      | _ \<Rightarrow> b)"

definition run_analysis :: "string \<Rightarrow> string \<Rightarrow> boot \<Rightarrow> boot" where
  "run_analysis config_json buildHash b = await_second config_json buildHash (await_first b)"

definition run_fetcher :: "string \<Rightarrow> string \<Rightarrow> boot \<Rightarrow> boot" where
  "run_fetcher config_json buildHash b =
     (if fetcher_starter b = AwaitFirst
      then (case settled b FetcherJs of
              None \<Rightarrow> b
            | Some (Inl r) \<Rightarrow> b\<lparr>fetcher_starter := Rejected r\<rparr>
            | Some (Inr js) \<Rightarrow> b\<lparr>fetcher_starter := Started,
                workers := workers b @ [(FetcherJs, fetcher_source config_json buildHash js)]\<rparr>)
      else b)"

fun script_path :: "script_file \<Rightarrow> string" where
  "script_path AnalysisJs = ''/analysis.js''"
| "script_path AnalysisWrapperJs = ''/analysiswrapper.js''"
| "script_path FetcherJs = ''/fetcher.js''"

text \<open>A download settles (once), and the functions waiting for it continue.\<close>

definition settle :: "page_globals \<Rightarrow> string \<Rightarrow> script_file \<times> fetch_outcome \<Rightarrow> boot \<Rightarrow> boot" where
  "settle g config_json e b =
     (case fetcher g (script_path (fst e)) (snd e) of
        (r, es) \<Rightarrow> run_fetcher config_json (page_buildHash g) (run_analysis config_json (page_buildHash g)
          (b\<lparr>settled := (settled b)(fst e := Some r), boot_log := boot_log b @ es\<rparr>)))"

section \<open>Pusher\<close>

text \<open>The connection, made only when the configuration enables Pusher.\<close>

definition pusher_connect :: "bool \<Rightarrow> string \<Rightarrow> string \<Rightarrow> effect list" where
  "pusher_connect enabled key cluster =
     (if enabled
      then [CallExt ''Pusher'' [JStr key, JObj [(''cluster'', JStr cluster), (''forceTLS'', JBool True)]]]
      else [])"

text \<open>The bindings of the channel, in order: the push event and the DOM event it becomes.\<close>

definition pusher_bindings :: "(string \<times> string) list" where
  "pusher_bindings = [(''new_trace'', ''newTracePush''), (''new_404'', ''new404Push''),
     (''new_static_deploy'', ''newStaticDeploy''), (''new_presence'', ''newPresencePush''),
     (''add_op'', ''addOp''), (''worker_state'', ''workerStatePush'')]"

definition pusher_channel :: "string \<Rightarrow> string" where
  "pusher_channel canvasID = ''canvas_'' @ canvasID"

definition pusher_push :: "bool \<Rightarrow> string \<Rightarrow> string \<Rightarrow> string \<Rightarrow> jsval \<Rightarrow> effect list" where
  "pusher_push enabled canvasID channel event data =
     (if enabled \<and> channel = pusher_channel canvasID
      then concat (map (\<lambda>(ev, dom). if ev = event then [DispatchEvent dom data] else []) pusher_bindings)
      else [])"

section \<open>Reading the literal back\<close>

text \<open>
  The value of a single-quoted string literal, from after its opening quote, with the text after
  its closing quote. \<open>None\<close> is a syntax error: a raw line terminator or the end of the text. Of the
  escape sequences the reader knows those that occur in JSON.
\<close>

definition backslash :: char where
  "backslash = char_of (92 :: nat)"

definition single_quote :: char where
  "single_quote = char_of (39 :: nat)"

definition escape_value :: "char \<Rightarrow> char option" where
  "escape_value c =
     (if c = char_of (34 :: nat) \<or> c = backslash then Some c
      else if c = CHR ''b'' then Some (char_of (8 :: nat))
      else if c = CHR ''t'' then Some (char_of (9 :: nat))
      else if c = CHR ''n'' then Some (char_of (10 :: nat))
      else if c = CHR ''f'' then Some (char_of (12 :: nat))
      else if c = CHR ''r'' then Some (char_of (13 :: nat))
      else None)"

definition hex_value :: "char \<Rightarrow> nat" where
  "hex_value c = (let n = of_char c :: nat in if n < 58 then n - 48 else n - 87)"

fun literal_value :: "string \<Rightarrow> (string \<times> string) option" where
  "literal_value [] = None"
| "literal_value (c # cs) =
     (if c = single_quote then Some ([], cs)
      else if c = char_of (10 :: nat) \<or> c = char_of (13 :: nat) then None
      else if c \<noteq> backslash then
        (case literal_value cs of None \<Rightarrow> None | Some (v, rest) \<Rightarrow> Some (c # v, rest))
      else
        (case cs of
           [] \<Rightarrow> None
         | e # es \<Rightarrow>
             (if e = CHR ''u'' then
                (case es of
                   a # b # x # y # r \<Rightarrow>
                     (case literal_value r of None \<Rightarrow> None
                      | Some (v, rest) \<Rightarrow> Some (char_of (16 * hex_value x + hex_value y) # v, rest))
                 | _ \<Rightarrow> None)
              else
                (case escape_value e of
                   None \<Rightarrow> None
                 | Some d \<Rightarrow>
                     (case literal_value es of None \<Rightarrow> None
                      | Some (v, rest) \<Rightarrow> Some (d # v, rest))))))"

definition plain_string :: "string \<Rightarrow> bool" where
  "plain_string s \<longleftrightarrow> (\<forall>c \<in> set s. 32 \<le> (of_char c :: nat) \<and> of_char c \<notin> {34 :: nat, 39, 92})"

text \<open>The strings that appear in the text of a value.\<close>

fun plain :: "jsval \<Rightarrow> bool" where
  "plain (JStr s) = plain_string s"
| "plain (JArr vs) = list_all plain vs"
| "plain (JObj fs) = list_all (\<lambda>f. snd f = JUndefined \<or> (plain_string (fst f) \<and> plain (snd f))) fs"
| "plain _ = True"

definition unquoted :: "string \<Rightarrow> bool" where
  "unquoted t \<longleftrightarrow> backslash \<notin> set t \<and> single_quote \<notin> set t"

lemma unquoted_simps [simp]:
  "unquoted []"
  "unquoted (xs @ ys) \<longleftrightarrow> unquoted xs \<and> unquoted ys"
  "unquoted (c # cs) \<longleftrightarrow> c \<noteq> backslash \<and> c \<noteq> single_quote \<and> unquoted cs"
  by (auto simp: unquoted_def)

lemma unquoted_concat: "unquoted (concat ss) \<longleftrightarrow> list_all unquoted ss"
  by (induction ss) auto

lemma of_backslash: "of_char backslash = (92 :: nat)" "of_char single_quote = (39 :: nat)"
  by (simp_all add: backslash_def single_quote_def)

lemma special_iff:
  "c = backslash \<longleftrightarrow> of_char c = (92 :: nat)" "c = single_quote \<longleftrightarrow> of_char c = (39 :: nat)"
  by (simp_all add: backslash_def single_quote_def char_eq_nat)

lemma hex_digit_unquoted: "hex_digit n \<noteq> backslash \<and> hex_digit n \<noteq> single_quote"
proof -
  have "hex_digit n \<in> set ''0123456789abcdef''" unfolding hex_digit_def by (rule nth_mem) simp
  then show ?thesis by (auto simp: special_iff)
qed

lemma json_char_unquoted:
  "unquoted (json_char c) \<longleftrightarrow> 32 \<le> (of_char c :: nat) \<and> of_char c \<notin> {34 :: nat, 39, 92}"
  by (auto simp: json_char_def Let_def special_iff hex_digit_unquoted)

lemma json_string_unquoted: "unquoted (json_string s) \<longleftrightarrow> plain_string s"
  by (auto simp: json_string_def unquoted_concat list_all_iff plain_string_def json_char_unquoted special_iff)

lemma commas_unquoted: "unquoted (commas ss) \<longleftrightarrow> list_all unquoted ss"
  by (induction ss rule: commas.induct) (auto simp: special_iff)

lemma list_all_concat_map: "list_all P (concat (map g xs)) \<longleftrightarrow> list_all (\<lambda>x. list_all P (g x)) xs"
  by (induction xs) auto

lemma json_unquoted:
  assumes "\<And>q. unquoted (num q)"
  shows "json num v = Some t \<Longrightarrow> unquoted t \<longleftrightarrow> plain v"
proof (induction v arbitrary: t rule: plain.induct)
  case (1 s)
  then show ?case by (auto simp: json_string_unquoted)
next
  case (2 vs)
  have "unquoted (case json num v of None \<Rightarrow> ''null'' | Some t \<Rightarrow> t) \<longleftrightarrow> plain v" if "v \<in> set vs" for v
    using 2(1) [OF that] by (cases "json num v"; cases v) (auto simp: special_iff)
  then show ?case using 2(2)
    by (auto simp: commas_unquoted list_all_iff special_iff)
next
  case (3 fs)
  have "list_all unquoted (case json num (snd f) of None \<Rightarrow> [] | Some t \<Rightarrow> [json_string (fst f) @ '':'' @ t])
      \<longleftrightarrow> snd f = JUndefined \<or> (plain_string (fst f) \<and> plain (snd f))" if "f \<in> set fs" for f
  proof (cases "snd f = JUndefined")
    case False
    then obtain u where u: "json num (snd f) = Some u" by (cases "snd f") auto
    show ?thesis using 3(1) [OF that u] False u by (simp add: json_string_unquoted special_iff)
  qed simp
  then have "list_all (\<lambda>f. list_all unquoted (case json num (snd f) of None \<Rightarrow> []
        | Some t \<Rightarrow> [json_string (fst f) @ '':'' @ t])) fs \<longleftrightarrow> plain (JObj fs)"
    unfolding plain.simps by (intro list.pred_cong) simp_all
  then show ?case using 3(2) by (auto simp: commas_unquoted list_all_concat_map special_iff)
qed (use assms in \<open>auto simp: special_iff\<close>)

lemma literal_value_plain:
  "unquoted t \<Longrightarrow> char_of (10 :: nat) \<notin> set t \<Longrightarrow> char_of (13 :: nat) \<notin> set t \<Longrightarrow>
   literal_value (t @ single_quote # rest) = Some (t, rest)"
  by (induction t) auto

lemma literal_value_escape:
  assumes "literal_value (backslash # cs) = Some (v, r)"
  shows "\<exists>d v' es. v = d # v' \<and> literal_value es = Some (v', r) \<and> length es < length cs"
proof -
  have n: "backslash \<noteq> single_quote" "backslash \<noteq> char_of (10 :: nat)" "backslash \<noteq> char_of (13 :: nat)"
    by (simp_all add: backslash_def single_quote_def char_eq_nat)
  obtain e es where cs: "cs = e # es" using assms n by (cases cs) auto
  show ?thesis
  proof (cases "e = CHR ''u''")
    case True
    with assms n cs obtain p q x y es' d v' where
      "es = p # q # x # y # es'" "literal_value es' = Some (v', r)" "v = d # v'"
      by (auto split: list.splits option.splits)
    moreover from this have "length es' < length cs" using cs by simp
    ultimately show ?thesis by blast
  next
    case False
    with assms n cs obtain d v' where "escape_value e = Some d" "literal_value es = Some (v', r)" "v = d # v'"
      by (auto split: option.splits)
    then show ?thesis using cs by auto
  qed
qed

lemma literal_value_length:
  "literal_value s = Some (v, r) \<Longrightarrow> length v + length r < length s
    \<and> (Suc (length v + length r) = length s \<longrightarrow> unquoted v \<and> s = v @ single_quote # r)"
proof (induction s arbitrary: v rule: length_induct)
  case (1 s)
  then obtain c cs where s: "s = c # cs" by (cases s) auto
  show ?case
  proof (cases "c = backslash")
    case True
    then obtain d v' es where d: "v = d # v'" "literal_value es = Some (v', r)" "length es < length cs"
      using literal_value_escape 1(2) s by blast
    then have "length v' + length r < length es" using 1(1) s by simp
    then show ?thesis using d s by simp
  next
    case False
    then show ?thesis using 1 s by (fastforce split: if_splits option.splits)
  qed
qed

definition one_line :: "string \<Rightarrow> bool" where
  "one_line t \<longleftrightarrow> char_of (10 :: nat) \<notin> set t \<and> char_of (13 :: nat) \<notin> set t"

lemma one_line_simps [simp]:
  "one_line []"
  "one_line (xs @ ys) \<longleftrightarrow> one_line xs \<and> one_line ys"
  "one_line (c # cs) \<longleftrightarrow> of_char c \<notin> {10 :: nat, 13} \<and> one_line cs"
  by (auto simp: one_line_def char_eq_nat) (simp_all add: eq_commute char_eq_nat)

lemma one_line_concat: "one_line (concat ss) \<longleftrightarrow> list_all one_line ss"
  by (induction ss) auto

lemma hex_digit_one_line: "(of_char (hex_digit n) :: nat) \<notin> {10, 13}"
proof -
  have "hex_digit n \<in> set ''0123456789abcdef''" unfolding hex_digit_def by (rule nth_mem) simp
  then show ?thesis by auto
qed

lemma json_char_one_line [simp]: "one_line (json_char c)"
  using hex_digit_one_line by (auto simp: json_char_def Let_def)

lemma json_string_one_line [simp]: "one_line (json_string s)"
  by (simp add: json_string_def one_line_concat list_all_iff)

lemma commas_one_line: "one_line (commas ss) \<longleftrightarrow> list_all one_line ss"
  by (induction ss rule: commas.induct) auto

lemma json_one_line:
  assumes "\<And>q. one_line (num q)"
  shows "json num v = Some t \<Longrightarrow> one_line t"
proof (induction v arbitrary: t rule: plain.induct)
  case (2 vs)
  have "one_line (case json num v of None \<Rightarrow> ''null'' | Some t \<Rightarrow> t)" if "v \<in> set vs" for v
    using 2(1) [OF that] by (cases "json num v") auto
  then show ?case using 2(2) by (auto simp: commas_one_line list_all_iff)
next
  case (3 fs)
  have "list_all one_line (case json num (snd f) of None \<Rightarrow> [] | Some t \<Rightarrow> [json_string (fst f) @ '':'' @ t])"
    if "f \<in> set fs" for f
    using 3(1) [OF that] by (cases "json num (snd f)") auto
  then have "list_all (\<lambda>f. list_all one_line (case json num (snd f) of None \<Rightarrow> []
      | Some t \<Rightarrow> [json_string (fst f) @ '':'' @ t])) fs" by (simp add: list_all_iff)
  then show ?case using 3(2) by (auto simp: commas_one_line list_all_concat_map)
qed (use assms in auto)

section \<open>Starting the workers: lemmas\<close>

text \<open>What each function makes of the results of its downloads.\<close>

definition analysis_result :: "string \<Rightarrow> string \<Rightarrow> (script_file \<Rightarrow> (fetch_reason + string) option) \<Rightarrow> starter" where
  "analysis_result config_json buildHash st =
     (case st AnalysisJs of
        None \<Rightarrow> AwaitFirst
      | Some (Inl r) \<Rightarrow> Rejected r
      | Some (Inr js) \<Rightarrow>
          (case st AnalysisWrapperJs of
             None \<Rightarrow> AwaitSecond js
           | Some (Inl r) \<Rightarrow> Rejected r
           | Some (Inr wrapper) \<Rightarrow> Started))"

definition fetcher_result :: "(script_file \<Rightarrow> (fetch_reason + string) option) \<Rightarrow> starter" where
  "fetcher_result st = (case st FetcherJs of None \<Rightarrow> AwaitFirst | Some (Inl r) \<Rightarrow> Rejected r | Some (Inr js) \<Rightarrow> Started)"

definition boot_inv :: "string \<Rightarrow> string \<Rightarrow> boot \<Rightarrow> bool" where
  "boot_inv config_json buildHash b \<longleftrightarrow>
     analysis_starter b = analysis_result config_json buildHash (settled b)
     \<and> fetcher_starter b = fetcher_result (settled b)
     \<and> set (workers b) =
         (case (settled b AnalysisJs, settled b AnalysisWrapperJs) of
            (Some (Inr js), Some (Inr wrapper)) \<Rightarrow> {(AnalysisJs, analysis_source config_json buildHash js wrapper)}
          | _ \<Rightarrow> {})
         \<union> (case settled b FetcherJs of Some (Inr js) \<Rightarrow> {(FetcherJs, fetcher_source config_json buildHash js)} | _ \<Rightarrow> {})
     \<and> distinct (workers b)"

lemma boot_inv_init: "boot_inv config_json buildHash init_boot"
  by (simp add: boot_inv_def init_boot_def analysis_result_def fetcher_result_def)

lemmas boot_step_defs = settle_def run_analysis_def run_fetcher_def await_first_def
  await_second_def analysis_result_def fetcher_result_def

lemma outcome_cases:
  obtains "x = None" | r where "x = Some (Inl r)" | js where "x = Some (Inr js)"
  by (metis not_None_eq sum.exhaust)

lemma settle_inv:
  assumes "boot_inv config_json (page_buildHash g) b" "settled b (fst e) = None"
  shows "boot_inv config_json (page_buildHash g) (settle g config_json e b)"
proof -
  obtain f oc where e: "e = (f, oc)" by force
  obtain r es where r: "fetcher g (script_path f) oc = (r, es)" by force
  show ?thesis
    using assms r unfolding e boot_inv_def
    by (cases f; cases r; cases "settled b AnalysisJs" rule: outcome_cases;
        cases "settled b AnalysisWrapperJs" rule: outcome_cases;
        cases "settled b FetcherJs" rule: outcome_cases)
      (simp_all add: boot_step_defs insert_commute)
qed

lemma await_settled [simp]:
  "settled (await_first b) = settled b" "settled (await_second config_json buildHash b) = settled b"
  "settled (run_fetcher config_json buildHash b) = settled b"
  by (auto simp: await_first_def await_second_def run_fetcher_def split: option.split sum.split starter.split)

lemma settle_settled:
  "settled (settle g config_json e b) = (settled b)(fst e := Some (fst (fetcher g (script_path (fst e)) (snd e))))"
  by (simp add: settle_def run_analysis_def split: prod.split)

lemma init_settled [simp]: "settled init_boot f = None"
  by (simp add: init_boot_def)

lemma boot_fold:
  "distinct (map fst es) \<Longrightarrow> (\<forall>e\<in>set es. settled b (fst e) = None) \<Longrightarrow>
   boot_inv config_json (page_buildHash g) b \<Longrightarrow>
   boot_inv config_json (page_buildHash g) (fold (settle g config_json) es b)
   \<and> settled (fold (settle g config_json) es b) = (\<lambda>f. case map_of es f of
        None \<Rightarrow> settled b f | Some oc \<Rightarrow> Some (fst (fetcher g (script_path f) oc)))"
proof (induction es arbitrary: b)
  case Nil
  then show ?case by simp
next
  case (Cons e es)
  let ?b = "settle g config_json e b"
  have i: "boot_inv config_json (page_buildHash g) ?b" using settle_inv [of config_json g b e] Cons.prems by simp
  have n: "\<forall>e'\<in>set es. settled ?b (fst e') = None"
    using Cons.prems(1,2) by (auto simp: settle_settled) (metis fst_conv image_eqI)
  have d: "distinct (map fst es)" using Cons.prems by simp
  have "map_of es (fst e) = None" using Cons.prems(1) by (simp add: map_of_eq_None_iff)
  then show ?case using Cons.IH [OF d n i]
    by (cases e) (auto simp: settle_settled fun_eq_iff split: option.split)
qed

lemma fetcher_ok: "fst (fetcher g url oc) = Inr js \<longleftrightarrow> oc = RespOk js"
  by (cases oc) (auto simp: fetcher_def Let_def)

lemma fetcher_cases: "fst (fetcher g url oc) = (case oc of RespOk js \<Rightarrow> Inr js | RespBad t \<Rightarrow> Inl BodyAlreadyRead
    | NetworkError e \<Rightarrow> Inl (NetworkReason e))"
  by (cases oc) (auto simp: fetcher_def Let_def)

section \<open>Properties\<close>

text \<open>Each worker is created once, with the same source whatever the order of the downloads: in
  every order in which downloads settle, the analysis worker exists exactly if both of its scripts
  arrived and the fetcher worker exactly if its script arrived, each at most once, with the
  configuration, the build hash and the scripts concatenated in the order of the code.\<close>

theorem workers_start_once:
  assumes "distinct (map fst es)"
  shows "let b = fold (settle g config_json) es init_boot
    in distinct (workers b)
      \<and> set (workers b) =
          {(AnalysisJs, analysis_source config_json (page_buildHash g) js wrapper) | js wrapper.
             (AnalysisJs, RespOk js) \<in> set es \<and> (AnalysisWrapperJs, RespOk wrapper) \<in> set es}
        \<union> {(FetcherJs, fetcher_source config_json (page_buildHash g) js) | js. (FetcherJs, RespOk js) \<in> set es}"
proof -
  let ?b = "fold (settle g config_json) es init_boot"
  have i: "boot_inv config_json (page_buildHash g) ?b"
    and st: "settled ?b = (\<lambda>f. case map_of es f of None \<Rightarrow> None | Some oc \<Rightarrow> Some (fst (fetcher g (script_path f) oc)))"
    using boot_fold [OF assms, of init_boot config_json g] boot_inv_init
    by (simp_all cong: option.case_cong)
  have m: "settled ?b f = Some (Inr js) \<longleftrightarrow> (f, RespOk js) \<in> set es" for f js
    using map_of_eq_Some_iff [OF assms, of f "RespOk js"] by (auto simp: st fetcher_ok split: option.split)
  show ?thesis using i unfolding boot_inv_def Let_def m [symmetric]
    by (cases "settled ?b AnalysisJs" rule: outcome_cases;
        cases "settled ?b AnalysisWrapperJs" rule: outcome_cases;
        cases "settled ?b FetcherJs" rule: outcome_cases) simp_all
qed

theorem workers_start_once_witness:
  "let g = \<lparr>complete = JNull, userContentHost = [], environmentName = [], csrfToken = [], isAdmin = False,
       page_buildHash = ''h'', page_username = ''u'', staticUrl = ''s'', hashReplacements = []\<rparr>;
     b = fold (settle g ''{}'') [(AnalysisWrapperJs, RespOk ''w''), (FetcherJs, RespBad ''x''),
       (AnalysisJs, RespOk ''a'')] init_boot
   in set (workers b) = {(AnalysisJs, analysis_source ''{}'' ''h'' ''a'' ''w'')}"
  using workers_start_once [of "[(AnalysisWrapperJs, RespOk ''w''), (FetcherJs, RespBad ''x''), (AnalysisJs, RespOk ''a'')]"
      "\<lparr>complete = JNull, userContentHost = [], environmentName = [], csrfToken = [], isAdmin = False,
       page_buildHash = ''h'', page_username = ''u'', staticUrl = ''s'', hashReplacements = []\<rparr>" "''{}''"]
  by (simp add: Let_def)

text \<open>The workers read their Rollbar configuration back exactly when it is free of quotes,
  backslashes and control characters: the page pastes the JSON text between single quotes, and the
  literal evaluates to that text, ending where the code ends it, if and only if no string that
  appears in the configuration contains one of these characters.\<close>

theorem rollbar_literal_reads_back:
  assumes "\<And>q. unquoted (num q) \<and> one_line (num q)" and "json num cfg = Some t"
  shows "\<exists>rest. rollbarConfigSetup t = ''const rollbarConfig = '' @ quote @ rest
    \<and> (literal_value rest = Some (t, '';'' @ newlines) \<longleftrightarrow> plain cfg)"
proof -
  let ?rest = "t @ quote @ '';'' @ newlines"
  have q: "quote = [single_quote]" by (simp add: quote_def single_quote_def)
  have u: "unquoted t \<longleftrightarrow> plain cfg" by (rule json_unquoted [OF _ assms(2)]) (simp add: assms(1))
  have o: "one_line t" by (rule json_one_line [OF _ assms(2)]) (simp add: assms(1))
  have "literal_value ?rest = Some (t, '';'' @ newlines) \<longleftrightarrow> unquoted t"
    using literal_value_plain [of t "'';'' @ newlines"] literal_value_length [of ?rest t "'';'' @ newlines"] o
    by (auto simp: q one_line_def)
  then show ?thesis using u by (intro exI [of _ ?rest]) (simp add: rollbarConfigSetup_def)
qed

theorem rollbar_literal_reads_back_witness:
  "\<exists>rest. rollbarConfigSetup (''{'' @ json_string ''name'' @ '':'' @ json_string (''O'' @ quote @ ''Hara'') @ ''}'')
      = ''const rollbarConfig = '' @ quote @ rest
    \<and> literal_value rest \<noteq> Some (''{'' @ json_string ''name'' @ '':'' @ json_string (''O'' @ quote @ ''Hara'') @ ''}'',
        '';'' @ newlines)"
proof -
  let ?cfg = "JObj [(''name'', JStr (''O'' @ quote @ ''Hara''))]"
  let ?t = "''{'' @ json_string ''name'' @ '':'' @ json_string (''O'' @ quote @ ''Hara'') @ ''}''"
  have n: "\<And>q :: rat. unquoted ''0'' \<and> one_line ''0''" by (simp add: special_iff)
  have j: "json (\<lambda>_. ''0'') ?cfg = Some ?t" by simp
  have "\<not> plain ?cfg" by (simp add: plain_string_def quote_def)
  then show ?thesis
    using rollbar_literal_reads_back [of "\<lambda>_. ''0''", OF n j] by blast
qed

text \<open>A response with an error status is reported as a network error too, and the rejection that
  reaches the worker's function is that of the second read of the body, never its text.\<close>

lemma bad_response_reported_twice:
  "fetcher g url (RespBad text) = (Inl BodyAlreadyRead,
     [ConsoleError [JStr ''Response error fetching'', JStr (script_url g url), promise_value],
      ConsoleError [JStr ''Network error fetching'', JStr (script_url g url)]])"
  by (simp add: fetcher_def Let_def)

text \<open>Every push event that has a binding becomes one DOM event, and no two become the same one.\<close>

lemma pusher_bindings_injective:
  "distinct (map fst pusher_bindings) \<and> distinct (map snd pusher_bindings)"
  by (simp add: pusher_bindings_def)

end
