(* ===== verification/AnalysisWrapper.thy ===== *)
theory AnalysisWrapper
  imports Bootstrap JsonDecode
begin

text \<open>
  The analysis worker, \<open>client/workers/AnalysisWrapper.ml\<close>, with the object \<open>darkAnalysis\<close> that
  \<open>backend/jsanalysis/jsanalysis.ml\<close> exports to it and \<open>reportError\<close> of
  \<open>client/src/prelude/Unshared.ml\<close>. The encoders, the execution engine and the decoder of its result
  are fields of the record \<open>analysis_env\<close>; a message is a JavaScript value that \<open>view\<close> reads as the
  client's data type.
\<close>

section \<open>Data\<close>

text \<open>A specification field is \<open>Some\<close> for the constructor \<open>F\<close>, \<open>None\<close> for a blank.\<close>

record handler_spec =
  spec_space :: "string option"
  spec_name :: "string option"
  spec_modifier :: "string option"

datatype analysis_params =
    AnalyzeHandler handler_spec jsval
  | AnalyzeFunction jsval

datatype analysis_error =
    AnalysisExecutionError analysis_params string
  | AnalysisParseError string

text \<open>An exception in the worker: one of the OCaml program, or one of JavaScript with its message.\<close>

datatype worker_exn = OcamlExn json_exn | JsExn "string option"

type_synonym perform_result = "analysis_error + jsval"

record analysis_env =
  view :: "jsval \<Rightarrow> analysis_params"
  encode_handler :: "jsval \<Rightarrow> string"
  encode_function :: "jsval \<Rightarrow> string"
  perform_handler_analysis :: "string \<Rightarrow> string + string"
  perform_function_analysis :: "string \<Rightarrow> string + string"
  env_parse :: "string \<Rightarrow> json_exn + jsval"
  analysisEnvelope :: "jsval \<Rightarrow> worker_exn + jsval"
  unit_value :: jsval

section \<open>Reports\<close>

text \<open>The reported value goes through a JSON text and back; a value without a text is \<open>null\<close>.\<close>

definition report_custom :: "jsval \<Rightarrow> jsval" where
  "report_custom v =
     (case json integer_text v of
        None \<Rightarrow> JNull
      | Some t \<Rightarrow> (case json_parse t of Inl e \<Rightarrow> JNull | Inr w \<Rightarrow> w))"

definition reportError :: "string \<Rightarrow> jsval \<Rightarrow> effect list" where
  "reportError msg msgVal =
     [ConsoleLog [JStr ''An unexpected but recoverable error happened: '', JStr msg, msgVal],
      CallExt ''console.trace'' [],
      CallExt ''rollbar.error'' [JStr msg, JUndefined, JNull, JNull, report_custom msgVal]]"

section \<open>The engine's interface\<close>

text \<open>A method of \<open>darkAnalysis\<close>: every exception of the analysis becomes a pair.\<close>

definition dark_analysis :: "(string \<Rightarrow> string + string) \<Rightarrow> string \<Rightarrow> string \<times> string" where
  "dark_analysis perform str =
     (case perform str of Inr msg \<Rightarrow> (''success'', msg) | Inl error \<Rightarrow> (''failure'', error))"

section \<open>The handler\<close>

definition handler_spec_string :: "handler_spec \<Rightarrow> string" where
  "handler_spec_string spec =
     (let ss = filter (\<lambda>s. s \<noteq> ''_'') (map (\<lambda>b. case b of Some s \<Rightarrow> s | None \<Rightarrow> ''_'')
        [spec_space spec, spec_name spec, spec_modifier spec])
      in ''('' @ join '', '' ss @ '')'')"

definition double_quoted :: "string \<Rightarrow> string" where
  "double_quoted s = char_of (34 :: nat) # s @ [char_of (34 :: nat)]"

definition stack_overflow :: "string \<Rightarrow> bool" where
  "stack_overflow msg \<longleftrightarrow> msg = ''('' @ double_quoted ''Stack overflow'' @ '')''
     \<or> msg = ''('' @ double_quoted (''SyntaxError: Invalid regular expression: /maximum call stack/: ''
         @ ''Maximum call stack size exceeded'') @ '')''"

definition too_big :: string where
  "too_big = ''Trace was too big to load into analysis''"

text \<open>The first half of the handler: the engine's text or an error, and what was reported.\<close>

definition analyse :: "analysis_env \<Rightarrow> jsval \<Rightarrow> (analysis_error + string) \<times> effect list" where
  "analyse env data =
     (if data = JNull \<or> data = JUndefined
      then (Inl (AnalysisParseError too_big), reportError too_big (unit_value env))
      else
        (case view env data of
           AnalyzeHandler spec hParams \<Rightarrow>
             (let (success, msg) = dark_analysis (perform_handler_analysis env) (encode_handler env hParams)
              in if success = ''success'' then (Inr msg, [])
                 else
                   let msg1 = (if stack_overflow msg
                         then ''Analysis results are too big to send back to the editor '' @ handler_spec_string spec
                         else msg)
                   in (Inl (AnalysisExecutionError (AnalyzeHandler spec hParams) msg1),
                       reportError ''An execution failure occurred in a handler'' (JStr msg1)))
         | AnalyzeFunction fParams \<Rightarrow>
             (let (success, msg) = dark_analysis (perform_function_analysis env) (encode_function env fParams)
              in if success = ''success'' then (Inr msg, [])
                 else (Inl (AnalysisExecutionError (AnalyzeFunction fParams) msg),
                       reportError ''An execution failure occurred in a function'' (JStr msg)))))"

text \<open>The second half: only exceptions of JavaScript are caught.\<close>

definition decode_result :: "analysis_env \<Rightarrow> string \<Rightarrow> (worker_exn + perform_result) \<times> effect list" where
  "decode_result env res =
     (case (case env_parse env res of Inl e \<Rightarrow> Inl (OcamlExn e) | Inr j \<Rightarrow> analysisEnvelope env j) of
        Inr envelope \<Rightarrow> (Inr (Inr envelope), [])
      | Inl (JsExn message) \<Rightarrow>
          (let msg = (case message of None \<Rightarrow> ''Unknown parse error'' | Some m \<Rightarrow> m)
           in (Inr (Inl (AnalysisParseError msg)), reportError ''Parse error in analysisWrapper'' (JStr msg)))
      | Inl (OcamlExn e) \<Rightarrow> (Inl (OcamlExn e), []))"

text \<open>The value the handler posts, or the exception that leaves it.\<close>

definition wrapper_onmessage :: "analysis_env \<Rightarrow> jsval \<Rightarrow> (worker_exn + perform_result) \<times> effect list" where
  "wrapper_onmessage env data =
     (case analyse env data of
        (Inl e, reports) \<Rightarrow> (Inr (Inl e), reports)
      | (Inr res, reports) \<Rightarrow> (case decode_result env res of (r, reports1) \<Rightarrow> (r, reports @ reports1)))"

section \<open>The start of a worker\<close>

text \<open>The scripts begin with the page's declaration of \<open>rollbarConfig\<close> and initialise Rollbar with its
  JSON value before they install a handler. \<open>None\<close>: the text does not begin with the declaration of
  one string literal that the page wrote, and is another program.\<close>

definition worker_config :: "(string \<Rightarrow> json_exn + jsval) \<Rightarrow> string \<Rightarrow> (json_exn + jsval) option" where
  "worker_config parse source =
     (let decl = ''const rollbarConfig = '' @ quote
      in if prefix decl source
         then (case literal_value (drop (length decl) source) of
                 None \<Rightarrow> None
               | Some (t, rest) \<Rightarrow> if prefix ('';'' @ newlines) rest then Some (parse t) else None)
         else None)"

section \<open>Properties\<close>

text \<open>What the engine gave for a message.\<close>

definition engine_output :: "analysis_env \<Rightarrow> jsval \<Rightarrow> (string + string) option" where
  "engine_output env data =
     (if data = JNull \<or> data = JUndefined then None
      else Some (case view env data of
          AnalyzeHandler spec hParams \<Rightarrow> perform_handler_analysis env (encode_handler env hParams)
        | AnalyzeFunction fParams \<Rightarrow> perform_function_analysis env (encode_function env fParams)))"

lemma analyse_Inr: "fst (analyse env data) = Inr res \<longleftrightarrow> engine_output env data = Some (Inr res)"
  by (auto simp: analyse_def engine_output_def dark_analysis_def Let_def
      split: analysis_params.split sum.split)

lemma report_custom_string: "report_custom (JStr s) = JStr s"
  using json_parse_text [of "JStr s"] by (simp add: report_custom_def json_text_def)

lemma wrapper_result:
  "fst (wrapper_onmessage env data) =
     (case analyse env data of (Inl e, _) \<Rightarrow> Inr (Inl e) | (Inr res, _) \<Rightarrow> fst (decode_result env res))"
  by (auto simp: wrapper_onmessage_def split: prod.split sum.split)

lemma wrapper_engine:
  "engine_output env data = Some (Inr res) \<Longrightarrow> fst (wrapper_onmessage env data) = fst (decode_result env res)"
  "engine_output env data = Some (Inl error) \<Longrightarrow> \<exists>e. fst (wrapper_onmessage env data) = Inr (Inl e)"
proof -
  obtain x reports where x: "analyse env data = (x, reports)" by force
  show "fst (wrapper_onmessage env data) = fst (decode_result env res)" if "engine_output env data = Some (Inr res)"
    using that analyse_Inr [of env data res] x by (simp add: wrapper_result)
  show "\<exists>e. fst (wrapper_onmessage env data) = Inr (Inl e)" if "engine_output env data = Some (Inl error)"
    using that analyse_Inr [of env data "projr x"] x by (cases x) (simp_all add: wrapper_result)
qed

text \<open>C40: Every message is answered once, except when the engine succeeds with a text that the
  client's JSON library rejects: then, and only then, an exception leaves the handler and nothing is
  posted, although the code means to answer with a parse error. A message without data, a failed
  analysis and an exception of JavaScript in the decoder are all answered.\<close>

theorem wrapper_answers_unless_rejected:
  "fst (wrapper_onmessage env data) = Inl exn \<longleftrightarrow>
     (\<exists>res e. engine_output env data = Some (Inr res) \<and> exn = OcamlExn e
       \<and> (env_parse env res = Inl e
          \<or> (\<exists>j. env_parse env res = Inr j \<and> analysisEnvelope env j = Inl (OcamlExn e))))"
proof -
  have d: "fst (decode_result env res) = Inl exn \<longleftrightarrow> (\<exists>e. exn = OcamlExn e
       \<and> (env_parse env res = Inl e \<or> (\<exists>j. env_parse env res = Inr j \<and> analysisEnvelope env j = Inl (OcamlExn e))))"
    for res
    by (auto simp: decode_result_def Let_def split: sum.split worker_exn.split)
  show ?thesis
  proof (cases "analyse env data")
    case (Pair x reports)
    show ?thesis
    proof (cases x)
      case (Inr res)
      then have "engine_output env data = Some (Inr res)" using Pair analyse_Inr [of env data res] by simp
      then show ?thesis using Pair Inr by (simp add: wrapper_result d)
    next
      case (Inl a)
      then have "engine_output env data \<noteq> Some (Inr res)" for res using Pair analyse_Inr [of env data res] by simp
      then show ?thesis using Pair Inl by (simp add: wrapper_result)
    qed
  qed
qed

text \<open>A handler whose result does not fit the stack is reported by its name: when the engine of a
  handler fails with one of the two overflow messages, the answer is an execution error that carries
  the request and names the space, the name and the modifier that are not blank; any other failure
  is passed on as it is, and Rollbar gets the same message.\<close>

theorem overflow_names_handler:
  assumes "data \<noteq> JNull" and "data \<noteq> JUndefined" and "view env data = AnalyzeHandler spec hParams"
    and "perform_handler_analysis env (encode_handler env hParams) = Inl error"
  shows "\<exists>msg. fst (wrapper_onmessage env data) = Inr (Inl (AnalysisExecutionError (AnalyzeHandler spec hParams) msg))
    \<and> msg = (if stack_overflow error
        then ''Analysis results are too big to send back to the editor ('' @ join '', ''
          (filter (\<lambda>s. s \<noteq> ''_'') (concat (map (\<lambda>b. case b of Some s \<Rightarrow> [s] | None \<Rightarrow> [])
            [spec_space spec, spec_name spec, spec_modifier spec]))) @ '')''
        else error)
    \<and> CallExt ''rollbar.error'' [JStr ''An execution failure occurred in a handler'', JUndefined, JNull, JNull, JStr msg]
        \<in> set (snd (wrapper_onmessage env data))"
proof -
  have f: "filter (\<lambda>s. s \<noteq> ''_'') (map (\<lambda>b. case b of Some s \<Rightarrow> s | None \<Rightarrow> ''_'') bs)
     = filter (\<lambda>s. s \<noteq> ''_'') (concat (map (\<lambda>b. case b of Some s \<Rightarrow> [s] | None \<Rightarrow> []) bs))" for bs
    by (induction bs) (auto split: option.split)
  show ?thesis
    using assms
    by (simp add: wrapper_onmessage_def analyse_def dark_analysis_def reportError_def report_custom_string
        handler_spec_string_def Let_def f del: list.map)
qed

definition sample_env :: analysis_env where
  "sample_env = \<lparr>view = (\<lambda>m. AnalyzeHandler \<lparr>spec_space = Some ''HTTP'', spec_name = None, spec_modifier = Some ''GET''\<rparr> m),
     encode_handler = (\<lambda>p. case p of JStr s \<Rightarrow> s | _ \<Rightarrow> []), encode_function = (\<lambda>_. []),
     perform_handler_analysis = (\<lambda>s. if s = ''deep'' then Inl (''('' @ double_quoted ''Stack overflow'' @ '')'') else Inr s),
     perform_function_analysis = Inr, env_parse = sample_parse, analysisEnvelope = Inr, unit_value = JUndefined\<rparr>"

theorem overflow_names_handler_witness:
  "\<exists>msg p. fst (wrapper_onmessage sample_env (JStr ''deep'')) = Inr (Inl (AnalysisExecutionError p msg))
    \<and> msg = ''Analysis results are too big to send back to the editor (HTTP, GET)''"
proof -
  have "stack_overflow (''('' @ double_quoted ''Stack overflow'' @ '')'')" by (simp add: stack_overflow_def)
  then show ?thesis
    using overflow_names_handler [of "JStr ''deep''" sample_env
        "\<lparr>spec_space = Some ''HTTP'', spec_name = None, spec_modifier = Some ''GET''\<rparr>" "JStr ''deep''"
        "''('' @ double_quoted ''Stack overflow'' @ '')''"]
    by (auto simp: sample_env_def)
qed

lemma json_no_quote: "json num cfg = Some t \<Longrightarrow> (\<And>q. unquoted (num q) \<and> one_line (num q)) \<Longrightarrow> plain cfg \<Longrightarrow>
  literal_value (t @ single_quote # rest) = Some (t, rest)"
  using json_unquoted [of num cfg t] json_one_line [of num cfg t] literal_value_plain [of t rest]
  by (simp add: one_line_def)

lemma unquoted_one_line_iff:
  "unquoted t \<and> one_line t \<longleftrightarrow> (\<forall>c\<in>set t. of_char c \<notin> {92 :: nat, 39, 10, 13})"
  by (induction t) (auto simp: special_iff)

lemma integer_text_plain: "unquoted (integer_text q) \<and> one_line (integer_text q)"
proof -
  have "c = CHR ''-'' \<or> is_digit c" if "c \<in> set (integer_text q)" for c
    using that by (auto simp: integer_text_def decimal_int_def split: if_splits dest: decimal_is_digit)
  then have "\<forall>c\<in>set (integer_text q). of_char c \<notin> {92 :: nat, 39, 10, 13}" by (fastforce simp: is_digit_def)
  then show ?thesis by (simp only: unquoted_one_line_iff)
qed

lemma declared_config:
  assumes "plain cfg" "integral cfg" "json integer_text cfg = Some t" "parse_law parse"
  shows "worker_config parse (rollbarConfigSetup t @ rest) = Some (Inr (json_normal cfg))"
proof -
  have q: "quote = [single_quote]" by (simp add: quote_def single_quote_def)
  have u: "cfg \<noteq> JUndefined" using assms(3) by auto
  have "json_parse t = Inr (json_normal cfg)"
    using json_parse_text [OF printable_normal [OF assms(2) u]] assms(3)
    by (simp add: json_text_def json_normal_same)
  then have p: "parse t = Inr (json_normal cfg)" using assms(4) by (simp add: parse_law_def)
  have "literal_value (t @ single_quote # r) = Some (t, r)" for r
    by (rule json_no_quote [OF assms(3) integer_text_plain assms(1)])
  then show ?thesis by (simp add: worker_config_def rollbarConfigSetup_def q p Let_def)
qed

lemma analysis_config:
  assumes "plain cfg" "integral cfg" "json integer_text cfg = Some t" "parse_law parse"
  shows "worker_config parse (analysis_source t buildHash js wrapper) = Some (Inr (json_normal cfg))"
  using declared_config [OF assms] by (simp add: analysis_source_def)

text \<open>C35: A worker starts with the page's Rollbar configuration: for a configuration whose strings are
  free of quotes, backslashes and control characters and whose numbers are integers, the source of
  either worker, as the page assembles it, begins with a declaration whose literal parses to the
  configuration, up to undefined fields and NaNs.\<close>

theorem config_reaches_worker:
  assumes "plain cfg" and "integral cfg" and "json integer_text cfg = Some t" and "parse_law parse"
  shows "worker_config parse (analysis_source t buildHash js wrapper) = Some (Inr (json_normal cfg))
    \<and> worker_config parse (fetcher_source t buildHash fetcherjs) = Some (Inr (json_normal cfg))"
  using declared_config [OF assms] by (simp add: analysis_source_def fetcher_source_def)

theorem config_reaches_worker_witness:
  "worker_config sample_parse (analysis_source (json_text (JObj [(''v'', JNum 2), (''o'', JUndefined)])) ''h'' ''a'' ''w'')
   = Some (Inr (JObj [(''v'', JNum 2)]))"
proof -
  have "parse_law sample_parse" by (simp add: parse_law_def sample_parse_def)
  then show ?thesis
    using config_reaches_worker [of "JObj [(''v'', JNum 2), (''o'', JUndefined)]"
        "json_text (JObj [(''v'', JNum 2), (''o'', JUndefined)])" sample_parse]
    by (simp add: plain_string_def json_text_def)
qed

end
