(* ===== verification/OcamlSystem.thy ===== *)
theory OcamlSystem
  imports AnalysisQueue AnalysisWrapper
begin

text \<open>
  The page and the OCaml analysis worker together: the downloads of the start-up task create the
  worker (\<open>Bootstrap\<close>), the worker runs \<open>AnalysisWrapper\<close> on the messages the page posts, and its
  answers travel back to the page's handler. What \<open>AnalysisQueue\<close> assumes of this worker (it is
  created once, and answers only messages it was sent) is proved here. The page was opened without
  \<open>use-blazor\<close>; with it, this worker gets no message.
\<close>

section \<open>State and steps\<close>

datatype worker_state = NotStarted | Broken | Listening jsval

text \<open>A declaration of the page at the start of a source: the string it declares and what follows. \<open>None\<close>:
  the text is not the declaration of one string literal that the page means to write.\<close>

definition read_declaration :: "string \<Rightarrow> string \<Rightarrow> (string \<times> string) option" where
  "read_declaration name source =
     (let decl = ''const '' @ name @ '' = '' @ quote;
          stop = '';'' @ newlines
      in if prefix decl source
         then (case literal_value (drop (length decl) source) of
                 None \<Rightarrow> None
               | Some (t, rest) \<Rightarrow> if prefix stop rest then Some (t, drop (length stop) rest) else None)
         else None)"

text \<open>The whole source of a worker is one script. The handler is installed only if both declarations
  are read as the page means them, the rest of the source, the two downloaded scripts, loads (\<open>runs\<close>,
  a parameter: it compiles, and its top-level code, which initialises Rollbar and then installs the
  handler, reaches its end), and the configuration parses. In every other case there is no handler.\<close>

definition start_worker :: "(string \<Rightarrow> json_exn + jsval) \<Rightarrow> (string \<Rightarrow> bool) \<Rightarrow> string \<Rightarrow> worker_state" where
  "start_worker parse runs source =
     (case read_declaration ''rollbarConfig'' source of
        None \<Rightarrow> Broken
      | Some (config, source1) \<Rightarrow>
          (case read_declaration ''buildHash'' source1 of
             None \<Rightarrow> Broken
           | Some (hash, scripts) \<Rightarrow>
               if runs scripts then (case parse config of Inr cfg \<Rightarrow> Listening cfg | Inl e \<Rightarrow> Broken) else Broken))"

text \<open>What stays fixed: the client's encoder and the decoder of the other engine, the page's globals,
  the text of the Rollbar configuration, the worker's environment, the message that carries a
  result, and which downloaded scripts load.\<close>

record ocaml_setup =
  os_enc :: "jsval \<Rightarrow> string"
  os_dec :: decoder
  os_globals :: page_globals
  os_config :: string
  os_env :: analysis_env
  os_message :: "perform_result \<Rightarrow> jsval"
  os_runs :: "string \<Rightarrow> bool"
  os_param :: jsval

record ocaml_system =
  opage :: dark
  oboot :: boot
  wstate :: worker_state
  handled :: nat
  answers :: "jsval list"
  wreports :: "effect list"

definition init_ocaml_system :: "ocaml_setup \<Rightarrow> ocaml_system" where
  "init_ocaml_system S = \<lparr>opage = init_dark (os_param S), oboot = init_boot, wstate = NotStarted,
     handled = 0, answers = [], wreports = []\<rparr>"

fun ocaml_page_task :: "dark_task \<Rightarrow> bool" where
  "ocaml_page_task OcamlLoaded = False"
| "ocaml_page_task (OcamlAnswer r now rs) = False"
| "ocaml_page_task t = True"

definition analysis_sources :: "boot \<Rightarrow> string list" where
  "analysis_sources b = map snd (filter (\<lambda>w. fst w = AnalysisJs) (workers b))"

text \<open>A download settles; the page may create the worker.\<close>

definition boot_event :: "ocaml_setup \<Rightarrow> script_file \<times> fetch_outcome \<Rightarrow> ocaml_system \<Rightarrow> ocaml_system" where
  "boot_event S e s =
     (let b = settle (os_globals S) (os_config S) e (oboot s);
          created = drop (length (analysis_sources (oboot s))) (analysis_sources b)
      in fold (\<lambda>source s. s\<lparr>opage := ocaml_worker_loaded (opage s),
             wstate := start_worker (env_parse (os_env S)) (os_runs S) source\<rparr>) created (s\<lparr>oboot := b\<rparr>))"

definition wanswer :: "ocaml_setup \<Rightarrow> jsval \<Rightarrow> jsval list" where
  "wanswer S m = (case fst (wrapper_onmessage (os_env S) m) of Inl e \<Rightarrow> [] | Inr r \<Rightarrow> [os_message S r])"

definition opage_posted :: "dark \<Rightarrow> jsval list" where
  "opage_posted d = (case analysisWorker d of None \<Rightarrow> [] | Some c \<Rightarrow> posted c)"

text \<open>The worker handles the oldest message it has not handled.\<close>

definition worker_handles :: "ocaml_setup \<Rightarrow> ocaml_system \<Rightarrow> ocaml_system" where
  "worker_handles S s =
     (let m = opage_posted (opage s) ! handled s
      in s\<lparr>handled := Suc (handled s), answers := answers s @ wanswer S m,
           wreports := wreports s @ snd (wrapper_onmessage (os_env S) m)\<rparr>)"

definition worker_enabled :: "ocaml_system \<Rightarrow> bool" where
  "worker_enabled s \<longleftrightarrow> (case wstate s of Listening cfg \<Rightarrow> handled s < length (opage_posted (opage s)) | _ \<Rightarrow> False)"

inductive ocaml_steps :: "ocaml_setup \<Rightarrow> ocaml_system \<Rightarrow> bool" for S :: ocaml_setup where
  os_start: "ocaml_steps S (init_ocaml_system S)"
| os_page: "ocaml_steps S s \<Longrightarrow> ocaml_page_task t \<Longrightarrow> enabled t (opage s) \<Longrightarrow>
     ocaml_steps S (s\<lparr>opage := fst (run_task (os_enc S) (os_dec S) t (opage s))\<rparr>)"
| os_boot: "ocaml_steps S s \<Longrightarrow> settled (oboot s) (fst e) = None \<Longrightarrow> ocaml_steps S (boot_event S e s)"
| os_worker: "ocaml_steps S s \<Longrightarrow> worker_enabled s \<Longrightarrow> ocaml_steps S (worker_handles S s)"
| os_answer: "ocaml_steps S s \<Longrightarrow> answers s = r # rest \<Longrightarrow>
     ocaml_steps S (s\<lparr>answers := rest, opage := ocaml_answer (os_enc S) r now rs (opage s)\<rparr>)"

section \<open>The page's side\<close>

lemma request_ocaml_grows:
  assumes "\<not> truthy (useBlazor d)" "ocaml_inv d"
  shows "(case analysisWorker d of
      None \<Rightarrow> analysisWorker (ocaml_request p d) = None
    | Some c \<Rightarrow> analysisWorker (ocaml_request p d) = Some (post p c))
    \<and> events_named n (effects (ocaml_request p d)) = events_named n (effects d)"
  using assms by (auto simp: ocaml_request_def ocaml_inv_def emit_def Let_def split: option.split)

definition extends :: "dark \<Rightarrow> dark \<Rightarrow> bool" where
  "extends d d' \<longleftrightarrow>
     (case analysisWorker d of
        None \<Rightarrow> analysisWorker d' = None
      | Some c \<Rightarrow> \<exists>c'. analysisWorker d' = Some c' \<and> prefix (posted c) (posted c') \<and> answered c' = answered c)
     \<and> events_named ''receiveAnalysis'' (effects d') = events_named ''receiveAnalysis'' (effects d)"

lemma page_task_extends:
  assumes "\<not> truthy (useBlazor d)" "fsharp_inv False d" "ocaml_inv d" "enabled t d" "ocaml_page_task t"
  shows "extends d (fst (run_task enc dec t d))"
proof (cases t)
  case (Request p)
  then show ?thesis using request_ocaml_grows [OF assms(1,3), of p "''receiveAnalysis''"] assms(1)
    by (auto simp: extends_def request_analysis_def post_def split: option.splits)
next
  case OcamlTimer
  then obtain p rest where p: "ocaml_timers d = p # rest" using assms(4) by (cases "ocaml_timers d") auto
  let ?d = "emit (ConsoleLog [JStr ''Trying AnalysisWorker again'']) (d\<lparr>ocaml_timers := rest\<rparr>)"
  have "ocaml_inv ?d" using assms(1,3) by (simp add: ocaml_inv_def emit_def split: option.splits)
  then show ?thesis using OcamlTimer p request_ocaml_grows [of ?d p "''receiveAnalysis''"] assms(1)
    by (auto simp: extends_def ocaml_timer_def emit_def post_def split: option.splits)
next
  case BlazorInit
  then show ?thesis using assms(1) by (auto simp: extends_def initializeBlazorWorker_def split: option.split)
qed (use assms in \<open>auto simp: fsharp_inv_def split: option.splits\<close>)

section \<open>The start-up task's side\<close>

lemma analysis_sources_Nil: "analysis_sources b = [] \<longleftrightarrow> AnalysisJs \<notin> fst ` set (workers b)"
  by (force simp: analysis_sources_def filter_empty_conv)

lemma not_started:
  assumes "boot_inv config_json h b"
  shows "analysis_starter b \<noteq> Started \<longleftrightarrow> analysis_sources b = []"
  using assms
  by (cases "settled b AnalysisJs" rule: outcome_cases; cases "settled b AnalysisWrapperJs" rule: outcome_cases;
      cases "settled b FetcherJs" rule: outcome_cases)
    (simp_all add: boot_inv_def analysis_result_def analysis_sources_Nil)

lemma await_sources:
  "analysis_sources (await_first b) = analysis_sources b"
  "analysis_sources (run_fetcher c h b) = analysis_sources b"
  "analysis_sources (await_second c h b) = analysis_sources b
   \<or> (analysis_starter b \<noteq> Started \<and> (\<exists>js wrapper. analysis_sources (await_second c h b)
        = analysis_sources b @ [analysis_source c h js wrapper]))"
  by (auto simp: await_first_def run_fetcher_def await_second_def analysis_sources_def
      split: option.split sum.split starter.split)

lemma await_first_started: "analysis_starter (await_first b) = Started \<longleftrightarrow> analysis_starter b = Started"
  by (auto simp: await_first_def split: option.split sum.split)

lemma settle_created:
  assumes "boot_inv config_json (page_buildHash g) b"
  shows "analysis_sources (settle g config_json e b) = analysis_sources b
    \<or> (analysis_sources b = [] \<and> (\<exists>js wrapper. analysis_sources (settle g config_json e b)
        = [analysis_source config_json (page_buildHash g) js wrapper]))"
proof -
  obtain r es where r: "fetcher g (script_path (fst e)) (snd e) = (r, es)" by force
  let ?b = "await_first (b\<lparr>settled := (settled b)(fst e := Some r), boot_log := boot_log b @ es\<rparr>)"
  have s: "analysis_sources ?b = analysis_sources b" "analysis_starter ?b = Started \<longleftrightarrow> analysis_starter b = Started"
    by (simp_all add: await_sources(1) await_first_started) (simp add: analysis_sources_def)
  show ?thesis
    using await_sources(3) [of config_json "page_buildHash g" ?b] s not_started [OF assms]
    unfolding settle_def r run_analysis_def prod.case await_sources(2) by auto blast
qed

section \<open>What the two keep true together\<close>

definition replies :: "ocaml_setup \<Rightarrow> ocaml_system \<Rightarrow> jsval list" where
  "replies S s = concat (map (wanswer S) (take (handled s) (opage_posted (opage s))))"

definition page_answered :: "dark \<Rightarrow> nat" where
  "page_answered d = (case analysisWorker d of None \<Rightarrow> 0 | Some c \<Rightarrow> answered c)"

definition worker_of_boot :: "ocaml_setup \<Rightarrow> ocaml_system \<Rightarrow> bool" where
  "worker_of_boot S s \<longleftrightarrow>
     (case analysis_sources (oboot s) of
        [] \<Rightarrow> wstate s = NotStarted \<and> analysisWorker (opage s) = None
      | source # sources \<Rightarrow> wstate s = start_worker (env_parse (os_env S)) (os_runs S) source \<and> analysisWorker (opage s) \<noteq> None
          \<and> (\<exists>js wrapper. source = analysis_source (os_config S) (page_buildHash (os_globals S)) js wrapper))"

definition ocaml_sys_inv :: "ocaml_setup \<Rightarrow> ocaml_system \<Rightarrow> bool" where
  "ocaml_sys_inv S s \<longleftrightarrow> boot_inv (os_config S) (page_buildHash (os_globals S)) (oboot s)
     \<and> dark_reach (os_enc S) (os_dec S) (os_param S) (opage s)
     \<and> worker_of_boot S s
     \<and> handled s \<le> length (opage_posted (opage s))
     \<and> page_answered (opage s) + length (answers s) = length (replies S s)
     \<and> events_named ''receiveAnalysis'' (effects (opage s)) @ answers s = replies S s"

lemma worker_of_boot_ext:
  assumes "worker_of_boot S s" "analysis_sources (oboot s') = analysis_sources (oboot s)" "wstate s' = wstate s"
    "analysisWorker (opage s') = None \<longleftrightarrow> analysisWorker (opage s) = None"
  shows "worker_of_boot S s'"
  using assms by (cases "analysis_sources (oboot s)") (simp_all add: worker_of_boot_def)

lemma worker_created:
  "worker_of_boot S s \<Longrightarrow> analysisWorker (opage s) \<noteq> None \<longleftrightarrow> analysis_sources (oboot s) \<noteq> []"
  by (cases "analysis_sources (oboot s)") (simp_all add: worker_of_boot_def)

lemma wanswer_length: "length (wanswer S m) \<le> 1"
  by (simp add: wanswer_def split: sum.split)

lemma replies_length: "length (concat (map (wanswer S) ms)) \<le> length ms"
proof (induction ms)
  case (Cons m ms)
  then show ?case using wanswer_length [of S m] by simp
qed simp

lemma init_sources [simp]: "analysis_sources init_boot = []"
  by (simp add: analysis_sources_def init_boot_def)

lemma extends_posted:
  assumes "extends d d'"
  shows "prefix (opage_posted d) (opage_posted d')" "page_answered d' = page_answered d"
    "analysisWorker d' = None \<longleftrightarrow> analysisWorker d = None"
    "events_named ''receiveAnalysis'' (effects d') = events_named ''receiveAnalysis'' (effects d)"
  using assms by (auto simp: extends_def opage_posted_def page_answered_def split: option.splits)

lemma ocaml_sys_inv_page:
  assumes "ocaml_sys_inv S s" "dark_reach (os_enc S) (os_dec S) (os_param S) d" "extends (opage s) d"
  shows "ocaml_sys_inv S (s\<lparr>opage := d\<rparr>)"
proof -
  note e = extends_posted [OF assms(3)]
  have h: "handled s \<le> length (opage_posted (opage s))" using assms(1) by (simp add: ocaml_sys_inv_def)
  then have "replies S (s\<lparr>opage := d\<rparr>) = replies S s"
    using e(1) by (auto simp: replies_def prefix_def)
  then show ?thesis using assms(1,2) e h prefix_length_le [OF e(1)]
    by (auto simp: ocaml_sys_inv_def elim: worker_of_boot_ext)
qed

lemma boot_event_inv:
  assumes i: "ocaml_sys_inv S s" and e: "settled (oboot s) (fst e) = None"
  shows "ocaml_sys_inv S (boot_event S e s)"
proof -
  let ?b = "settle (os_globals S) (os_config S) e (oboot s)"
  have b: "boot_inv (os_config S) (page_buildHash (os_globals S)) (oboot s)" using i by (simp add: ocaml_sys_inv_def)
  note b' = settle_inv [OF b e]
  consider "analysis_sources ?b = analysis_sources (oboot s)"
    | js wrapper where "analysis_sources (oboot s) = []"
        "analysis_sources ?b = [analysis_source (os_config S) (page_buildHash (os_globals S)) js wrapper]"
    using settle_created [OF b, of e] by blast
  then show ?thesis
  proof cases
    case 1
    then show ?thesis using i b'
      by (auto simp: boot_event_def Let_def ocaml_sys_inv_def replies_def elim: worker_of_boot_ext)
  next
    case 2
    then have n: "analysisWorker (opage s) = None" "wstate s = NotStarted"
      using i by (simp_all add: ocaml_sys_inv_def worker_of_boot_def)
    have "dark_reach (os_enc S) (os_dec S) (os_param S) (fst (run_task (os_enc S) (os_dec S) OcamlLoaded (opage s)))"
      using i n by (intro dark_steps.task) (simp_all add: ocaml_sys_inv_def)
    then show ?thesis using i b' n 2
      by (auto simp: boot_event_def Let_def ocaml_sys_inv_def worker_of_boot_def replies_def opage_posted_def
          page_answered_def ocaml_worker_loaded_def new_channel_def)
  qed
qed

lemma worker_handles_inv:
  assumes "ocaml_sys_inv S s" "worker_enabled s"
  shows "ocaml_sys_inv S (worker_handles S s)"
proof -
  have h: "handled s < length (opage_posted (opage s))"
    using assms(2) by (simp add: worker_enabled_def split: worker_state.splits)
  then have "replies S (worker_handles S s) = replies S s @ wanswer S (opage_posted (opage s) ! handled s)"
    by (simp add: replies_def worker_handles_def Let_def take_Suc_conv_app_nth)
  then show ?thesis using assms(1) h
    by (auto simp: ocaml_sys_inv_def worker_handles_def Let_def elim: worker_of_boot_ext)
qed

text \<open>The contract: an answer that arrives is the answer to a message in flight.\<close>

lemma answer_in_flight:
  assumes "ocaml_sys_inv S s" "answers s \<noteq> []"
  obtains c where "analysisWorker (opage s) = Some c" "in_flight c \<noteq> []"
proof (cases "analysisWorker (opage s)")
  case None
  then have "replies S s = []" by (simp add: replies_def opage_posted_def)
  then show ?thesis using assms by (auto simp: ocaml_sys_inv_def)
next
  case (Some c)
  have "length (replies S s) \<le> handled s"
    using replies_length [of S "take (handled s) (opage_posted (opage s))"] unfolding replies_def by simp
  then have "answered c < length (posted c)"
    using assms Some by (cases "answers s") (auto simp: ocaml_sys_inv_def page_answered_def opage_posted_def)
  then show ?thesis using that Some by (simp add: in_flight_def)
qed

lemma deliver_answer_inv:
  assumes i: "ocaml_sys_inv S s" and a: "answers s = r # rest"
  shows "ocaml_sys_inv S (s\<lparr>answers := rest, opage := ocaml_answer (os_enc S) r now rs (opage s)\<rparr>)"
proof -
  have d: "dark_reach (os_enc S) (os_dec S) (os_param S) (opage s)" using i by (simp add: ocaml_sys_inv_def)
  obtain c where c: "analysisWorker (opage s) = Some c" "in_flight c \<noteq> []"
    using answer_in_flight [OF i] a by (metis list.distinct(1))
  have h: "handled s \<le> length (posted c)" using i c by (simp add: ocaml_sys_inv_def opage_posted_def)
  have "dark_reach (os_enc S) (os_dec S) (os_param S)
      (fst (run_task (os_enc S) (os_dec S) (OcamlAnswer r now rs) (opage s)))"
    by (rule dark_steps.task [OF d]) (simp add: c)
  moreover note ocaml_answer_eq [of "opage s" c "os_enc S" r now rs]
  ultimately show ?thesis using i a c h reach_inv [OF d]
    by (auto simp: ocaml_sys_inv_def replies_def opage_posted_def page_answered_def answer_def
        elim!: worker_of_boot_ext)
qed

lemma ocaml_steps_inv:
  assumes "\<not> truthy (os_param S)"
  shows "ocaml_steps S s \<Longrightarrow> ocaml_sys_inv S s"
proof (induction rule: ocaml_steps.induct)
  case os_start
  have "dark_reach (os_enc S) (os_dec S) (os_param S) (init_dark (os_param S))" by (rule dark_steps.start)
  then show ?case
    by (simp add: ocaml_sys_inv_def init_ocaml_system_def worker_of_boot_def boot_inv_init replies_def
        opage_posted_def page_answered_def) (simp add: init_dark_def)
next
  case (os_page s t)
  then have r: "dark_reach (os_enc S) (os_dec S) (os_param S) (opage s)" by (simp add: ocaml_sys_inv_def)
  have "extends (opage s) (fst (run_task (os_enc S) (os_dec S) t (opage s)))"
    using reach_inv [OF r] assms os_page.hyps by (intro page_task_extends) auto
  then show ?case using os_page.IH dark_steps.task [OF r os_page.hyps(3)] by (intro ocaml_sys_inv_page) auto
next
  case (os_boot s e)
  then show ?case by (simp add: boot_event_inv)
next
  case (os_worker s)
  then show ?case by (simp add: worker_handles_inv)
next
  case (os_answer s r rest now rs)
  then show ?case by (simp add: deliver_answer_inv)
qed

text \<open>The page and the worker keep the contract of an engine: a message has the outcome that the worker
  answers, or none.\<close>

definition ocaml_outcome :: "ocaml_setup \<Rightarrow> jsval \<Rightarrow> jsval option" where
  "ocaml_outcome S m = (case wanswer S m of [] \<Rightarrow> None | v # vs \<Rightarrow> Some v)"

lemma ocaml_outcome_None: "ocaml_outcome S m = None \<longleftrightarrow> wanswer S m = []"
  by (simp add: ocaml_outcome_def split: list.split)

lemma replies_outcomes:
  "concat (map (wanswer S) ms) = List.map_filter (ocaml_outcome S) ms"
  unfolding ocaml_outcome_def by (rule concat_single [OF wanswer_length])

interpretation oce: engine "\<lambda>s. ocaml_steps S s \<and> \<not> truthy (os_param S)" "\<lambda>s. opage_posted (opage s)" handled
    "\<lambda>s. events_named ''receiveAnalysis'' (effects (opage s)) @ answers s" "ocaml_outcome S" for S
  by unfold_locales (use ocaml_steps_inv [of S] in \<open>auto simp: ocaml_sys_inv_def replies_def replies_outcomes\<close>)

section \<open>A concrete run\<close>

text \<open>A request before the worker exists, the two scripts, the retry, a request whose result is not
  JSON, one more, and the worker's answers.\<close>

definition sample_globals :: page_globals where
  "sample_globals = \<lparr>complete = JNull, userContentHost = [], environmentName = [], csrfToken = [],
     isAdmin = False, page_buildHash = ''h'', page_username = ''u'', staticUrl = ''s'', hashReplacements = []\<rparr>"

definition sample_setup :: ocaml_setup where
  "sample_setup = \<lparr>os_enc = (\<lambda>_. ''{}''), os_dec = Inr, os_globals = sample_globals, os_config = ''{}'',
     os_env = sample_env, os_message = (\<lambda>r. case r of Inl e \<Rightarrow> JStr ''error'' | Inr v \<Rightarrow> v),
     os_runs = (\<lambda>scripts. scripts = ''a'' @ newlines @ ''w''), os_param = JNull\<rparr>"

datatype ocaml_event = PageTask dark_task | Download script_file string | Handle | Deliver

fun ocaml_event_enabled :: "ocaml_event \<Rightarrow> ocaml_system \<Rightarrow> bool" where
  "ocaml_event_enabled (PageTask t) s = (ocaml_page_task t \<and> enabled t (opage s))"
| "ocaml_event_enabled (Download f text) s = (settled (oboot s) f = None)"
| "ocaml_event_enabled Handle s = worker_enabled s"
| "ocaml_event_enabled Deliver s = (answers s \<noteq> [])"

fun ocaml_event_run :: "ocaml_setup \<Rightarrow> ocaml_event \<Rightarrow> ocaml_system \<Rightarrow> ocaml_system" where
  "ocaml_event_run S (PageTask t) s = s\<lparr>opage := fst (run_task (os_enc S) (os_dec S) t (opage s))\<rparr>"
| "ocaml_event_run S (Download f text) s = boot_event S (f, RespOk text) s"
| "ocaml_event_run S Handle s = worker_handles S s"
| "ocaml_event_run S Deliver s =
     s\<lparr>answers := tl (answers s), opage := ocaml_answer (os_enc S) (hd (answers s)) 0 [] (opage s)\<rparr>"

fun ocaml_run_ok :: "ocaml_setup \<Rightarrow> ocaml_event list \<Rightarrow> ocaml_system \<Rightarrow> bool" where
  "ocaml_run_ok S [] s = True"
| "ocaml_run_ok S (e # es) s = (ocaml_event_enabled e s \<and> ocaml_run_ok S es (ocaml_event_run S e s))"

lemma ocaml_event_steps:
  "ocaml_steps S s \<Longrightarrow> ocaml_event_enabled e s \<Longrightarrow> ocaml_steps S (ocaml_event_run S e s)"
  by (cases e) (auto simp: neq_Nil_conv intro: os_page os_boot os_worker os_answer)

lemma ocaml_run_steps:
  "ocaml_steps S s \<Longrightarrow> ocaml_run_ok S es s \<Longrightarrow> ocaml_steps S (fold (ocaml_event_run S) es s)"
  by (induction es arbitrary: s) (auto intro: ocaml_event_steps)

definition sample_ocaml_events :: "ocaml_event list" where
  "sample_ocaml_events = [PageTask (Request (JStr ''[]'')), Download AnalysisWrapperJs ''w'', Download AnalysisJs ''a'',
     PageTask OcamlTimer, PageTask (Request (JStr ''x'')), Handle, Handle, PageTask (Request (JStr ''{}'')),
     Deliver, Handle, Deliver]"

definition sample_ocaml :: ocaml_system where
  "sample_ocaml = fold (ocaml_event_run sample_setup) sample_ocaml_events (init_ocaml_system sample_setup)"

lemma sample_ocaml_ok: "ocaml_run_ok sample_setup sample_ocaml_events (init_ocaml_system sample_setup)"
  by code_simp

lemma sample_ocaml_steps: "ocaml_steps sample_setup sample_ocaml"
  unfolding sample_ocaml_def by (rule ocaml_run_steps [OF os_start sample_ocaml_ok])

lemma sample_ocaml_computed:
  "handled sample_ocaml = 3" "answers sample_ocaml = []"
  "opage_posted (opage sample_ocaml) = [JStr ''[]'', JStr ''x'', JStr ''{}'']"
  by code_simp+

lemma sample_answers:
  "map (wanswer sample_setup) [JStr ''[]'', JStr ''x'', JStr ''{}''] = [[JArr []], [], [JObj []]]"
proof -
  have e: "os_env sample_setup = sample_env"
    "os_message sample_setup r = (case r of Inl e \<Rightarrow> JStr ''error'' | Inr v \<Rightarrow> v)" for r
    by (simp_all add: sample_setup_def)
  have o: "engine_output sample_env (JStr ''[]'') = Some (Inr ''[]'')"
    "engine_output sample_env (JStr ''x'') = Some (Inr ''x'')"
    "engine_output sample_env (JStr ''{}'') = Some (Inr ''{}'')"
    by (simp_all add: engine_output_def sample_env_def)
  have "json_parse ''[]'' = Inr (JArr [])" "json_parse ''x'' = Inl JsonSyntax" "json_parse ''{}'' = Inr (JObj [])" by code_simp+
  then have d: "fst (decode_result sample_env ''[]'') = Inr (Inr (JArr []))"
    "fst (decode_result sample_env ''x'') = Inl (OcamlExn (ParseError ''SyntaxError''))"
    "fst (decode_result sample_env ''{}'') = Inr (Inr (JObj []))"
    by (simp_all add: decode_result_def sample_env_def sample_parse_def)
  show ?thesis
    by (simp add: wanswer_def e wrapper_engine(1) [OF o(1)] wrapper_engine(1) [OF o(2)] wrapper_engine(1) [OF o(3)] d)
qed

lemma sample_settled:
  "settled (oboot sample_ocaml) AnalysisJs = Some (Inr ''a'')"
  "settled (oboot sample_ocaml) AnalysisWrapperJs = Some (Inr ''w'')"
  by code_simp+

section \<open>The source as the page writes it\<close>

lemma read_declaration_plain:
  assumes "unquoted t" "one_line t"
  shows "read_declaration name (''const '' @ name @ '' = '' @ quote @ t @ quote @ '';'' @ newlines @ rest) = Some (t, rest)"
proof -
  have q: "quote = [single_quote]" by (simp add: quote_def single_quote_def)
  show ?thesis
    using literal_value_plain [of t "'';'' @ newlines @ rest"] assms
    by (simp add: read_declaration_def q Let_def one_line_def)
qed

lemma start_worker_plain:
  assumes "plain cfg" "integral cfg" "json integer_text cfg = Some t" "parse_law parse"
    and "unquoted h" "one_line h"
  shows "start_worker parse runs (analysis_source t h js wrapper)
    = (if runs (js @ newlines @ wrapper) then Listening (json_normal cfg) else Broken)"
proof -
  have "cfg \<noteq> JUndefined" using assms(3) by auto
  then have "parse t = Inr (json_normal cfg)"
    using json_parse_text [OF printable_normal [OF assms(2)]] assms(3,4)
    by (simp add: json_text_def json_normal_same parse_law_def)
  moreover have "unquoted t" "one_line t"
    using json_unquoted [of integer_text cfg t] json_one_line [of integer_text cfg t] integer_text_plain assms(1,3)
    by simp_all
  ultimately show ?thesis
    using read_declaration_plain [of t "''rollbarConfig''" "buildHashSetup h @ js @ newlines @ wrapper"]
      read_declaration_plain [OF assms(5,6), of "''buildHash''" "js @ newlines @ wrapper"]
    by (simp add: start_worker_def analysis_source_def rollbarConfigSetup_def buildHashSetup_def)
qed

lemma created_source:
  assumes "boot_inv config_json h b" "source \<in> set (analysis_sources b)"
    and "settled b AnalysisJs = Some (Inr js)" "settled b AnalysisWrapperJs = Some (Inr wrapper)"
  shows "source = analysis_source config_json h js wrapper"
proof -
  have "(AnalysisJs, source) \<in> set (workers b)" using assms(2) by (auto simp: analysis_sources_def)
  moreover have "set (workers b) \<subseteq> {(AnalysisJs, analysis_source config_json h js wrapper)} \<union> range (Pair FetcherJs)"
    using assms(1,3,4) by (simp add: boot_inv_def split: option.split sum.split)
  ultimately show ?thesis by blast
qed

section \<open>Properties\<close>

text \<open>C7: The page and the OCaml worker keep the contract the queue relies on: in every state of the
  two together, the page's own state is one it can reach with a worker that is created once and
  answers only messages it was sent; the worker exists exactly when the start-up task created it.\<close>

theorem ocaml_contract_refined:
  assumes "ocaml_steps S s" and "\<not> truthy (os_param S)"
  shows "dark_reach (os_enc S) (os_dec S) (os_param S) (opage s)
    \<and> (analysisWorker (opage s) \<noteq> None \<longleftrightarrow> AnalysisJs \<in> fst ` set (workers (oboot s)))
    \<and> (\<forall>r rest now rs. answers s = r # rest \<longrightarrow> enabled (OcamlAnswer r now rs) (opage s))"
proof -
  have i: "ocaml_sys_inv S s" by (rule ocaml_steps_inv [OF assms(2,1)])
  have e: "enabled (OcamlAnswer r now rs) (opage s)" if "answers s = r # rest" for r rest now rs
  proof -
    have "answers s \<noteq> []" using that by simp
    then obtain c where "analysisWorker (opage s) = Some c" "in_flight c \<noteq> []"
      using answer_in_flight [OF i] by blast
    then show ?thesis by simp
  qed
  have w: "analysisWorker (opage s) \<noteq> None \<longleftrightarrow> AnalysisJs \<in> fst ` set (workers (oboot s))"
    using i worker_created unfolding ocaml_sys_inv_def
    by (metis analysis_sources_Nil)
  have "dark_reach (os_enc S) (os_dec S) (os_param S) (opage s)" using i by (simp add: ocaml_sys_inv_def)
  then show ?thesis using w e by blast
qed

theorem ocaml_contract_refined_witness:
  "dark_reach (\<lambda>_. ''{}'') Inr JNull (opage sample_ocaml) \<and> analysisWorker (opage sample_ocaml) \<noteq> None"
proof -
  have "analysisWorker (opage sample_ocaml) \<noteq> None" by code_simp
  then show ?thesis using ocaml_contract_refined [OF sample_ocaml_steps] by (simp add: sample_setup_def)
qed

text \<open>C5: The page receives the worker's answers in the order of its requests, and none that was not
  made: the receiveAnalysis events dispatched and the answers under way are together the answers to
  the messages the worker has handled, a message whose answer cannot be decoded having none; and
  when nothing is left to handle or to deliver, the requests without an event are exactly these.\<close>

theorem ocaml_answers_in_order:
  assumes "ocaml_steps S s" and "\<not> truthy (os_param S)"
  shows "events_named ''receiveAnalysis'' (effects (opage s)) @ answers s
      = concat (map (wanswer S) (take (handled s) (opage_posted (opage s))))
    \<and> (handled s = length (opage_posted (opage s)) \<and> answers s = [] \<longrightarrow>
        length (events_named ''receiveAnalysis'' (effects (opage s)))
          + length (filter (\<lambda>m. wanswer S m = []) (opage_posted (opage s))) = length (opage_posted (opage s)))"
  using oce.seen_outcomes [of S s] oce.unseen_count [of S s] assms
  by (auto simp: replies_outcomes ocaml_outcome_None)

theorem ocaml_answers_in_order_witness:
  "events_named ''receiveAnalysis'' (effects (opage sample_ocaml)) = [JArr [], JObj []]"
  using ocaml_answers_in_order [OF sample_ocaml_steps] sample_answers
  by (simp add: sample_ocaml_computed(1-3)) (simp add: sample_setup_def)

text \<open>C6: Nothing the OCaml worker can answer stays unanswered: when the Rollbar configuration has no
  quote, backslash or control character in a string and only integers for numbers, the build hash,
  which the page pastes without escaping, has no quote, backslash or line break, and both scripts of
  the worker have arrived, in whatever order, the worker listens, with that configuration, exactly if
  the two scripts load one after the other; and a worker that listens and has nothing left to
  handle, with no answer under way, has answered all the messages the page posted.\<close>

theorem ocaml_worker_answers_all:
  assumes "ocaml_steps S s" and "\<not> truthy (os_param S)"
    and "plain cfg" and "integral cfg" and "json integer_text cfg = Some (os_config S)"
    and "unquoted (page_buildHash (os_globals S))" and "one_line (page_buildHash (os_globals S))"
    and "parse_law (env_parse (os_env S))"
    and "settled (oboot s) AnalysisJs = Some (Inr js)" and "settled (oboot s) AnalysisWrapperJs = Some (Inr wrapper)"
  shows "wstate s = (if os_runs S (js @ newlines @ wrapper) then Listening (json_normal cfg) else Broken)
    \<and> (os_runs S (js @ newlines @ wrapper) \<and> \<not> worker_enabled s \<and> answers s = [] \<longrightarrow>
        events_named ''receiveAnalysis'' (effects (opage s)) = concat (map (wanswer S) (opage_posted (opage s))))"
proof -
  have i: "ocaml_sys_inv S s" by (rule ocaml_steps_inv [OF assms(2,1)])
  then have b: "boot_inv (os_config S) (page_buildHash (os_globals S)) (oboot s)" and w: "worker_of_boot S s"
    by (simp_all add: ocaml_sys_inv_def)
  have "analysis_starter (oboot s) = Started"
    using b assms(9,10) by (simp add: boot_inv_def analysis_result_def)
  then have "analysis_sources (oboot s) \<noteq> []" using not_started [OF b] by blast
  then obtain source where "source \<in> set (analysis_sources (oboot s))"
      "wstate s = start_worker (env_parse (os_env S)) (os_runs S) source"
    using w by (auto simp: worker_of_boot_def split: list.splits)
  then have l: "wstate s = (if os_runs S (js @ newlines @ wrapper) then Listening (json_normal cfg) else Broken)"
    using created_source [OF b _ assms(9,10)] start_worker_plain [OF assms(3-5,8,6,7), of "os_runs S" js wrapper]
    by metis
  have "events_named ''receiveAnalysis'' (effects (opage s)) @ answers s = replies S s"
    and "handled s \<le> length (opage_posted (opage s))"
    using i by (simp_all add: ocaml_sys_inv_def)
  then show ?thesis using l by (auto simp: worker_enabled_def replies_def)
qed

theorem ocaml_worker_answers_all_witness:
  "wstate sample_ocaml = Listening (JObj [])
   \<and> events_named ''receiveAnalysis'' (effects (opage sample_ocaml)) = [JArr [], JObj []]"
proof -
  have p: "parse_law (env_parse (os_env sample_setup))" "\<not> truthy (os_param sample_setup)"
    "json integer_text (JObj []) = Some (os_config sample_setup)" "plain (JObj [])" "integral (JObj [])"
    "unquoted (page_buildHash (os_globals sample_setup))"
    "os_runs sample_setup (''a'' @ newlines @ ''w'')"
    by (simp_all add: parse_law_def sample_parse_def sample_setup_def sample_env_def sample_globals_def
        special_iff)
  have h: "one_line (page_buildHash (os_globals sample_setup))" by code_simp
  have "\<not> worker_enabled sample_ocaml" by code_simp
  moreover have "concat (map (wanswer sample_setup) [JStr ''[]'', JStr ''x'', JStr ''{}'']) = [JArr [], JObj []]"
    unfolding sample_answers by simp
  moreover note ocaml_worker_answers_all [OF sample_ocaml_steps p(2,4,5,3,6) h p(1) sample_settled,
      unfolded sample_ocaml_computed(2,3)]
  ultimately show ?thesis using p(7) by simp
qed

end
