(* ===== verification/TestSupport.thy ===== *)
theory TestSupport
  imports Dark_Prelude
begin

text \<open>
  The helpers of \<open>integration-tests/tests.js\<close> that the tests rely on: the settings written before a
  test, the poll that waits for an analysis to return, the URL of a canvas's user content and the
  shortcut of the platform. TestCafe and the browser are not in the repository; a call of the test
  controller is a value of the model.
\<close>

section \<open>Settings\<close>

definition recordConsent_of :: "string \<Rightarrow> string" where
  "recordConsent_of test_name =
     (if test_name = ''record_consent_saved_across_canvases'' then ''null'' else ''false'')"

text \<open>\<open>str\<close> writes a JSON string literal without escapes.\<close>

definition quoted :: "string \<Rightarrow> string" where
  "quoted s = [char_of (34 :: nat)] @ s @ [char_of (34 :: nat)]"

text \<open>\<open>localStorage\<close> after \<open>prepSettings\<close>.\<close>

definition prepSettings :: "string \<Rightarrow> (string \<Rightarrow> string option) \<Rightarrow> (string \<Rightarrow> string option)" where
  "prepSettings test_name storage =
     (let key = ''editorState-test-'' @ test_name;
          val1 = ''{'' @ quoted ''editorSettings'' @ '':{'' @ quoted ''showFluidDebugger'' @ '':true}}'';
          key2 = ''userState-test'';
          recordConsent = recordConsent_of test_name;
          val2 = ''{'' @ quoted ''firstVisitToDark'' @ '':false,'' @ quoted ''recordConsent'' @ '':''
            @ recordConsent @ '','' @ quoted ''unsupportedBrowser'' @ '': false,''
            @ quoted ''userTutorial'' @ '': null}''
      in (storage(key := Some val1))(key2 := Some val2))"

section \<open>Waiting for an analysis\<close>

text \<open>
  \<open>lastRun k\<close> is \<open>window.Dark.analysis.lastRun\<close> when it is read for the k-th time, k from 0. The
  outcome carries the number of one-second waits.
\<close>

datatype await_outcome = Analysed nat rat | MaxWaitExceeded nat

function awaitAnalysis :: "(nat \<Rightarrow> nat) \<Rightarrow> nat \<Rightarrow> nat \<Rightarrow> await_outcome" where
  "awaitAnalysis lastRun ts trial =
     (if trial > 10 then MaxWaitExceeded trial
      else if lastRun trial > ts
           then Analysed trial ((of_nat (lastRun trial) - of_nat ts) / 1000)
           else awaitAnalysis lastRun ts (trial + 1))"
  by pat_completeness auto
termination by (relation "measure (\<lambda>(_, _, trial). 11 - trial)") auto

declare awaitAnalysis.simps [simp del]

section \<open>URLs and shortcuts\<close>

definition user_content_url :: "string \<Rightarrow> string \<Rightarrow> string" where
  "user_content_url test_name endpoint =
     ''http://test-'' @ test_name @ ''.builtwithdark.lvh.me:8000'' @ endpoint"

text \<open>\<open>s.replace(p, r)\<close> with a string pattern replaces the first occurrence.\<close>

fun replace_first :: "string \<Rightarrow> string \<Rightarrow> string \<Rightarrow> string" where
  "replace_first p r [] = (if p = [] then r else [])"
| "replace_first p r (c # cs) =
     (if prefix p (c # cs) then r @ drop (length p) (c # cs) else c # replace_first p r cs)"

text \<open>\<open>None\<close> for \<open>undefined\<close> and for the exception it raises.\<close>

definition pressShortcut :: "string \<Rightarrow> string option \<Rightarrow> string option" where
  "pressShortcut os shortcutUsingCtrl =
     (case shortcutUsingCtrl of
        None \<Rightarrow> None
      | Some s \<Rightarrow> Some (if os = ''macOS'' then replace_first ''ctrl'' ''meta'' s else s))"

section \<open>Properties\<close>

lemma awaitAnalysis_from:
  "trial \<le> 11 \<Longrightarrow> awaitAnalysis lastRun ts trial =
     (case filter (\<lambda>k. lastRun k > ts) [trial..<11] of
        [] \<Rightarrow> MaxWaitExceeded 11
      | k # _ \<Rightarrow> Analysed k ((of_nat (lastRun k) - of_nat ts) / 1000))"
proof (induction "11 - trial" arbitrary: trial)
  case 0
  then have "trial = 11" by simp
  then show ?case by (simp add: awaitAnalysis.simps [of _ _ 11])
next
  case (Suc n)
  then have t: "trial < 11" "n = 11 - (trial + 1)" "trial + 1 \<le> 11" by auto
  show ?case using Suc(1) [OF t(2,3)] t(1)
    by (simp add: awaitAnalysis.simps [of _ _ trial] upt_conv_Cons)
qed

text \<open>Waiting for an analysis ends after at most eleven readings and eleven one-second waits:
  the wait succeeds at the first reading that is later than the given time stamp, and fails exactly
  when none of the eleven readings is.\<close>

theorem awaitAnalysis_bounded:
  "(case awaitAnalysis lastRun ts 0 of
      Analysed k secs \<Rightarrow> k \<le> 10 \<and> ts < lastRun k \<and> (\<forall>j<k. lastRun j \<le> ts) \<and> 0 < secs
    | MaxWaitExceeded n \<Rightarrow> n = 11 \<and> (\<forall>j\<le>10. lastRun j \<le> ts))"
proof (cases "filter (\<lambda>k. lastRun k > ts) [0..<11]")
  case Nil
  then have "\<forall>j\<le>10. lastRun j \<le> ts" by (auto simp: filter_empty_conv not_less)
  then show ?thesis using Nil by (simp add: awaitAnalysis_from)
next
  case (Cons k ks)
  then obtain us vs where u: "[0..<11] = us @ k # vs" "\<forall>u\<in>set us. \<not> ts < lastRun u" "ts < lastRun k"
    by (auto simp: filter_eq_Cons_iff)
  have "length us < 11" using arg_cong [OF u(1), of length] by simp
  then have k: "k = length us" using arg_cong [OF u(1), of "\<lambda>l. l ! length us"] by simp
  have "k < 11" using u(1) by (metis atLeastLessThan_iff in_set_conv_decomp set_upt)
  moreover have "us = [0..<k]" using u(1) k by (metis append_eq_conv_conj take_upt add_0 less_imp_le \<open>k < 11\<close>)
  ultimately show ?thesis using Cons u(2,3) by (auto simp: awaitAnalysis_from not_less)
qed

theorem awaitAnalysis_bounded_witness:
  "awaitAnalysis (\<lambda>k. 1000 * k) 2500 0 = Analysed 3 (1 / 2) \<and> 1000 * 2 \<le> (2500 :: nat)"
proof -
  have e: "awaitAnalysis (\<lambda>k. 1000 * k) 2500 0 = Analysed 3 (1 / 2)"
    by (simp add: awaitAnalysis_from upt_rec)
  have "\<forall>j<3. 1000 * j \<le> (2500 :: nat)"
    using awaitAnalysis_bounded [where lastRun = "\<lambda>k. 1000 * k" and ts = 2500] unfolding e by simp
  then show ?thesis using e by (auto dest: spec [of _ 2])
qed

end
