(* ===== verification/UserState.thy ===== *)
theory UserState
  imports JsonDecode Telemetry TestSupport
begin

text \<open>
  The user's saved settings, from the client to the next page: \<open>client/src/app/SavedUserSettings.ml\<close>
  with its encoder and decoder (\<open>core/Encoders.ml\<close>, \<open>core/Decoders.ml\<close>) writes and reads
  \<open>localStorage\<close>, and \<open>fullstory.init\<close> of \<open>appsupport.js\<close> reads the same item. The JSON library is
  the parameter \<open>L\<close>; \<open>JSON.stringify\<close> and \<open>JSON.parse\<close> are those of \<open>Json\<close>.
\<close>

section \<open>SavedUserSettings.ml\<close>

record saved_user_settings =
  firstVisitToDark :: bool
  recordConsent :: "bool option"

definition defaultUserSettings :: saved_user_settings where
  "defaultUserSettings = \<lparr>firstVisitToDark = True, recordConsent = None\<rparr>"

text \<open>The fields of the model that are saved, and the user name.\<close>

record user_model =
  model_firstVisit :: bool
  model_consent :: "bool option"
  model_username :: string

definition toModel :: "saved_user_settings \<Rightarrow> user_model \<Rightarrow> user_model" where
  "toModel e m = m\<lparr>model_firstVisit := firstVisitToDark e, model_consent := recordConsent e\<rparr>"

definition model2editor :: "user_model \<Rightarrow> saved_user_settings" where
  "model2editor m = \<lparr>firstVisitToDark = model_firstVisit m, recordConsent = model_consent m\<rparr>"

definition encode_settings :: "json_lib \<Rightarrow> saved_user_settings \<Rightarrow> jsval" where
  "encode_settings L se =
     lib_object L [(''showUserWelcomeModal'', lib_bool L (firstVisitToDark se)),
       (''firstVisitToDark'', lib_bool L (firstVisitToDark se)),
       (''recordConsent'', case map_option (lib_bool L) (recordConsent se) of None \<Rightarrow> lib_null L | Some v \<Rightarrow> v)]"

definition decode_settings :: "json_lib \<Rightarrow> saved_user_settings dec" where
  "decode_settings L j =
     (case dec_default L (firstVisitToDark defaultUserSettings) (dec_field L ''showUserWelcomeModal'' (dec_bool L)) j of
        Inl e \<Rightarrow> Inl e
      | Inr oldFirstVisitToDark \<Rightarrow>
     (case dec_default L (firstVisitToDark defaultUserSettings) (dec_field L ''firstVisitToDark'' (dec_bool L)) j of
        Inl e \<Rightarrow> Inl e
      | Inr newFirstVisitToDark \<Rightarrow>
     (case dec_default_option L None (dec_field_option L ''recordConsent'' (dec_optional L (dec_bool L))) j of
        Inl e \<Rightarrow> Inl e
      | Inr consent \<Rightarrow> Inr \<lparr>firstVisitToDark = oldFirstVisitToDark \<or> newFirstVisitToDark,
          recordConsent = consent\<rparr>)))"

definition settings_toString :: "json_lib \<Rightarrow> saved_user_settings \<Rightarrow> string" where
  "settings_toString L se = json_text (encode_settings L se)"

text \<open>\<open>exn_value\<close> is the exception as a value on the console.\<close>

definition settings_fromString ::
  "json_lib \<Rightarrow> (json_exn \<Rightarrow> jsval) \<Rightarrow> string option \<Rightarrow> saved_user_settings \<times> effect list" where
  "settings_fromString L exn_value stored =
     (case stored of
        None \<Rightarrow> (defaultUserSettings, [ConsoleLog [JStr ''no serialized editor'', JUndefined]])
      | Some str \<Rightarrow>
          (case (case lib_parseOrRaise L str of Inl e \<Rightarrow> Inl e | Inr j \<Rightarrow> decode_settings L j) of
             Inl e \<Rightarrow> (defaultUserSettings, [ConsoleLog [JStr ''error parsing serialized editor'', exn_value e]])
           | Inr settings \<Rightarrow> (settings, [])))"

definition user_key :: "string \<Rightarrow> string" where
  "user_key user = ''userState-'' @ user"

definition save_settings :: "json_lib \<Rightarrow> user_model \<Rightarrow> (string \<Rightarrow> string option) \<Rightarrow> (string \<Rightarrow> string option)" where
  "save_settings L m storage =
     storage(user_key (model_username m) := Some (settings_toString L (model2editor m)))"

definition load_settings ::
  "json_lib \<Rightarrow> (json_exn \<Rightarrow> jsval) \<Rightarrow> string \<Rightarrow> (string \<Rightarrow> string option) \<Rightarrow> saved_user_settings \<times> effect list" where
  "load_settings L exn_value user storage = settings_fromString L exn_value (storage (user_key user))"

section \<open>The page's reading of the item\<close>

definition page_parse :: "jsval \<Rightarrow> string \<Rightarrow> jsval + jsval" where
  "page_parse syntax_error s = map_sum (\<lambda>_. syntax_error) id (json_parse s)"

text \<open>\<open>fullstory.init\<close> on a page with the given \<open>localStorage\<close>.\<close>

definition page_fullstory ::
  "jsval \<Rightarrow> jsval \<Rightarrow> dark_user \<Rightarrow> rat option \<Rightarrow> jsval \<Rightarrow> (string \<Rightarrow> string option) \<Rightarrow> effect list" where
  "page_fullstory syntax_error type_error u age canvas storage =
     fullstory_init (page_parse syntax_error) type_error u age (storage (user_key (username u))) canvas"

section \<open>Properties\<close>

definition settings_value :: "saved_user_settings \<Rightarrow> jsval" where
  "settings_value se = JObj [(''showUserWelcomeModal'', JBool (firstVisitToDark se)),
     (''firstVisitToDark'', JBool (firstVisitToDark se)),
     (''recordConsent'', case recordConsent se of None \<Rightarrow> JNull | Some b \<Rightarrow> JBool b)]"

lemma encode_settings_value: "json_lib_ok L \<Longrightarrow> encode_settings L se = settings_value se"
  by (simp add: encode_settings_def settings_value_def json_lib_ok_def split: option.split)

lemma json_parse_settings: "json_lib_ok L \<Longrightarrow> json_parse (settings_toString L se) = Inr (settings_value se)"
  unfolding settings_toString_def encode_settings_value
  by (rule js.dec_enc) (simp add: settings_value_def split: option.split)

lemma saved_item:
  assumes "json_lib_ok L"
  shows "map_option json_parse (save_settings L m storage key) =
    (if key = user_key (model_username m) then Some (Inr (settings_value (model2editor m)))
     else map_option json_parse (storage key))"
proof -
  have "printable (settings_value (model2editor m))" by (simp add: settings_value_def split: option.split)
  then show ?thesis
    unfolding save_settings_def settings_toString_def encode_settings_value [OF assms] by (rule js.stored_item)
qed

lemma consent_parsed:
  "consent_read (page_parse serr) stored =
     (case map_option json_parse stored of Some (Inr v) \<Rightarrow> get_prop v ''recordConsent'' | _ \<Rightarrow> None)"
proof -
  have "json_parse [] = Inl JsonSyntax" by (simp add: json_parse_def skip_space_def)
  then show ?thesis
    by (auto simp: consent_read_def page_parse_def map_sum_def split: option.split sum.split)
qed

lemma decode_settings_obj:
  assumes "json_lib_ok L" "map_of (rev fs) ''showUserWelcomeModal'' = map_option JBool a"
    "map_of (rev fs) ''firstVisitToDark'' = map_option JBool b"
    "map_of (rev fs) ''recordConsent'' = Some (case c of None \<Rightarrow> JNull | Some b \<Rightarrow> JBool b)"
  shows "decode_settings L (JObj fs) =
    Inr \<lparr>firstVisitToDark = a \<noteq> Some False \<or> b \<noteq> Some False, recordConsent = c\<rparr>"
  using lib_bool_field [OF assms(1,2)] lib_bool_field [OF assms(1,3)] lib_option_field [OF assms(1,4)]
  by (cases a; cases b) (auto simp: decode_settings_def defaultUserSettings_def)

lemma decode_settings_value: "json_lib_ok L \<Longrightarrow> decode_settings L (settings_value se) = Inr se"
  unfolding settings_value_def
  by (subst decode_settings_obj [where a = "Some (firstVisitToDark se)" and b = "Some (firstVisitToDark se)"
        and c = "recordConsent se"]) (simp_all split: option.split)

text \<open>What the client saves is what it loads: after save, load for the same user gives the
  settings of the saved model without a message on the console, and for any other user what it gave
  before.\<close>

theorem settings_round_trip:
  assumes "json_lib_ok L"
  shows "load_settings L exn_value user (save_settings L m storage) =
    (if user = model_username m then (model2editor m, []) else load_settings L exn_value user storage)"
proof -
  have "lib_parseOrRaise L (settings_toString L se) = Inr (settings_value se)" for se
    using assms json_parse_settings [OF assms] by (simp add: json_lib_ok_def parse_law_def)
  then show ?thesis
    using assms by (simp add: load_settings_def save_settings_def settings_fromString_def user_key_def
        decode_settings_value)
qed

theorem settings_round_trip_witness:
  "load_settings sample_lib (\<lambda>_. JNull) ''ann''
     (save_settings sample_lib \<lparr>model_firstVisit = False, model_consent = Some True, model_username = ''ann''\<rparr> (\<lambda>_. None))
   = (\<lparr>firstVisitToDark = False, recordConsent = Some True\<rparr>, [])"
  using settings_round_trip [OF sample_lib_ok] by (simp add: model2editor_def)

text \<open>C34: The answer to the consent question decides what the page asks of FullStory at the next visit,
  through the client's encoder, the browser's storage and the page's own reader: once the client has
  saved its settings, the page initialises FullStory, names the user, passes the answer on and
  restarts the recording if the answer is yes, and shuts it down if it is no, or if the question is
  unanswered. Before anything is saved it initialises FullStory and names the user, and nothing more.\<close>

theorem consent_decides_recording:
  assumes "json_lib_ok L" and "username u = model_username m"
  shows "fullstory_calls (page_fullstory serr terr u age canvas (save_settings L m storage))
      = start_calls u age canvas
        @ [(''FullStory.consent'', [case model_consent m of None \<Rightarrow> JNull | Some b \<Rightarrow> JBool b]),
           (if model_consent m = Some True then ''FullStory.restart'' else ''FullStory.shutdown'', [])]
    \<and> (storage (user_key (username u)) = None \<longrightarrow>
        fullstory_calls (page_fullstory serr terr u age canvas storage) = start_calls u age canvas)"
proof -
  have "consent_read (page_parse serr) (save_settings L m storage (user_key (username u)))
      = Some (case model_consent m of None \<Rightarrow> JNull | Some b \<Rightarrow> JBool b)"
    using assms(2) by (simp add: consent_parsed saved_item [OF assms(1)] settings_value_def model2editor_def)
  then show ?thesis
    by (auto simp: page_fullstory_def recording_follows_consent consent_calls_def consent_read_def split: option.split)
qed

theorem consent_decides_recording_witness:
  "last (fullstory_calls (page_fullstory JNull JNull \<lparr>userID = ''u'', username = ''ann'', userEmail = ''e'', userFullname = ''f'',
       userCreatedAt = JNum 0, userIsAdmin = False\<rparr> (Some 1000) JNull
     (save_settings sample_lib \<lparr>model_firstVisit = False, model_consent = None, model_username = ''ann''\<rparr> (\<lambda>_. None))))
   = (''FullStory.shutdown'', [])"
  using consent_decides_recording [OF sample_lib_ok, of "\<lparr>userID = ''u'', username = ''ann'', userEmail = ''e'',
       userFullname = ''f'', userCreatedAt = JNum 0, userIsAdmin = False\<rparr>"
       "\<lparr>model_firstVisit = False, model_consent = None, model_username = ''ann''\<rparr>"]
  by simp

definition test_value :: "string \<Rightarrow> jsval" where
  "test_value name = JObj [(''firstVisitToDark'', JBool False),
     (''recordConsent'', if name = ''record_consent_saved_across_canvases'' then JNull else JBool False),
     (''unsupportedBrowser'', JBool False), (''userTutorial'', JNull)]"

lemma prepSettings_item: "\<exists>str. prepSettings name storage (user_key ''test'') = Some str \<and> str \<noteq> []
  \<and> json_parse str = Inr (test_value name)"
proof -
  define v2 where "v2 consent = ''{'' @ quoted ''firstVisitToDark'' @ '':false,'' @ quoted ''recordConsent'' @ '':''
    @ consent @ '','' @ quoted ''unsupportedBrowser'' @ '': false,'' @ quoted ''userTutorial'' @ '': null}''" for consent
  have "json_parse (v2 ''null'') = Inr (test_value ''record_consent_saved_across_canvases'')"
    "json_parse (v2 ''false'') = Inr (test_value '''')"
    unfolding v2_def by code_simp+
  then have "json_parse (v2 (recordConsent_of name)) = Inr (test_value name)"
    by (simp add: recordConsent_of_def test_value_def)
  then show ?thesis by (simp add: prepSettings_def v2_def user_key_def Let_def)
qed

text \<open>The integration tests are not recorded, but do not switch the tutorial off: with the item
  that prepSettings writes, the page shuts FullStory down in every test of the user test, also in the one
  of the consent modal, in which nobody has answered; and the client loads, whatever the item says of
  firstVisitToDark, that it is the first visit, because the item lacks the field of the older name.\<close>

theorem tests_not_recorded:
  assumes "json_lib_ok L" and "username u = ''test''"
  shows "last (fullstory_calls (page_fullstory serr terr u age canvas (prepSettings name storage)))
      = (''FullStory.shutdown'', [])
    \<and> load_settings L exn_value ''test'' (prepSettings name storage) =
        (\<lparr>firstVisitToDark = True,
          recordConsent = (if name = ''record_consent_saved_across_canvases'' then None else Some False)\<rparr>, [])"
proof -
  let ?c = "if name = ''record_consent_saved_across_canvases'' then None else Some False"
  obtain str where str: "prepSettings name storage (user_key ''test'') = Some str" "str \<noteq> []"
    "json_parse str = Inr (test_value name)" using prepSettings_item by blast
  have "\<exists>c. consent_read (page_parse serr) (Some str) = Some c \<and> \<not> truthy c"
    using str by (simp add: consent_parsed test_value_def)
  then have 1: "last (fullstory_calls (page_fullstory serr terr u age canvas (prepSettings name storage))) = (''FullStory.shutdown'', [])"
    using assms(2) str(1) by (auto simp: page_fullstory_def recording_follows_consent consent_calls_def)
  have "lib_parseOrRaise L str = Inr (test_value name)"
    using assms(1) str(3) by (simp add: json_lib_ok_def parse_law_def)
  moreover have "decode_settings L (test_value name) = Inr \<lparr>firstVisitToDark = True, recordConsent = ?c\<rparr>"
    unfolding test_value_def
    by (subst decode_settings_obj [OF assms(1), where a = None and b = "Some False" and c = ?c]) simp_all
  ultimately show ?thesis using 1 str by (simp add: load_settings_def settings_fromString_def)
qed

theorem tests_not_recorded_witness:
  "last (fullstory_calls (page_fullstory JNull JNull \<lparr>userID = ''u'', username = ''test'', userEmail = ''e'', userFullname = ''f'',
       userCreatedAt = JNum 0, userIsAdmin = False\<rparr> None JNull (prepSettings ''switching_from_http'' (\<lambda>_. None)))) = (''FullStory.shutdown'', [])
   \<and> load_settings sample_lib (\<lambda>_. JNull) ''test'' (prepSettings ''switching_from_http'' (\<lambda>_. None))
     = (\<lparr>firstVisitToDark = True, recordConsent = Some False\<rparr>, [])"
  using tests_not_recorded [OF sample_lib_ok, of "\<lparr>userID = ''u'', username = ''test'', userEmail = ''e'',
       userFullname = ''f'', userCreatedAt = JNum 0, userIsAdmin = False\<rparr>"]
  by simp

end
