(* ===== verification/StartupErrors.thy ===== *)
theory StartupErrors
  imports Bootstrap Telemetry
begin

text \<open>
  What the user sees when a worker cannot be started: the rejections that the start-up task of
  \<open>client/src/appsupport.js\<close> leaves without a handler, and the page's \<open>window.onunhandledrejection\<close>.
  A promise that is rejected is reported once, at the end of the task, unless somebody awaits it by
  then. Each of the two functions that start a worker awaits its scripts one after the other, and
  nobody awaits the functions.
\<close>

section \<open>Rejections without a handler\<close>

text \<open>\<open>SecondText\<close> is the promise of the second \<open>resp.text()\<close>, which the code throws; \<open>Download\<close> is
  the promise of a download, \<open>Starting\<close> that of a function that starts a worker.\<close>

datatype unhandled_rejection = SecondText | Download fetch_reason | Starting fetch_reason

definition starter_rejected :: "starter \<Rightarrow> starter \<Rightarrow> unhandled_rejection list" where
  "starter_rejected s s' =
     (case (s, s') of
        (starter.Rejected r, _) \<Rightarrow> []
      | (_, starter.Rejected r) \<Rightarrow> [Starting r]
      | _ \<Rightarrow> [])"

text \<open>\<open>analysis.js\<close> and \<open>fetcher.js\<close> are awaited from the beginning; \<open>analysiswrapper.js\<close> is awaited
  once \<open>analysis.js\<close> has arrived.\<close>

definition awaited :: "script_file \<Rightarrow> boot \<Rightarrow> bool" where
  "awaited f b = (case f of
     AnalysisWrapperJs \<Rightarrow> (case analysis_starter b of AwaitSecond js \<Rightarrow> True | _ \<Rightarrow> False)
   | _ \<Rightarrow> True)"

definition unhandled :: "page_globals \<Rightarrow> string \<Rightarrow> script_file \<times> fetch_outcome \<Rightarrow> boot \<Rightarrow> unhandled_rejection list" where
  "unhandled g config_json e b =
     (let b' = settle g config_json e b
      in (case snd e of RespBad t \<Rightarrow> [SecondText] | _ \<Rightarrow> [])
         @ (case fst (fetcher g (script_path (fst e)) (snd e)) of
              Inr js \<Rightarrow> []
            | Inl r \<Rightarrow> if awaited (fst e) b then [] else [Download r])
         @ starter_rejected (analysis_starter b) (analysis_starter b')
         @ starter_rejected (fetcher_starter b) (fetcher_starter b'))"

text \<open>\<open>values\<close> gives the event and the reason of a rejection as values, \<open>text\<close> is the conversion of a
  value to a string.\<close>

definition report_rejection ::
  "(jsval \<Rightarrow> string) \<Rightarrow> (unhandled_rejection \<Rightarrow> jsval \<times> jsval) \<Rightarrow> unhandled_rejection \<Rightarrow> error_state \<Rightarrow> error_state" where
  "report_rejection text values r s =
     report text (page_error.Rejected (fst (values r)) (JStr ''unhandledrejection'') (snd (values r))) s"

definition startup_event ::
  "page_globals \<Rightarrow> string \<Rightarrow> (jsval \<Rightarrow> string) \<Rightarrow> (unhandled_rejection \<Rightarrow> jsval \<times> jsval)
   \<Rightarrow> script_file \<times> fetch_outcome \<Rightarrow> boot \<times> error_state \<Rightarrow> boot \<times> error_state" where
  "startup_event g config_json text values e bs =
     (settle g config_json e (fst bs),
      fold (report_rejection text values) (unhandled g config_json e (fst bs)) (snd bs))"

section \<open>Properties\<close>

definition shown :: "error_state \<Rightarrow> nat" where
  "shown s = length (events_named ''displayError'' (error_log s))"

lemma shown_reports: "shown (fold (report_rejection text values) rs s) = shown s + length rs"
  by (induction rs arbitrary: s)
    (simp_all add: report_rejection_def shown_def window_onunhandledrejection_def displayError_def)

lemma startup_event_simps [simp]:
  "fst (startup_event g config_json text values e bs) = settle g config_json e (fst bs)"
  "shown (snd (startup_event g config_json text values e bs)) =
     shown (snd bs) + length (unhandled g config_json e (fst bs))"
  by (simp_all add: startup_event_def shown_reports)

definition arrived :: "(script_file \<times> fetch_outcome) list \<Rightarrow> script_file \<Rightarrow> bool" where
  "arrived es f \<longleftrightarrow> (\<exists>e\<in>set es. fst e = f \<and> (case snd e of RespOk js \<Rightarrow> True | _ \<Rightarrow> False))"

definition failed :: "(script_file \<times> fetch_outcome) list \<Rightarrow> script_file \<Rightarrow> bool" where
  "failed es f \<longleftrightarrow> (\<exists>e\<in>set es. fst e = f \<and> (case snd e of RespOk js \<Rightarrow> False | _ \<Rightarrow> True))"

definition bad_responses :: "(script_file \<times> fetch_outcome) list \<Rightarrow> nat" where
  "bad_responses es = length (filter (\<lambda>e. case snd e of RespBad t \<Rightarrow> True | _ \<Rightarrow> False) es)"

text \<open>\<open>analysis.js\<close> had arrived when \<open>analysiswrapper.js\<close> settled.\<close>

definition arrived_first :: "(script_file \<times> fetch_outcome) list \<Rightarrow> bool" where
  "arrived_first es = arrived (takeWhile (\<lambda>e. fst e \<noteq> AnalysisWrapperJs) es) AnalysisJs"

lemma outcome_lists [simp]:
  "arrived (es @ [e]) f \<longleftrightarrow> arrived es f \<or> arrived [e] f"
  "failed (es @ [e]) f \<longleftrightarrow> failed es f \<or> failed [e] f"
  "bad_responses (es @ [e]) = bad_responses es + bad_responses [e]"
  "\<not> arrived [] f" "\<not> failed [] f" "bad_responses [] = 0"
  by (auto simp: arrived_def failed_def bad_responses_def)

lemma outcome_settled:
  assumes "distinct (map fst es)" "b = fold (settle g config_json) es init_boot"
  shows "arrived es f \<longleftrightarrow> (\<exists>js. settled b f = Some (Inr js))"
    "failed es f \<longleftrightarrow> (\<exists>r. settled b f = Some (Inl r))"
    "boot_inv config_json (page_buildHash g) b"
    "settled b f = None \<longleftrightarrow> f \<notin> set (map fst es)"
proof -
  have i: "boot_inv config_json (page_buildHash g) b"
    and st: "settled b = (\<lambda>f. case map_of es f of None \<Rightarrow> None | Some oc \<Rightarrow> Some (fst (fetcher g (script_path f) oc)))"
    using boot_fold [OF assms(1), of init_boot config_json g] boot_inv_init assms(2)
    by (simp_all cong: option.case_cong)
  show "boot_inv config_json (page_buildHash g) b" by (rule i)
  have m: "(f, oc) \<in> set es \<longleftrightarrow> map_of es f = Some oc" for oc using assms(1) by simp
  have k: "settled b f = Some x \<longleftrightarrow> (\<exists>oc. (f, oc) \<in> set es \<and> fst (fetcher g (script_path f) oc) = x)" for x
    by (auto simp: st m split: option.split)
  have c: "(case oc of RespOk js \<Rightarrow> True | _ \<Rightarrow> False) \<longleftrightarrow> (\<exists>js. oc = RespOk js)"
    "(case oc of RespOk js \<Rightarrow> False | _ \<Rightarrow> True) \<longleftrightarrow> (\<forall>js. oc \<noteq> RespOk js)" for oc
    by (cases oc; simp)+
  have "arrived es f \<longleftrightarrow> (\<exists>js. (f, RespOk js) \<in> set es)"
    unfolding arrived_def c by (metis fst_conv snd_conv prod.collapse)
  then show "arrived es f \<longleftrightarrow> (\<exists>js. settled b f = Some (Inr js))" by (simp add: k fetcher_ok)
  have "failed es f \<longleftrightarrow> (\<exists>oc. (f, oc) \<in> set es \<and> (\<forall>js. oc \<noteq> RespOk js))"
    unfolding failed_def c by (metis fst_conv snd_conv prod.collapse)
  moreover have "(\<exists>r. fst (fetcher g (script_path f) oc) = Inl r) \<longleftrightarrow> (\<forall>js. oc \<noteq> RespOk js)" for oc
    by (cases oc) (simp_all add: fetcher_cases)
  ultimately show "failed es f \<longleftrightarrow> (\<exists>r. settled b f = Some (Inl r))" unfolding k by blast
  have "settled b f = None \<longleftrightarrow> map_of es f = None" by (simp add: st split: option.split)
  then show "settled b f = None \<longleftrightarrow> f \<notin> set (map fst es)" by (simp add: map_of_eq_None_iff)
qed

text \<open>A function that starts a worker is rejected once.\<close>

definition is_rejected :: "starter \<Rightarrow> bool" where
  "is_rejected s \<longleftrightarrow> (\<exists>r. s = starter.Rejected r)"

lemma starter_rejected_length:
  "(is_rejected s \<longrightarrow> is_rejected s') \<Longrightarrow>
   length (starter_rejected s s') + of_bool (is_rejected s) = (of_bool (is_rejected s') :: nat)"
  by (cases s; cases s') (auto simp: starter_rejected_def is_rejected_def)

lemma await_rejected:
  "is_rejected (analysis_starter b) \<Longrightarrow> analysis_starter (await_first b) = analysis_starter b"
  "is_rejected (analysis_starter b) \<Longrightarrow> analysis_starter (await_second c h b) = analysis_starter b"
  "fetcher_starter (await_first b) = fetcher_starter b" "fetcher_starter (await_second c h b) = fetcher_starter b"
  "analysis_starter (run_fetcher c h b) = analysis_starter b"
  "is_rejected (fetcher_starter b) \<Longrightarrow> fetcher_starter (run_fetcher c h b) = fetcher_starter b"
  by (auto simp: await_first_def await_second_def run_fetcher_def is_rejected_def
      split: option.split sum.split starter.split)

lemma settle_rejected:
  "is_rejected (analysis_starter b) \<longrightarrow> is_rejected (analysis_starter (settle g config_json e b))"
  "is_rejected (fetcher_starter b) \<longrightarrow> is_rejected (fetcher_starter (settle g config_json e b))"
proof -
  obtain r es where r: "fetcher g (script_path (fst e)) (snd e) = (r, es)" by force
  show "is_rejected (analysis_starter b) \<longrightarrow> is_rejected (analysis_starter (settle g config_json e b))"
    "is_rejected (fetcher_starter b) \<longrightarrow> is_rejected (fetcher_starter (settle g config_json e b))"
    by (simp_all add: settle_def r run_analysis_def await_rejected)
qed

lemma unhandled_length:
  "length (unhandled g config_json e b) + of_bool (is_rejected (analysis_starter b)) + of_bool (is_rejected (fetcher_starter b))
   = bad_responses [e] + of_bool (failed [e] (fst e) \<and> \<not> awaited (fst e) b)
     + of_bool (is_rejected (analysis_starter (settle g config_json e b)))
     + (of_bool (is_rejected (fetcher_starter (settle g config_json e b))) :: nat)"
proof -
  have "length (case snd e of RespBad t \<Rightarrow> [SecondText] | _ \<Rightarrow> []) = bad_responses [e]"
    by (simp add: bad_responses_def split: fetch_outcome.split)
  moreover have "length (case fst (fetcher g (script_path (fst e)) (snd e)) of Inr js \<Rightarrow> []
      | Inl r \<Rightarrow> if awaited (fst e) b then [] else [Download r]) = of_bool (failed [e] (fst e) \<and> \<not> awaited (fst e) b)"
    by (cases "snd e") (auto simp: failed_def fetcher_cases)
  ultimately show ?thesis
    using starter_rejected_length [OF settle_rejected(1), of b g config_json e]
      starter_rejected_length [OF settle_rejected(2), of b g config_json e]
    by (simp add: unhandled_def Let_def)
qed

lemma shown_run:
  assumes "distinct (map fst es)" "bs = fold (startup_event g config_json text values) es (init_boot, s)"
  shows "fst bs = fold (settle g config_json) es init_boot
    \<and> shown (snd bs) = shown s + bad_responses es
        + of_bool (failed es AnalysisWrapperJs \<and> \<not> arrived_first es)
        + of_bool (is_rejected (analysis_starter (fst bs))) + of_bool (is_rejected (fetcher_starter (fst bs)))"
  using assms
proof (induction es arbitrary: bs rule: rev_induct)
  case Nil
  then show ?case by (simp add: init_boot_def is_rejected_def)
next
  case (snoc e es)
  let ?bs = "fold (startup_event g config_json text values) es (init_boot, s)"
  let ?b = "fold (settle g config_json) es init_boot"
  have d: "distinct (map fst es)" and n: "fst e \<notin> set (map fst es)" using snoc.prems(1) by auto
  note ih = snoc.IH [OF d refl]
  have a: "awaited AnalysisWrapperJs ?b \<longleftrightarrow> arrived es AnalysisJs" if "fst e = AnalysisWrapperJs"
  proof -
    have "settled ?b AnalysisWrapperJs = None"
      using outcome_settled(4) [OF d refl, of g config_json AnalysisWrapperJs] n that by simp
    then have "analysis_starter ?b = (case settled ?b AnalysisJs of None \<Rightarrow> AwaitFirst
        | Some (Inl r) \<Rightarrow> starter.Rejected r | Some (Inr js) \<Rightarrow> AwaitSecond js)"
      using outcome_settled(3) [OF d refl, of config_json g]
      by (cases "settled ?b AnalysisJs" rule: outcome_cases) (simp_all add: boot_inv_def analysis_result_def)
    then show ?thesis using outcome_settled(1) [OF d refl, of AnalysisJs g config_json]
      by (cases "settled ?b AnalysisJs" rule: outcome_cases) (simp_all add: awaited_def)
  qed
  have w: "of_bool (failed (es @ [e]) AnalysisWrapperJs \<and> \<not> arrived_first (es @ [e]))
    = of_bool (failed es AnalysisWrapperJs \<and> \<not> arrived_first es)
      + (of_bool (failed [e] (fst e) \<and> \<not> awaited (fst e) ?b) :: nat)"
  proof (cases "fst e = AnalysisWrapperJs")
    case True
    then have "takeWhile (\<lambda>e. fst e \<noteq> AnalysisWrapperJs) es = es" "\<not> failed es AnalysisWrapperJs"
      using n by (force simp: takeWhile_eq_all_conv failed_def)+
    then show ?thesis using True a by (simp add: arrived_first_def takeWhile_append)
  next
    case False
    then have "awaited (fst e) ?b" "\<not> failed [e] AnalysisWrapperJs"
      by (cases "fst e"; simp add: awaited_def failed_def)+
    moreover have "arrived_first (es @ [e]) = arrived_first es" if "failed es AnalysisWrapperJs"
      using that by (auto simp: arrived_first_def failed_def intro!: arg_cong [where f = "\<lambda>l. arrived l AnalysisJs"]
          takeWhile_append1)
    ultimately show ?thesis by auto
  qed
  show ?case
    using snoc.prems(2) ih unhandled_length [of g config_json e ?b] w by simp
qed

text \<open>C36: The user is told of every worker that cannot be started, sometimes more than once: whatever
  downloads have settled, in whatever order, an error has been shown for each worker of which a
  script did not arrive, one more for each error response, whose second reading is a rejection of its
  own, and one more for analysiswrapper.js when it failed before analysis.js had arrived; once all
  three have settled, nothing has been shown exactly if both workers have been created.\<close>

theorem start_failures_shown:
  assumes "distinct (map fst es)"
  shows "let (b, s') = fold (startup_event g config_json text values) es (init_boot, s)
    in shown s' = shown s + bad_responses es
        + (if failed es AnalysisWrapperJs \<and> \<not> arrived_first es then 1 else 0)
        + (if failed es AnalysisJs \<or> (arrived es AnalysisJs \<and> failed es AnalysisWrapperJs) then 1 else 0)
        + (if failed es FetcherJs then 1 else 0)
      \<and> (set (map fst es) = UNIV \<longrightarrow>
          (shown s' = shown s \<longleftrightarrow> AnalysisJs \<in> fst ` set (workers b) \<and> FetcherJs \<in> fst ` set (workers b)))"
proof -
  let ?bs = "fold (startup_event g config_json text values) es (init_boot, s)"
  let ?b = "fold (settle g config_json) es init_boot"
  note o = outcome_settled [OF assms refl, where g = g and config_json = config_json]
  have settles: "settled ?b f = None \<or> (arrived es f \<and> \<not> failed es f) \<or> (failed es f \<and> \<not> arrived es f)" for f
    by (cases "settled ?b f" rule: outcome_cases) (simp_all add: o(1,2))
  have r: "is_rejected (analysis_starter ?b) \<longleftrightarrow>
      failed es AnalysisJs \<or> (arrived es AnalysisJs \<and> failed es AnalysisWrapperJs)"
    "is_rejected (fetcher_starter ?b) \<longleftrightarrow> failed es FetcherJs"
    using o(3) by (cases "settled ?b AnalysisJs" rule: outcome_cases; cases "settled ?b AnalysisWrapperJs" rule: outcome_cases;
        cases "settled ?b FetcherJs" rule: outcome_cases;
        simp add: boot_inv_def analysis_result_def fetcher_result_def is_rejected_def o(1,2))+
  have w: "AnalysisJs \<in> fst ` set (workers ?b) \<longleftrightarrow> arrived es AnalysisJs \<and> arrived es AnalysisWrapperJs"
    "FetcherJs \<in> fst ` set (workers ?b) \<longleftrightarrow> arrived es FetcherJs"
    using o(3) by (cases "settled ?b AnalysisJs" rule: outcome_cases; cases "settled ?b AnalysisWrapperJs" rule: outcome_cases;
        cases "settled ?b FetcherJs" rule: outcome_cases; simp add: boot_inv_def o(1))+
  have all: "arrived es f \<longleftrightarrow> \<not> failed es f" if "set (map fst es) = UNIV" for f
    using settles [of f] o(4) [of f] that by auto
  have bad: "bad_responses es = 0" if "\<forall>f. \<not> failed es f"
    using that by (auto simp: bad_responses_def failed_def filter_empty_conv split: fetch_outcome.splits)
  have "\<not> failed es f" if "\<not> failed es AnalysisJs" "\<not> failed es AnalysisWrapperJs" "\<not> failed es FetcherJs" for f
    using that by (cases f) simp_all
  then show ?thesis
    using shown_run [OF assms refl, of g config_json "text" "values" s] r w all bad
    by (cases ?bs) auto
qed

theorem start_failures_shown_witness:
  "let (b, s') = fold (startup_event \<lparr>complete = JNull, userContentHost = [], environmentName = [], csrfToken = [],
       isAdmin = False, page_buildHash = ''h'', page_username = ''u'', staticUrl = ''s'', hashReplacements = []\<rparr>
       ''{}'' (\<lambda>_. []) (\<lambda>_. (JNull, JNull)))
     [(AnalysisWrapperJs, RespBad ''404''), (FetcherJs, RespOk ''f''), (AnalysisJs, RespOk ''a'')]
     (init_boot, \<lparr>lastError = JUndefined, lastRejection = JUndefined, error_log = []\<rparr>)
   in shown s' = 3"
proof -
  have "\<not> arrived_first [(AnalysisWrapperJs, RespBad ''404''), (FetcherJs, RespOk ''f''), (AnalysisJs, RespOk ''a'')]"
    by (simp add: arrived_first_def arrived_def)
  then show ?thesis
    using start_failures_shown [of "[(AnalysisWrapperJs, RespBad ''404''), (FetcherJs, RespOk ''f''), (AnalysisJs, RespOk ''a'')]"
        "\<lparr>complete = JNull, userContentHost = [], environmentName = [], csrfToken = [], isAdmin = False,
          page_buildHash = ''h'', page_username = ''u'', staticUrl = ''s'', hashReplacements = []\<rparr>" "''{}''"
        "\<lambda>_. []" "\<lambda>_. (JNull, JNull)" "\<lparr>lastError = JUndefined, lastRejection = JUndefined, error_log = []\<rparr>"]
    by (simp add: failed_def arrived_def bad_responses_def shown_def split: prod.splits)
qed

end
