(* ===== verification/Startup.thy ===== *)
theory Startup
  imports AnalysisQueue Browser Bootstrap UserState
begin

text \<open>
  The start-up task of \<open>client/src/appsupport.js\<close> as a whole: what it does, in order, with the parts
  that \<open>Bootstrap\<close>, \<open>AnalysisQueue\<close>, \<open>Browser\<close>, \<open>Telemetry\<close> and \<open>UserState\<close> model; and
  \<open>client/src/app/InitialParameters.ml\<close>, with which the client reads the parameters it is started with.
\<close>

section \<open>The page\<close>

record page_env =
  pe_globals :: page_globals
  pe_pathname :: string
  pe_search :: "(string \<times> string) list"
  pe_user :: dark_user
  pe_age :: "rat option"
  pe_storage :: "string \<Rightarrow> string option"
  pe_rollbar :: jsval
  pe_pusher :: bool
  pe_canvasID :: string
  pe_has_listener :: bool
  pe_support :: wheel_support
  pe_body :: jsval

text \<open>\<open>new URLSearchParams(window.location.search).get("use-blazor")\<close>.\<close>

definition use_blazor_param :: "(string \<times> string) list \<Rightarrow> jsval" where
  "use_blazor_param search = (case map_of search ''use-blazor'' of None \<Rightarrow> JNull | Some v \<Rightarrow> JStr v)"

record startup =
  su_dark :: dark
  su_config :: string
  su_buildHash :: string
  su_effects :: "effect list"

definition app_call :: "app_mode \<Rightarrow> string" where
  "app_call mode = (case mode of Normal \<Rightarrow> ''app.normal'' | Debugging \<Rightarrow> ''app.debugging'')"

definition text_value :: "string option \<Rightarrow> jsval" where
  "text_value t = (case t of None \<Rightarrow> JUndefined | Some s \<Rightarrow> JStr s)"

text \<open>The assignment of a handler is an effect named after it; what the handlers do is in \<open>Browser\<close>.
  What happens when the downloads settle is in \<open>Bootstrap\<close> and \<open>StartupErrors\<close>.
  A value without a text is the word \<open>undefined\<close> in a concatenation.\<close>

definition concat_text :: "string option \<Rightarrow> string" where
  "concat_text t = (case t of None \<Rightarrow> ''undefined'' | Some s \<Rightarrow> s)"

definition startup_task :: "jsval \<Rightarrow> jsval \<Rightarrow> page_env \<Rightarrow> dark \<Rightarrow> startup" where
  "startup_task syntax_error type_error E d =
     (let g = pe_globals E;
          canvasName = canvas_name (pe_pathname E);
          params = json integer_text (client_params g canvasName);
          start_client = [CallExt (app_call (app_mode_of (pe_search E))) [pe_body E, text_value params]];
          fetches = map (\<lambda>f. CallExt ''fetch'' [JStr (script_url g (script_path f))])
            [AnalysisJs, AnalysisWrapperJs, FetcherJs];
          d1 = initializeBlazorWorker d;
          timer = [CallExt ''set window.onfocus'' [], CallExt ''set window.onblur'' [],
            CallExt ''setInterval'' [JStr ''visibilityCheck'', JNum 2000]];
          wheel = map (\<lambda>l. CallExt (''document.'' @ fst l) [JStr (snd l)])
            (wheel_listeners (pe_has_listener E) (pe_support E));
          fullstory = fullstory_init (page_parse syntax_error) type_error (pe_user E) (pe_age E)
            (pe_storage E (user_key (username (pe_user E)))) canvasName;
          pusher = (if pe_pusher E
            then CallExt ''pusherConnection.subscribe'' [JStr (pusher_channel (pe_canvasID E))]
              # map (\<lambda>b. CallExt ''pusherChannel.bind'' [JStr (fst b)]) pusher_bindings
            else [])
      in \<lparr>su_dark = d1, su_config = concat_text (json integer_text (pe_rollbar E)), su_buildHash = page_buildHash g,
          su_effects = start_client @ fetches @ timer @ wheel @ fullstory @ pusher\<rparr>)"

text \<open>A page from its beginning to the end of the start-up task, if no analysis is requested before.\<close>

definition started_page :: "jsval \<Rightarrow> jsval \<Rightarrow> page_env \<Rightarrow> startup" where
  "started_page syntax_error type_error E =
     startup_task syntax_error type_error E (init_dark (use_blazor_param (pe_search E)))"

section \<open>InitialParameters.ml\<close>

text \<open>\<open>functions\<close> decodes the completions; their records are not modelled.\<close>

record initial_parameters =
  ip_complete :: jsval
  ip_canvasName :: string
  ip_userContentHost :: string
  ip_environment :: string
  ip_csrfToken :: string
  ip_isAdmin :: bool
  ip_buildHash :: string
  ip_username :: string

definition and_then :: "'e + 'a \<Rightarrow> ('a \<Rightarrow> 'e + 'b) \<Rightarrow> 'e + 'b" where
  "and_then x f = (case x of Inl e \<Rightarrow> Inl e | Inr a \<Rightarrow> f a)"

definition parameters_fromString :: "json_lib \<Rightarrow> jsval dec \<Rightarrow> string \<Rightarrow> json_exn + initial_parameters" where
  "parameters_fromString L functions strJ =
     and_then (lib_parseOrRaise L strJ) (\<lambda>j.
     and_then (dec_field_string L ''canvasName'' (dec_string L) j) (\<lambda>canvas.
     and_then (dec_field_value L ''complete'' functions j) (\<lambda>compl.
     and_then (dec_field_string L ''userContentHost'' (dec_string L) j) (\<lambda>host.
     and_then (dec_field_string L ''environment'' (dec_string L) j) (\<lambda>environment.
     and_then (dec_field_string L ''csrfToken'' (dec_string L) j) (\<lambda>token.
     and_then (dec_field L ''isAdmin'' (dec_bool L) j) (\<lambda>admin.
     and_then (dec_field_string L ''buildHash'' (dec_string L) j) (\<lambda>hash.
     and_then (dec_field_string L ''username'' (dec_string L) j) (\<lambda>user.
       Inr \<lparr>ip_complete = compl, ip_canvasName = canvas, ip_userContentHost = host, ip_environment = environment,
         ip_csrfToken = token, ip_isAdmin = admin, ip_buildHash = hash, ip_username = user\<rparr>)))))))))"

lemma and_then_simps [simp]: "and_then (Inr a) f = f a" "and_then (Inl e) f = Inl e"
  by (simp_all add: and_then_def)

section \<open>Properties\<close>

lemma client_params_parse:
  assumes "integral (complete g)" "integral c"
  shows "\<exists>t. json integer_text (client_params g c) = Some t \<and> json_parse t = Inr (json_normal (client_params g c))"
proof -
  have i: "integral (client_params g c)" and u: "client_params g c \<noteq> JUndefined"
    using assms by (simp_all add: client_params_def)
  have "json integer_text (client_params g c) = Some (json_text (json_normal (client_params g c)))"
    using printable_json [OF printable_normal [OF i u]] by (simp add: json_normal_same)
  then show ?thesis using json_parse_text [OF printable_normal [OF i u]] by simp
qed

lemma canvas_name_integral: "integral (canvas_name p)"
  by (simp add: canvas_name_def split: option.split)

lemma parameters_found:
  assumes "json_lib_ok L" "lib_parseOrRaise L t = Inr (JObj fs)"
    and "map_of (rev fs) ''canvasName'' = Some (JStr name)" "map_of (rev fs) ''complete'' = Some v"
    and "map_of (rev fs) ''userContentHost'' = Some (JStr host)" "map_of (rev fs) ''environment'' = Some (JStr envn)"
    and "map_of (rev fs) ''csrfToken'' = Some (JStr token)" "map_of (rev fs) ''isAdmin'' = Some (JBool admin)"
    and "map_of (rev fs) ''buildHash'' = Some (JStr hash)" "map_of (rev fs) ''username'' = Some (JStr user)"
    and "v \<noteq> JUndefined" "functions v = Inr c"
  shows "parameters_fromString L functions t = Inr \<lparr>ip_complete = c, ip_canvasName = name, ip_userContentHost = host,
    ip_environment = envn, ip_csrfToken = token, ip_isAdmin = admin, ip_buildHash = hash, ip_username = user\<rparr>"
  by (simp add: parameters_fromString_def assms(2) lib_string_field [OF assms(1)] lib_bool_plain_field [OF assms(1)]
      lib_value_field [of L fs "''complete''" v "functions" c, OF assms(1,4,11,12)] assms)

text \<open>C37: The client is started with what the page was given: the start-up task first calls the client,
  with its debugger if the query string asks for it, and the text it passes decodes to the globals of
  the page and the canvas named by the third segment of the path; without such a segment the decoder
  raises, and the client does not start.\<close>

theorem client_gets_parameters:
  assumes "json_lib_ok L" and "integral (complete (pe_globals E))" and "complete (pe_globals E) \<noteq> JUndefined"
    and "functions (json_normal (complete (pe_globals E))) = Inr c"
  shows "\<exists>t. hd (su_effects (started_page serr terr E)) = CallExt (app_call (app_mode_of (pe_search E))) [pe_body E, JStr t]
    \<and> (case nth_opt (js_split (CHR ''/'') (pe_pathname E)) 2 of
         Some name \<Rightarrow> parameters_fromString L functions t = Inr \<lparr>ip_complete = c, ip_canvasName = name,
           ip_userContentHost = userContentHost (pe_globals E), ip_environment = environmentName (pe_globals E),
           ip_csrfToken = csrfToken (pe_globals E), ip_isAdmin = isAdmin (pe_globals E),
           ip_buildHash = page_buildHash (pe_globals E), ip_username = page_username (pe_globals E)\<rparr>
       | None \<Rightarrow> \<exists>m. parameters_fromString L functions t = Inl (DecodeError m))"
proof -
  let ?g = "pe_globals E" and ?c = "canvas_name (pe_pathname E)"
  obtain t where t: "json integer_text (client_params ?g ?c) = Some t"
    "json_parse t = Inr (json_normal (client_params ?g ?c))"
    using client_params_parse [OF assms(2) canvas_name_integral] by blast
  then have p: "lib_parseOrRaise L t = Inr (json_normal (client_params ?g ?c))"
    using assms(1) by (simp add: json_lib_ok_def parse_law_def)
  have h: "hd (su_effects (started_page serr terr E)) = CallExt (app_call (app_mode_of (pe_search E))) [pe_body E, JStr t]"
    by (simp add: started_page_def startup_task_def Let_def t(1) text_value_def)
  show ?thesis
  proof (cases "nth_opt (js_split (CHR ''/'') (pe_pathname E)) 2")
    case (Some name)
    then have "?c = JStr name" by (simp add: canvas_name_def)
    then have "lib_parseOrRaise L t = Inr (JObj [(''complete'', json_normal (complete ?g)), (''canvasName'', JStr name),
        (''userContentHost'', JStr (userContentHost ?g)), (''environment'', JStr (environmentName ?g)),
        (''csrfToken'', JStr (csrfToken ?g)), (''isAdmin'', JBool (isAdmin ?g)),
        (''buildHash'', JStr (page_buildHash ?g)), (''username'', JStr (page_username ?g))])"
      using p assms(3) by (simp add: client_params_def)
    from parameters_found [OF assms(1) this, of name "json_normal (complete ?g)"] h Some assms(3,4)
    show ?thesis by (intro exI [of _ t]) simp
  next
    case None
    then have "?c = JUndefined" by (simp add: canvas_name_def)
    then have j: "lib_parseOrRaise L t = Inr (JObj [(''complete'', json_normal (complete ?g)),
        (''userContentHost'', JStr (userContentHost ?g)), (''environment'', JStr (environmentName ?g)),
        (''csrfToken'', JStr (csrfToken ?g)), (''isAdmin'', JBool (isAdmin ?g)),
        (''buildHash'', JStr (page_buildHash ?g)), (''username'', JStr (page_username ?g))])" (is "_ = Inr (JObj ?fs)")
      using p assms(3) by (simp add: client_params_def)
    have "\<exists>m. dec_field_string L ''canvasName'' (dec_string L) (JObj ?fs) = Inl (DecodeError m)"
      by (rule lib_string_missing [OF assms(1)]) simp
    then have "\<exists>m. parameters_fromString L functions t = Inl (DecodeError m)"
      by (auto simp: parameters_fromString_def j)
    then show ?thesis using h None by (intro exI [of _ t]) simp
  qed
qed

definition sample_page :: "string \<Rightarrow> page_env" where
  "sample_page path = \<lparr>pe_globals = \<lparr>complete = JArr [], userContentHost = ''h'', environmentName = ''e'', csrfToken = ''t'',
       isAdmin = False, page_buildHash = ''b'', page_username = ''ann'', staticUrl = ''s'', hashReplacements = []\<rparr>,
     pe_pathname = path, pe_search = [(''use-blazor'', ''false'')],
     pe_user = \<lparr>userID = ''u'', username = ''ann'', userEmail = ''m'', userFullname = ''f'', userCreatedAt = JNum 0, userIsAdmin = False\<rparr>,
     pe_age = None, pe_storage = (\<lambda>_. None), pe_rollbar = JObj [], pe_pusher = False, pe_canvasID = ''c'',
     pe_has_listener = True, pe_support = Wheel, pe_body = JObj []\<rparr>"

theorem client_gets_parameters_witness:
  "\<exists>t. hd (su_effects (started_page JNull JNull (sample_page ''/a/ann-blog''))) = CallExt ''app.normal'' [JObj [], JStr t]
    \<and> parameters_fromString sample_lib Inr t = Inr \<lparr>ip_complete = JArr [], ip_canvasName = ''ann-blog'',
        ip_userContentHost = ''h'', ip_environment = ''e'', ip_csrfToken = ''t'', ip_isAdmin = False,
        ip_buildHash = ''b'', ip_username = ''ann''\<rparr>"
  using client_gets_parameters [OF sample_lib_ok, of "sample_page ''/a/ann-blog''" Inr "JArr []" JNull JNull]
  by (simp add: sample_page_def app_call_def app_mode_of_def)

lemma fullstory_calls_none:
  "list_all (\<lambda>e. case e of CallExt m args \<Rightarrow> \<not> prefix ''FullStory.'' m | _ \<Rightarrow> True) es \<Longrightarrow> fullstory_calls es = []"
  by (induction es rule: fullstory_calls.induct) simp_all

text \<open>The start-up task leaves the page in the state its parts describe: the analysis queues are
  those of a page that has run one task, with a Blazor worker exactly if the query string has a
  non-empty use-blazor (whatever its value); and FullStory is asked exactly what the stored
  consent, the user and the age of the account say, nothing else in the task calling it.\<close>

theorem startup_composes:
  "dark_reach enc dec (use_blazor_param (pe_search E)) (su_dark (started_page serr terr E))
   \<and> (blazorWorker (su_dark (started_page serr terr E)) \<noteq> None
        \<longleftrightarrow> map_of (pe_search E) ''use-blazor'' \<notin> {None, Some ''''})
   \<and> fullstory_calls (su_effects (started_page serr terr E))
      = fullstory_calls (page_fullstory serr terr (pe_user E) (pe_age E) (canvas_name (pe_pathname E)) (pe_storage E))"
proof -
  let ?d = "init_dark (use_blazor_param (pe_search E))"
  have d: "su_dark (started_page serr terr E) = fst (run_task enc dec BlazorInit ?d)"
    by (simp add: started_page_def startup_task_def Let_def)
  have r: "dark_reach enc dec (use_blazor_param (pe_search E)) (fst (run_task enc dec BlazorInit ?d))"
    by (rule dark_steps.task [OF dark_steps.start]) (simp add: init_dark_def)
  have b: "blazorWorker (fst (run_task enc dec BlazorInit ?d)) \<noteq> None
      \<longleftrightarrow> map_of (pe_search E) ''use-blazor'' \<notin> {None, Some ''''}"
    by (auto simp: initializeBlazorWorker_def blazor_initWorker_def init_dark_def use_blazor_param_def
        split: option.split)
  have p1: "fullstory_calls (if pe_pusher E
        then CallExt ''pusherConnection.subscribe'' [JStr (pusher_channel (pe_canvasID E))]
          # map (\<lambda>b. CallExt ''pusherChannel.bind'' [JStr (fst b)]) pusher_bindings else []) = []"
    by (rule fullstory_calls_none) (auto simp: list_all_iff)
  have p2: "fullstory_calls (map (\<lambda>l. CallExt (''document.'' @ fst l) [JStr (snd l)])
        (wheel_listeners (pe_has_listener E) (pe_support E))) = []"
    by (rule fullstory_calls_none) (simp add: list_all_iff)
  have p3: "\<not> prefix ''FullStory.'' (app_call mode)" for mode
    by (cases mode) (simp_all add: app_call_def)
  note p = p1 p2 p3
  show ?thesis using d r b p
    by (simp add: started_page_def startup_task_def Let_def page_fullstory_def)
qed

end
