(* ===== verification/PageTypes.thy ===== *)
theory PageTypes
  imports AnalysisQueue
begin

text \<open>
  The types of the values that the page keeps for the F# analysis and posts to its worker. The code is
  untyped: \<open>requestAnalysis\<close> of \<open>client/src/appsupport.js\<close> puts either the text of a request or the
  response object of \<open>stringifyInput\<close> into the same variable. A type here is a set of values; the
  judgement is inductive, the invariant gives each field of the state its type, and type soundness is
  preservation together with the absence of a \<open>TypeError\<close>.
\<close>

section \<open>Types\<close>

datatype js_ty = TUndefined | TNull | TString | TUnion js_ty js_ty | TObject "(string \<times> js_ty) list"

inductive has_type :: "jsval \<Rightarrow> js_ty \<Rightarrow> bool" where
  ty_undefined: "has_type JUndefined TUndefined"
| ty_null: "has_type JNull TNull"
| ty_string: "has_type (JStr s) TString"
| ty_left: "has_type v t \<Longrightarrow> has_type v (TUnion t u)"
| ty_right: "has_type v u \<Longrightarrow> has_type v (TUnion t u)"
| ty_empty: "has_type (JObj []) (TObject [])"
| ty_field: "has_type v t \<Longrightarrow> has_type (JObj fs) (TObject ts) \<Longrightarrow>
     has_type (JObj ((k, v) # fs)) (TObject ((k, t) # ts))"

inductive_simps has_type_simps [simp]:
  "has_type v TUndefined" "has_type v TNull" "has_type v TString" "has_type v (TUnion t u)"
  "has_type (JStr s) (TObject ts)" "has_type JNull (TObject ts)"
  "has_type (JObj []) (TObject ts)" "has_type (JObj (f # fs)) (TObject ts)"

inductive_cases ty_unionE: "has_type v (TUnion t u)"

text \<open>\<open>FSharpAnalysisWrapper.response\<close>, and what may be posted to the worker.\<close>

definition response_ty :: js_ty where
  "response_ty = TObject [(''responseType'', TString), (''json'', TString)]"

definition message_ty :: js_ty where
  "message_ty = TUnion TString response_ty"

lemma payload_type: "has_type (payload enc p) message_ty"
  by (simp add: payload_def message_ty_def response_ty_def response_object_def)

lemma payload_string: "p \<noteq> JNull \<Longrightarrow> p \<noteq> JUndefined \<Longrightarrow> has_type (payload enc p) TString"
  by (simp add: payload_def)

section \<open>The types of the page's state\<close>

definition null_reported :: "dark \<Rightarrow> bool" where
  "null_reported d \<longleftrightarrow> (\<exists>p \<in> {JNull, JUndefined}.
     ConsoleLog [JStr ''Got null instead of an event'', p] \<in> set (effects d))"

definition page_typed :: "dark \<Rightarrow> bool" where
  "page_typed d \<longleftrightarrow> has_type (useBlazor d) (TUnion TNull TString)
     \<and> has_type (analysis_busy d) TUndefined \<and> has_type (ocaml_next d) TNull
     \<and> has_type (fsharp_next d) (TUnion TNull message_ty)
     \<and> (\<forall>m \<in> set (fsharp_history d). has_type m message_ty)
     \<and> (null_reported d \<or> (has_type (fsharp_next d) (TUnion TNull TString)
          \<and> (\<forall>m \<in> set (fsharp_history d). has_type m TString)))"

text \<open>What a task may do to the typed part: \<open>ps\<close> are the requests it takes in.\<close>

definition typed_move :: "(jsval \<Rightarrow> string) \<Rightarrow> jsval set \<Rightarrow> dark \<Rightarrow> dark \<Rightarrow> bool" where
  "typed_move enc ps d d' \<longleftrightarrow> useBlazor d' = useBlazor d
     \<and> set (effects d) \<union> (\<Union>p \<in> ps. set (enqueue_log p)) \<subseteq> set (effects d')
     \<and> fsharp_next d' \<in> {JNull, fsharp_next d} \<union> payload enc ` ps
     \<and> set (fsharp_history d') \<subseteq> set (fsharp_history d) \<union> ({fsharp_next d} - {JNull}) \<union> payload enc ` ps"

lemma typed_move_refl: "typed_move enc {} d d"
  by (auto simp: typed_move_def)

lemma typed_move_from:
  assumes "typed_move enc ps d' d''" and "useBlazor d' = useBlazor d" and "set (effects d) \<subseteq> set (effects d')"
    and "fsharp_next d' = fsharp_next d" and "fsharp_history d' = fsharp_history d"
  shows "typed_move enc ps d d''"
  using assms by (auto simp: typed_move_def)

lemma fsharp_request_typed: "\<exists>ps. typed_move enc ps d (fst (fsharp_request enc p d))"
proof (cases "fsharp_initialized d")
  case True
  have "typed_move enc {p} d (fst (fsharp_enqueue enc p d))"
    by (auto simp: fsharp_enqueue_eq Let_def typed_move_def fsharp_history_def split: option.split)
  then show ?thesis using True by (auto simp: fsharp_request_def)
next
  case False
  have "typed_move enc {} d (fst (fsharp_request enc p d))"
    using False by (auto simp: fsharp_request_def emit_def typed_move_def fsharp_history_def)
  then show ?thesis by blast
qed

lemma ocaml_request_typed: "typed_move enc {} d (ocaml_request p d)"
  by (auto simp: ocaml_request_def emit_def Let_def typed_move_def fsharp_history_def split: option.split)

lemma task_typed_move:
  assumes i: "fsharp_inv False d" "ocaml_inv d" and t: "enabled t d"
  shows "\<exists>ps. typed_move enc ps d (fst (run_task enc dec t d))"
proof (cases t)
  case (Request p)
  then show ?thesis using fsharp_request_typed [of enc d p] ocaml_request_typed [of enc d p]
    by (cases "truthy (useBlazor d)") (auto simp: request_analysis_def)
next
  case OcamlTimer
  then obtain p rest where p: "ocaml_timers d = p # rest" using t by (cases "ocaml_timers d") auto
  show ?thesis unfolding OcamlTimer
    by (simp add: ocaml_timer_def p, rule exI, rule typed_move_from [OF ocaml_request_typed])
      (auto simp: emit_def fsharp_history_def)
next
  case FsharpTimer
  then obtain p rest where p: "fsharp_timers d = p # rest" using t by (cases "fsharp_timers d") auto
  let ?d = "emit (ConsoleLog [JStr ''Trying BlazorWorker again'']) (d\<lparr>fsharp_timers := rest\<rparr>)"
  obtain ps where "typed_move enc ps ?d (fst (fsharp_request enc p ?d))" using fsharp_request_typed by blast
  from typed_move_from [OF this, of d] have "typed_move enc ps d (fst (fsharp_request enc p ?d))"
    by (auto simp: emit_def fsharp_history_def)
  then show ?thesis unfolding FsharpTimer by (auto simp: fsharp_timer_def p)
next
  case OcamlLoaded
  have "typed_move enc {} d (ocaml_worker_loaded d)"
    by (rule typed_move_from [of enc "{}" d]) (auto simp: typed_move_def ocaml_worker_loaded_def fsharp_history_def)
  then show ?thesis unfolding OcamlLoaded by auto
next
  case BlazorInit
  have "typed_move enc {} d (initializeBlazorWorker d)"
    using t BlazorInit by (auto simp: initializeBlazorWorker_def blazor_initWorker_def typed_move_def fsharp_history_def new_channel_def)
  then show ?thesis unfolding BlazorInit by auto
next
  case BlazorReady
  have "typed_move enc {} d (initializedCallback d)"
    by (auto simp: initializedCallback_def emit_def typed_move_def fsharp_history_def)
  then show ?thesis unfolding BlazorReady by (auto simp: blazor_onmessage_def)
next
  case (OcamlAnswer r now rs)
  then obtain c where c: "analysisWorker d = Some c" "in_flight c \<noteq> []" using t by (auto split: option.splits)
  have "typed_move enc {} d (ocaml_answer enc r now rs d)"
    by (auto simp: ocaml_answer_eq [OF i(2) c] typed_move_def fsharp_history_def)
  then show ?thesis unfolding OcamlAnswer by auto
next
  case (BlazorAnswer r now rs)
  then obtain c where c: "blazorWorker d = Some c" "in_flight c \<noteq> []" "r \<noteq> ready_message"
    using t by (auto split: option.splits)
  have "typed_move enc (if isl (dec r) then {} else set rs) d (fst (blazor_answer enc dec r now rs d))"
    using last_in_set [of rs]
    by (auto simp: blazor_answer_eq [OF i(1) c] Let_def typed_move_def fsharp_history_def c post_def answer_def
        split: sum.split)
  then show ?thesis unfolding BlazorAnswer by auto
qed

lemma null_reported_mono: "typed_move enc ps d d' \<Longrightarrow> null_reported d \<Longrightarrow> null_reported d'"
  unfolding typed_move_def null_reported_def by blast

lemma null_request_reported:
  assumes "typed_move enc ps d d'" "p \<in> ps" "p = JNull \<or> p = JUndefined"
  shows "null_reported d'"
proof -
  have "set (enqueue_log p) \<subseteq> set (effects d')" using assms(1,2) by (auto simp: typed_move_def)
  then show ?thesis using assms(3) by (auto simp: null_reported_def enqueue_log_def)
qed

lemma page_typed_move:
  assumes "page_typed d" and m: "typed_move enc ps d d'" and "ocaml_inv d'"
  shows "page_typed d'"
proof -
  have next_ty: "has_type v (TUnion TNull message_ty)"
    if "v \<in> {JNull, fsharp_next d} \<union> payload enc ` ps" for v
    using that assms(1) payload_type by (auto simp: page_typed_def)
  have posted_ty: "has_type v message_ty"
    if "v \<in> set (fsharp_history d) \<union> ({fsharp_next d} - {JNull}) \<union> payload enc ` ps" for v
    using that assms(1) payload_type by (auto simp: page_typed_def)
  have nx: "fsharp_next d' \<in> {JNull, fsharp_next d} \<union> payload enc ` ps"
    and hs: "\<And>v. v \<in> set (fsharp_history d') \<Longrightarrow>
      v \<in> set (fsharp_history d) \<union> ({fsharp_next d} - {JNull}) \<union> payload enc ` ps"
    using m by (auto simp: typed_move_def)
  have "null_reported d' \<or> (\<not> null_reported d \<and> (\<forall>p \<in> ps. p \<noteq> JNull \<and> p \<noteq> JUndefined))"
    using null_reported_mono [OF m] null_request_reported [OF m] by blast
  then have "null_reported d' \<or> (has_type (fsharp_next d') (TUnion TNull TString)
      \<and> (\<forall>m \<in> set (fsharp_history d'). has_type m TString))"
  proof
    assume n: "\<not> null_reported d \<and> (\<forall>p \<in> ps. p \<noteq> JNull \<and> p \<noteq> JUndefined)"
    then have p: "has_type v TString" if "v \<in> payload enc ` ps" for v
      using that payload_string by blast
    have strings: "has_type (fsharp_next d) (TUnion TNull TString)" "\<forall>m \<in> set (fsharp_history d). has_type m TString"
      using n assms(1) by (simp_all add: page_typed_def)
    have next_str: "has_type v (TUnion TNull TString)" if v: "v \<in> {JNull, fsharp_next d} \<union> payload enc ` ps" for v
    proof -
      consider "v = JNull" | "v = fsharp_next d" | "v \<in> payload enc ` ps" using v by blast
      then show ?thesis by cases (use strings(1) in simp, use strings(1) in simp, rule ty_right, erule p)
    qed
    have posted_str: "has_type v TString"
      if v: "v \<in> set (fsharp_history d) \<union> ({fsharp_next d} - {JNull}) \<union> payload enc ` ps" for v
    proof -
      consider "v \<in> set (fsharp_history d)" | "v = fsharp_next d" "v \<noteq> JNull" | "v \<in> payload enc ` ps" using v by blast
      then show ?thesis
      proof cases
        case 1 then show ?thesis by (rule strings(2) [THEN bspec])
      next
        case 2 then show ?thesis using strings(1) by (elim ty_unionE) simp_all
      next
        case 3 then show ?thesis by (rule p)
      qed
    qed
    show ?thesis by (intro disjI2 conjI ballI next_str [OF nx] posted_str hs)
  qed simp
  moreover have "has_type (useBlazor d') (TUnion TNull TString)" "has_type (analysis_busy d') TUndefined"
    "has_type (ocaml_next d') TNull"
    using assms m by (simp_all add: page_typed_def typed_move_def ocaml_inv_def)
  moreover have "\<forall>m \<in> set (fsharp_history d'). has_type m message_ty"
    by (intro ballI posted_ty hs)
  ultimately show ?thesis using next_ty [OF nx] unfolding page_typed_def by (intro conjI)
qed


lemma page_typed_steps:
  assumes "has_type param (TUnion TNull TString)" "dark_reach enc dec param d"
  shows "page_typed d"
  using assms(2)
proof (induction rule: dark_steps.induct)
  case start
  show ?case using assms(1) by (simp add: page_typed_def init_dark_def fsharp_history_def)
next
  case (task d t)
  have i: "fsharp_inv False d" "ocaml_inv d" using reach_inv [OF task.hyps(1)] by simp_all
  obtain ps where "typed_move enc ps d (fst (run_task enc dec t d))"
    using task_typed_move [OF i task.hyps(2)] by blast
  moreover have "ocaml_inv (fst (run_task enc dec t d))"
    using task_inv [OF i task.hyps(2), of dec enc] by simp
  ultimately show ?case using task.IH page_typed_move by blast
qed

text \<open>C10: Type soundness of the page: when use-blazor is what the search parameters give, null or a
  string, then in every reachable state next of the F# queue is null, a string or an error response,
  every message posted to the F# worker is a string or an error response, and all of them are
  strings unless a null request has been reported; and no task raises a TypeError, unless the decoder
  of an answer does.\<close>

theorem page_type_sound:
  assumes "has_type param (TUnion TNull TString)" and "dark_reach enc dec param d" and "enabled t d"
  shows "page_typed d \<and> page_typed (fst (run_task enc dec t d))
    \<and> (snd (run_task enc dec t d) \<noteq> Some TypeError \<or> (\<exists>r now rs. t = BlazorAnswer r now rs \<and> dec r = Inl TypeError))"
proof -
  have i: "fsharp_inv False d" "ocaml_inv d" using reach_inv [OF assms(2)] by simp_all
  have "\<exists>r now rs. t = BlazorAnswer r now rs \<and> dec r = Inl TypeError" if e: "snd (run_task enc dec t d) = Some TypeError"
  proof -
    obtain r now rs where t: "t = BlazorAnswer r now rs" using task_inv [OF i assms(3), of dec enc] e by auto
    then obtain c where "blazorWorker d = Some c" "in_flight c \<noteq> []" "r \<noteq> ready_message"
      using assms(3) by (auto split: option.splits)
    then show ?thesis using t e by (auto simp: blazor_answer_eq [OF i(1)] Let_def split: sum.splits)
  qed
  then show ?thesis
    using page_typed_steps [OF assms(1)] assms(2) dark_steps.task [OF assms(2,3)] by blast
qed

theorem page_type_sound_witness:
  "page_typed (run_tasks (\<lambda>_. ''{}'') Inr [BlazorInit, BlazorReady, Request JNull] (init_dark (JStr ''1'')))"
proof -
  let ?d = "run_tasks (\<lambda>_. ''{}'') Inr [BlazorInit, BlazorReady] (init_dark (JStr ''1''))"
  have r: "dark_reach (\<lambda>_. ''{}'') Inr (JStr ''1'') ?d"
    by (rule run_tasks_steps [OF dark_steps.start]) (simp add: dark_defs)
  have "has_type (JStr ''1'') (TUnion TNull TString)" by simp
  from page_type_sound [OF this r, of "Request JNull"] show ?thesis by simp
qed

end
