(* ===== verification/FSharpDecode.thy ===== *)
theory FSharpDecode
  imports AnalysisQueue JsonDecode
begin

text \<open>
  The decoder of the F# worker's answers, \<open>decodeOutput\<close> of \<open>FSharpAnalysisWrapper.ml\<close>, with the
  decoders of \<open>client/src/prelude/Json_decode_extended.ml\<close> it is made of, and what follows for the
  queue's callback. \<open>andThen\<close> and \<open>map\<close> of the JSON library are fields of \<open>result_lib\<close>.
\<close>

section \<open>Json_decode_extended.ml\<close>

definition index :: "nat \<Rightarrow> 'a dec \<Rightarrow> 'a dec" where
  "index i decode j =
     (case j of
        JArr source \<Rightarrow> decode (case nth_opt source i of None \<Rightarrow> JUndefined | Some v \<Rightarrow> v)
      | _ \<Rightarrow> Inl (DecodeError (''Expected array, got ''
          @ (case json integer_text j of None \<Rightarrow> ''undefined'' | Some t \<Rightarrow> t))))"

type_synonym fs_output = "string + jsval"

record result_lib =
  rl_andThen :: "(string \<Rightarrow> fs_output dec) \<Rightarrow> string dec \<Rightarrow> fs_output dec"
  rl_map_value :: "(jsval \<Rightarrow> fs_output) \<Rightarrow> jsval dec \<Rightarrow> fs_output dec"
  rl_map_string :: "(string \<Rightarrow> fs_output) \<Rightarrow> string dec \<Rightarrow> fs_output dec"

definition map_law :: "(('a \<Rightarrow> fs_output) \<Rightarrow> 'a dec \<Rightarrow> fs_output dec) \<Rightarrow> bool" where
  "map_law m \<longleftrightarrow> (\<forall>f d j. m f d j = map_sum id f (d j))"

definition result_lib_ok :: "result_lib \<Rightarrow> bool" where
  "result_lib_ok R \<longleftrightarrow> map_law (rl_map_value R) \<and> map_law (rl_map_string R)
     \<and> (\<forall>f d j. rl_andThen R f d j = (case d j of Inl e \<Rightarrow> Inl e | Inr s \<Rightarrow> f s j))"

definition variants :: "result_lib \<Rightarrow> string dec \<Rightarrow> (string \<times> fs_output dec) list \<Rightarrow> fs_output dec" where
  "variants R str decoders =
     rl_andThen R (\<lambda>str_constructor.
       case map_of decoders str_constructor of
         Some decode \<Rightarrow> decode
       | None \<Rightarrow> (\<lambda>_. Inl (DecodeError (''Got '' @ str_constructor @ '', expected one of ''
           @ join '', '' (map fst decoders)))))
       (index 0 str)"

definition result_decoder :: "result_lib \<Rightarrow> string dec \<Rightarrow> jsval dec \<Rightarrow> string dec \<Rightarrow> fs_output dec" where
  "result_decoder R str decoderOk decoderError =
     variants R str [(''Ok'', rl_map_value R Inr (index 1 decoderOk)),
       (''Error'', rl_map_string R Inl (index 1 decoderError))]"

text \<open>\<open>envelope\<close> is \<open>Decoders.analysisEnvelope\<close>.\<close>

definition decodeOutput :: "json_lib \<Rightarrow> result_lib \<Rightarrow> jsval dec \<Rightarrow> string \<Rightarrow> json_exn + fs_output" where
  "decodeOutput L R envelope str =
     (case lib_parseOrRaise L str of
        Inl e \<Rightarrow> Inl e
      | Inr j \<Rightarrow> result_decoder R (dec_string L) envelope (dec_string L) j)"

text \<open>As the parameter of the queue: the worker posts strings; \<open>repr\<close> is the event's detail for a
  result.\<close>

definition output_decoder :: "json_lib \<Rightarrow> result_lib \<Rightarrow> jsval dec \<Rightarrow> (fs_output \<Rightarrow> jsval) \<Rightarrow> decoder" where
  "output_decoder L R envelope repr data =
     (case data of
        JStr str \<Rightarrow> map_sum (\<lambda>_. SyntaxError) repr (decodeOutput L R envelope str)
      | _ \<Rightarrow> Inl TypeError)"

section \<open>What the decoder accepts\<close>

definition sample_result_lib :: result_lib where
  "sample_result_lib = \<lparr>rl_andThen = (\<lambda>f d j. case d j of Inl e \<Rightarrow> Inl e | Inr s \<Rightarrow> f s j),
     rl_map_value = (\<lambda>f d j. map_sum id f (d j)), rl_map_string = (\<lambda>f d j. map_sum id f (d j))\<rparr>"

lemma sample_result_lib_ok: "result_lib_ok sample_result_lib"
  by (simp add: result_lib_ok_def sample_result_lib_def map_law_def)

lemma dec_string_Inr:
  assumes "json_lib_ok L"
  shows "dec_string L j = Inr s \<longleftrightarrow> j = JStr s"
proof -
  have "string_law (dec_string L)" using assms by (simp add: json_lib_ok_def)
  from this [unfolded string_law_def, rule_format, of j] show ?thesis
    by (cases j) (auto simp: decode_fails_def)
qed

lemma map_sum_Inr: "map_sum f g x = Inr y \<longleftrightarrow> (\<exists>z. x = Inr z \<and> y = g z)"
  by (cases x) auto

definition payload_of :: "jsval list \<Rightarrow> jsval" where
  "payload_of rest = (case rest of [] \<Rightarrow> JUndefined | v # _ \<Rightarrow> v)"

lemma index_1: "index 1 d (JArr (v # rest)) = d (payload_of rest)"
  by (cases rest) (simp_all add: index_def payload_of_def)

lemma index_0_string:
  "json_lib_ok L \<Longrightarrow> index 0 (dec_string L) j = Inr s \<longleftrightarrow> (\<exists>rest. j = JArr (JStr s # rest))"
  by (auto simp: index_def dec_string_Inr nth_opt_def neq_Nil_conv split: jsval.splits option.splits if_splits)

lemma result_decoder_Inr:
  assumes "json_lib_ok L" "result_lib_ok R"
  shows "result_decoder R (dec_string L) envelope (dec_string L) j = Inr out \<longleftrightarrow>
    (\<exists>rest v. j = JArr (JStr ''Ok'' # rest) \<and> envelope (payload_of rest) = Inr v \<and> out = Inr v)
    \<or> (\<exists>m rest. j = JArr (JStr ''Error'' # JStr m # rest) \<and> out = Inl m)"
proof -
  have r: "rl_andThen R f d j = (case d j of Inl e \<Rightarrow> Inl e | Inr s \<Rightarrow> f s j)"
    "rl_map_value R g d' j = map_sum id g (d' j)" "rl_map_string R h d j = map_sum id h (d j)" for f d d' g h j
    using assms(2) by (simp_all add: result_lib_ok_def map_law_def)
  show ?thesis
  proof (cases "index 0 (dec_string L) j")
    case (Inl e)
    then have "j \<noteq> JArr (JStr s # rest)" for s rest using index_0_string [OF assms(1), of j s] by auto
    then show ?thesis using Inl by (simp add: result_decoder_def variants_def r)
  next
    case (Inr s)
    then obtain rest where j: "j = JArr (JStr s # rest)" using index_0_string [OF assms(1)] by blast
    have p: "payload_of rest = JStr m \<longleftrightarrow> (\<exists>rest'. rest = JStr m # rest')" for m
      by (cases rest) (auto simp: payload_of_def)
    consider "s = ''Ok''" | "s = ''Error''" | "s \<noteq> ''Ok''" "s \<noteq> ''Error''" by blast
    then show ?thesis
      by cases (use Inr in \<open>auto simp: result_decoder_def variants_def r j index_1 [unfolded One_nat_def]
        map_sum_Inr dec_string_Inr [OF assms(1)] p\<close>)
  qed
qed

text \<open>What the queue's callback does with an answer, in terms of the decoder.\<close>

lemma output_decoder_Inr:
  "output_decoder L R envelope repr (JStr str) = Inr v \<longleftrightarrow>
     (\<exists>out. decodeOutput L R envelope str = Inr out \<and> v = repr out)"
  by (auto simp: output_decoder_def map_sum_Inr)

lemma decodeOutput_Inr:
  assumes "json_lib_ok L" "result_lib_ok R"
  shows "decodeOutput L R envelope str = Inr out \<longleftrightarrow>
    (\<exists>rest v. lib_parseOrRaise L str = Inr (JArr (JStr ''Ok'' # rest)) \<and> envelope (payload_of rest) = Inr v \<and> out = Inr v)
    \<or> (\<exists>m rest. lib_parseOrRaise L str = Inr (JArr (JStr ''Error'' # JStr m # rest)) \<and> out = Inl m)"
  by (auto simp: decodeOutput_def result_decoder_Inr [OF assms] split: sum.split)

lemma callback_dispatches:
  assumes "dark_reach enc dec param d" "enabled (BlazorAnswer r now rs) d"
  shows "snd (blazor_answer enc dec r now rs d) = None \<longleftrightarrow> (\<exists>v. dec r = Inr v)"
    and "dec r = Inr v \<Longrightarrow>
      prefix (effects d @ [DispatchEvent ''receiveAnalysis'' v]) (effects (fst (blazor_answer enc dec r now rs d)))"
proof -
  from reach_inv [OF assms(1)] have i: "fsharp_inv False d" by simp
  from assms(2) obtain c where c: "blazorWorker d = Some c" "in_flight c \<noteq> []" "r \<noteq> ready_message"
    by (auto split: option.splits)
  show "snd (blazor_answer enc dec r now rs d) = None \<longleftrightarrow> (\<exists>v. dec r = Inr v)"
    by (simp add: blazor_answer_eq [OF i c] Let_def split: sum.split)
  show "dec r = Inr v \<Longrightarrow>
      prefix (effects d @ [DispatchEvent ''receiveAnalysis'' v]) (effects (fst (blazor_answer enc dec r now rs d)))"
    by (simp add: blazor_answer_eq [OF i c] Let_def)
qed

section \<open>Properties\<close>

text \<open>Which answers of the F# worker reach the client: the callback handles a text without an
  exception exactly if it is a JSON array of Ok and a value that the client's decoder accepts, or of
  Error and a string; any other text makes it raise, which leaves the queue busy for good. What is
  dispatched is then the decoded value, or the message as an error.\<close>

theorem fsharp_answer_shapes:
  assumes "json_lib_ok L" and "result_lib_ok R"
    and "dark_reach enc (output_decoder L R envelope repr) param d"
    and "enabled (BlazorAnswer (JStr str) now rs) d"
  shows "(snd (blazor_answer enc (output_decoder L R envelope repr) (JStr str) now rs d) = None \<longleftrightarrow>
      (\<exists>rest v. lib_parseOrRaise L str = Inr (JArr (JStr ''Ok'' # rest)) \<and> envelope (payload_of rest) = Inr v)
      \<or> (\<exists>m rest. lib_parseOrRaise L str = Inr (JArr (JStr ''Error'' # JStr m # rest))))
    \<and> (\<forall>out. decodeOutput L R envelope str = Inr out \<longrightarrow>
      prefix (effects d @ [DispatchEvent ''receiveAnalysis'' (repr out)])
        (effects (fst (blazor_answer enc (output_decoder L R envelope repr) (JStr str) now rs d))))"
  using callback_dispatches [OF assms(3,4)] unfolding output_decoder_Inr
  by (auto simp: decodeOutput_Inr [OF assms(1,2)])

theorem fsharp_answer_shapes_witness:
  "let enc = \<lambda>_. ''{}''; dec = output_decoder sample_lib sample_result_lib Inr (case_sum JStr id);
       d = run_tasks enc dec [BlazorInit, BlazorReady, Request (JNum 1)] (init_dark (JStr ''1''))
   in snd (blazor_answer enc dec (JStr ''[\"Error\",\"x\"]'') 7 [] d) = None
      \<and> snd (blazor_answer enc dec (JStr ''[\"Wrong\",1]'') 7 [] d) \<noteq> None"
proof -
  let ?enc = "(\<lambda>_. ''{}'') :: jsval \<Rightarrow> string"
  let ?dec = "output_decoder sample_lib sample_result_lib Inr (case_sum JStr id)"
  let ?d = "run_tasks ?enc ?dec [BlazorInit, BlazorReady, Request (JNum 1)] (init_dark (JStr ''1''))"
  have r: "dark_reach ?enc ?dec (JStr ''1'') ?d"
    by (rule run_tasks_steps [OF dark_steps.start]) (simp add: dark_defs)
  have e: "enabled (BlazorAnswer (JStr s) 7 []) ?d" if "JStr s \<noteq> ready_message" for s
    using that by (simp add: dark_defs new_channel_def post_def in_flight_def)
  have n: "JStr ''[\"Error\",\"x\"]'' \<noteq> ready_message" "JStr ''[\"Wrong\",1]'' \<noteq> ready_message"
    by (simp_all add: ready_message_def)
  have "lib_parseOrRaise sample_lib ''[\"Error\",\"x\"]'' = Inr (JArr [JStr ''Error'', JStr ''x''])"
    "lib_parseOrRaise sample_lib ''[\"Wrong\",1]'' = Inr (JArr [JStr ''Wrong'', JNum 1])"
    by code_simp+
  then show ?thesis
    using fsharp_answer_shapes [OF sample_lib_ok sample_result_lib_ok r e [OF n(1)]]
      fsharp_answer_shapes [OF sample_lib_ok sample_result_lib_ok r e [OF n(2)]]
    by (auto simp: Let_def)
qed

end
