(* ===== verification/FSharpSystem.thy ===== *)
theory FSharpSystem
  imports System FSharpDecode
begin

text \<open>
  The F# analysis from end to end: the page and the loader of \<open>System\<close>, the method
  \<open>EvalWorker.OnMessage\<close> of \<open>Wasm.fs\<close> that runs in the worker, and the client's decoder of its
  answers (\<open>FSharpDecode\<close>). \<open>OnMessage\<close> starts a task; tasks may finish in any order. The
  deserializer of the requests, \<open>Eval.performAnalysis\<close>, the value the serializer writes for its
  result, the text of a JSON value and the conversion of a message to a .NET string are parameters.
\<close>

section \<open>EvalWorker\<close>

text \<open>An exception is represented by its text. \<open>ev_envelope\<close> is \<open>None\<close> where the serializer raises;
  \<open>ev_marshal\<close> is \<open>None\<close> where the call of the static method raises.\<close>

record ('p, 'v) eval_env =
  ev_marshal :: "jsval \<Rightarrow> string option"
  ev_deserialize :: "string \<Rightarrow> string + 'p"
  ev_perform :: "'p \<Rightarrow> string + 'v"
  ev_envelope :: "'v \<Rightarrow> jsval option"
  ev_text :: "jsval \<Rightarrow> string"

text \<open>\<open>FSharpDuConverter.WriteJson\<close>: a case of a union is the array of its name and its fields.\<close>

definition FSharpDu_WriteJson :: "string \<Rightarrow> jsval list \<Rightarrow> jsval" where
  "FSharpDu_WriteJson case_name values = JArr (JStr case_name # values)"

definition serialize_result :: "('p, 'v) eval_env \<Rightarrow> string + 'v \<Rightarrow> string option" where
  "serialize_result E r =
     (case r of
        Inr v \<Rightarrow> map_option (\<lambda>j. ev_text E (FSharpDu_WriteJson ''Ok'' [j])) (ev_envelope E v)
      | Inl e \<Rightarrow> Some (ev_text E (FSharpDu_WriteJson ''Error'' [JStr e])))"

definition run_eval :: "('p, 'v) eval_env \<Rightarrow> string \<Rightarrow> string + 'v" where
  "run_eval E message = (case ev_deserialize E message of Inl e \<Rightarrow> Inl e | Inr args \<Rightarrow> ev_perform E args)"

text \<open>The message posted, if any, and the lines written to the console. The serialization is outside
  of the \<open>try\<close>: when it raises, the task fails and nothing is posted.\<close>

definition OnMessage :: "('p, 'v) eval_env \<Rightarrow> string \<Rightarrow> string option \<times> string list" where
  "OnMessage E message =
     (let r = run_eval E message
      in (serialize_result E r,
          (case r of Inl e \<Rightarrow> [''Error running analysis in Blazor'', e] | Inr v \<Rightarrow> [])))"

section \<open>State and steps\<close>

text \<open>What stays fixed; \<open>fs_decode\<close> is \<open>Decoders.analysisEnvelope\<close>, \<open>fs_repr\<close> the detail of the event
  for a decoded answer.\<close>

record ('p, 'v) fsharp_setup =
  fs_enc :: "jsval \<Rightarrow> string"
  fs_lib :: json_lib
  fs_result_lib :: result_lib
  fs_decode :: "jsval dec"
  fs_repr :: "fs_output \<Rightarrow> jsval"
  fs_env :: "('p, 'v) eval_env"
  fs_malloc :: allocator
  fs_appRoot :: string
  fs_heap :: "byte list"
  fs_param :: jsval

definition fs_dec :: "('p, 'v) fsharp_setup \<Rightarrow> decoder" where
  "fs_dec S = output_decoder (fs_lib S) (fs_result_lib S) (fs_decode S) (fs_repr S)"

text \<open>\<open>evaluating\<close> are the messages whose task has not finished, \<open>fs_answers\<close> the answers on their
  way to the page.\<close>

record fsharp_system =
  core :: system
  evaluating :: "string list"
  fs_answers :: "string list"
  console_lines :: "string list"

definition init_fsharp_system :: "('p, 'v) fsharp_setup \<Rightarrow> fsharp_system" where
  "init_fsharp_system S = \<lparr>core = init_system (fs_param S) (fs_heap S), evaluating = [], fs_answers = [],
     console_lines = []\<rparr>"

text \<open>\<open>self.onmessage\<close>, once it is installed, calls the handler with the data.\<close>

definition fs_receive :: "('p, 'v) fsharp_setup \<Rightarrow> fsharp_system \<Rightarrow> fsharp_system" where
  "fs_receive S s =
     (let c = deliver (core s)
      in s\<lparr>core := c, evaluating := evaluating s
             @ List.map_filter (ev_marshal (fs_env S)) (drop (length (received (core s))) (received c))\<rparr>)"

definition fs_finish :: "('p, 'v) fsharp_setup \<Rightarrow> nat \<Rightarrow> fsharp_system \<Rightarrow> fsharp_system" where
  "fs_finish S i s =
     (let (a, lines) = OnMessage (fs_env S) (evaluating s ! i)
      in s\<lparr>evaluating := take i (evaluating s) @ drop (Suc i) (evaluating s),
           fs_answers := fs_answers s @ (case a of None \<Rightarrow> [] | Some text \<Rightarrow> [text]),
           console_lines := console_lines s @ lines\<rparr>)"

definition with_page :: "(dark \<Rightarrow> dark \<times> js_exn option) \<Rightarrow> fsharp_system \<Rightarrow> fsharp_system" where
  "with_page f s = s\<lparr>core := (core s)\<lparr>page := fst (f (page (core s)))\<rparr>\<rparr>"

inductive fsharp_steps :: "('p, 'v) fsharp_setup \<Rightarrow> fsharp_system \<Rightarrow> bool" for S :: "('p, 'v) fsharp_setup" where
  fs_start: "fsharp_steps S (init_fsharp_system S)"
| fs_page: "fsharp_steps S s \<Longrightarrow> page_side t \<Longrightarrow> enabled t (page (core s)) \<Longrightarrow>
     fsharp_steps S (with_page (run_task (fs_enc S) (fs_dec S) t) s)"
| fs_worker: "fsharp_steps S s \<Longrightarrow> blazorWorker (page (core s)) \<noteq> None \<Longrightarrow> loader_enabled ev (wk (core s)) \<Longrightarrow>
     fsharp_steps S (s\<lparr>core := worker_event (fs_malloc S) (fs_appRoot S) ev (core s)\<rparr>)"
| fs_message: "fsharp_steps S s \<Longrightarrow> to_page (core s) = m # ms \<Longrightarrow>
     fsharp_steps S (with_page (blazor_onmessage (fs_enc S) (fs_dec S) m now rs)
       (s\<lparr>core := (core s)\<lparr>to_page := ms\<rparr>\<rparr>))"
| fs_deliver: "fsharp_steps S s \<Longrightarrow>
     length (received (core s)) + length (lost (core s)) < length (fsharp_history (page (core s))) \<Longrightarrow>
     fsharp_steps S (fs_receive S s)"
| fs_done: "fsharp_steps S s \<Longrightarrow> i < length (evaluating s) \<Longrightarrow> fsharp_steps S (fs_finish S i s)"
| fs_answer: "fsharp_steps S s \<Longrightarrow> fs_answers s = a # as \<Longrightarrow>
     fsharp_steps S (with_page (blazor_answer (fs_enc S) (fs_dec S) (JStr a) now rs) (s\<lparr>fs_answers := as\<rparr>))"

text \<open>Nothing is under way between the page and the worker, and no task is running.\<close>

definition quiet :: "fsharp_system \<Rightarrow> bool" where
  "quiet s \<longleftrightarrow> length (received (core s)) = length (fsharp_history (page (core s)))
     \<and> evaluating s = [] \<and> fs_answers s = []"

section \<open>The outcome of a message\<close>

text \<open>What the client is to be told for a message, \<open>None\<close> for nothing.\<close>

definition analysis_outcome :: "('p, 'v) fsharp_setup \<Rightarrow> jsval \<Rightarrow> jsval option" where
  "analysis_outcome S m =
     (case ev_marshal (fs_env S) m of
        None \<Rightarrow> None
      | Some message \<Rightarrow>
          (case run_eval (fs_env S) message of
             Inl e \<Rightarrow> Some (fs_repr S (Inl e))
           | Inr v \<Rightarrow>
               (case ev_envelope (fs_env S) v of
                  None \<Rightarrow> None
                | Some j \<Rightarrow> (case fs_decode S j of Inl e \<Rightarrow> None | Inr x \<Rightarrow> Some (fs_repr S (Inr x))))))"

text \<open>The libraries keep their documented promises: the two JSON libraries of the client, the text
  that the serializer writes (it reads back as the value), and the conversion of strings.\<close>

definition text_law :: "json_lib \<Rightarrow> ('p, 'v) eval_env \<Rightarrow> bool" where
  "text_law L E \<longleftrightarrow>
     (\<forall>e. lib_parseOrRaise L (ev_text E (JArr [JStr ''Error'', JStr e])) = Inr (JArr [JStr ''Error'', JStr e]))
     \<and> (\<forall>v j. ev_envelope E v = Some j \<longrightarrow>
          lib_parseOrRaise L (ev_text E (JArr [JStr ''Ok'', j])) = Inr (JArr [JStr ''Ok'', j]))"

definition fsharp_laws :: "('p, 'v) fsharp_setup \<Rightarrow> bool" where
  "fsharp_laws S \<longleftrightarrow> json_lib_ok (fs_lib S) \<and> result_lib_ok (fs_result_lib S) \<and> text_law (fs_lib S) (fs_env S)
     \<and> (\<forall>s. ev_marshal (fs_env S) (JStr s) = Some s)"

lemma result_decoder_ok:
  assumes "json_lib_ok L" "result_lib_ok R"
  shows "result_decoder R (dec_string L) envelope (dec_string L) (JArr [JStr ''Ok'', j])
      = map_sum id Inr (envelope j)"
    and "result_decoder R (dec_string L) envelope (dec_string L) (JArr [JStr ''Error'', JStr e]) = Inr (Inl e)"
  using assms(2) by (simp_all add: result_decoder_def variants_def result_lib_ok_def map_law_def index_def
      lib_string_value [OF assms(1)])

lemma answer_outcome:
  assumes "fsharp_laws S" "ev_marshal (fs_env S) m = Some message"
  shows "analysis_outcome S m =
    (case fst (OnMessage (fs_env S) message) of
       None \<Rightarrow> None
     | Some a \<Rightarrow> (case fs_dec S (JStr a) of Inl e \<Rightarrow> None | Inr v \<Rightarrow> Some v))"
proof -
  have l: "json_lib_ok (fs_lib S)" "result_lib_ok (fs_result_lib S)" "text_law (fs_lib S) (fs_env S)"
    using assms(1) by (simp_all add: fsharp_laws_def)
  show ?thesis
    using l(3) by (auto simp: analysis_outcome_def assms(2) OnMessage_def Let_def serialize_result_def
        FSharpDu_WriteJson_def text_law_def fs_dec_def output_decoder_def decodeOutput_def
        result_decoder_ok [OF l(1,2)] split: sum.split option.split)
qed

lemma answer_not_ready:
  assumes "fsharp_laws S" "fst (OnMessage (fs_env S) message) = Some a"
  shows "JStr a \<noteq> ready_message"
proof -
  have "parse_law (lib_parseOrRaise (fs_lib S))" "text_law (fs_lib S) (fs_env S)"
    using assms(1) by (simp_all add: fsharp_laws_def json_lib_ok_def)
  moreover have "json_parse ''darkWebWorkerInitializedMessage'' = Inl JsonSyntax" by code_simp
  ultimately obtain e where "lib_parseOrRaise (fs_lib S) ''darkWebWorkerInitializedMessage'' = Inl (ParseError e)"
    unfolding parse_law_def by blast
  moreover obtain v where "lib_parseOrRaise (fs_lib S) a = Inr v"
    using assms(2) \<open>text_law (fs_lib S) (fs_env S)\<close>
    by (auto simp: OnMessage_def Let_def serialize_result_def FSharpDu_WriteJson_def text_law_def split: sum.splits)
  ultimately show ?thesis by (auto simp: ready_message_def)
qed

section \<open>The page's side\<close>

definition fs_answered :: "dark \<Rightarrow> nat" where
  "fs_answered d = (case blazorWorker d of None \<Rightarrow> 0 | Some c \<Rightarrow> answered c)"

text \<open>What the page does between two answers: nothing to the worker, or post one message when idle.\<close>

definition page_moves :: "dark \<Rightarrow> dark \<Rightarrow> bool" where
  "page_moves d d' \<longleftrightarrow> fs_answered d' = fs_answered d
     \<and> events_named ''receiveAnalysis'' (effects d') = events_named ''receiveAnalysis'' (effects d)
     \<and> ((fsharp_history d' = fsharp_history d \<and> fsharp_busy d' = fsharp_busy d)
        \<or> (\<exists>m. \<not> fsharp_busy d \<and> fsharp_busy d' \<and> fsharp_history d' = fsharp_history d @ [m]))"

lemma enqueue_log_events [simp]: "events_named n (enqueue_log p) = []"
  by (simp add: enqueue_log_def)

lemma enqueue_logs_events [simp]: "events_named n (concat (map enqueue_log ps)) = []"
  by (induction ps) simp_all

lemma fsharp_request_moves: "page_moves d (fst (fsharp_request enc p d))"
  by (auto simp: fsharp_request_def fsharp_enqueue_eq emit_def Let_def page_moves_def fs_answered_def
      fsharp_history_def post_def split: option.split)

lemma page_moves_from:
  "page_moves d' d'' \<Longrightarrow> blazorWorker d' = blazorWorker d \<Longrightarrow> fsharp_busy d' = fsharp_busy d \<Longrightarrow>
   events_named ''receiveAnalysis'' (effects d') = events_named ''receiveAnalysis'' (effects d) \<Longrightarrow> page_moves d d''"
  by (simp add: page_moves_def fs_answered_def fsharp_history_def)

lemma page_moves_refl: "page_moves d d"
  by (simp add: page_moves_def)

lemma page_side_moves:
  assumes "fsharp_inv False d" "ocaml_inv d" "truthy (useBlazor d)" "page_side t" "enabled t d"
  shows "page_moves d (fst (run_task enc dec t d))"
proof (cases t)
  case (Request p)
  then show ?thesis using fsharp_request_moves assms(3) by (simp add: request_analysis_def)
next
  case FsharpTimer
  then obtain p rest where p: "fsharp_timers d = p # rest" using assms(5) by (cases "fsharp_timers d") auto
  show ?thesis unfolding FsharpTimer
    by (simp add: fsharp_timer_def p, rule page_moves_from [OF fsharp_request_moves]) (simp_all add: emit_def)
next
  case OcamlTimer
  then show ?thesis using assms(2,3,5) by (simp add: ocaml_inv_def)
next
  case OcamlLoaded
  show ?thesis unfolding OcamlLoaded
    by (rule page_moves_from [OF page_moves_refl]) (simp_all add: ocaml_worker_loaded_def)
next
  case BlazorInit
  then show ?thesis using assms(1,5)
    by (auto simp: initializeBlazorWorker_def blazor_initWorker_def page_moves_def fs_answered_def fsharp_history_def
        new_channel_def)
next
  case (OcamlAnswer r now rs)
  then show ?thesis using assms(2,3,5) by (auto simp: ocaml_inv_def split: option.splits)
qed (use assms(4) in auto)

section \<open>What the parts keep true together\<close>

definition under_way :: "('p, 'v) fsharp_setup \<Rightarrow> jsval \<Rightarrow> string list \<Rightarrow> string list \<Rightarrow> bool" where
  "under_way S m running out \<longleftrightarrow>
     (case ev_marshal (fs_env S) m of
        None \<Rightarrow> running = [] \<and> out = []
      | Some message \<Rightarrow> (running = [message] \<and> out = [])
          \<or> (running = [] \<and> out = (case fst (OnMessage (fs_env S) message) of None \<Rightarrow> [] | Some a \<Rightarrow> [a])))"

definition worker_inv :: "('p, 'v) fsharp_setup \<Rightarrow> fsharp_system \<Rightarrow> bool" where
  "worker_inv S s \<longleftrightarrow>
     (let k = length (received (core s)); n = fs_answered (page (core s)); ms = fsharp_history (page (core s))
      in n \<le> k \<and> (if k = n then evaluating s = [] \<and> fs_answers s = []
                  else under_way S (last ms) (evaluating s) (fs_answers s)))"

definition events_inv :: "('p, 'v) fsharp_setup \<Rightarrow> dark \<Rightarrow> bool" where
  "events_inv S d \<longleftrightarrow>
     events_named ''receiveAnalysis'' (effects d)
       = List.map_filter (analysis_outcome S) (take (fs_answered d) (fsharp_history d))
     \<and> fs_answered d \<le> length (fsharp_history d) \<and> length (fsharp_history d) \<le> Suc (fs_answered d)
     \<and> (\<forall>m \<in> set (butlast (fsharp_history d)). analysis_outcome S m \<noteq> None)
     \<and> (if fs_answered d = length (fsharp_history d)
        then (fsharp_busy d \<longleftrightarrow> fsharp_history d \<noteq> [] \<and> analysis_outcome S (last (fsharp_history d)) = None)
        else fsharp_busy d)"

lemma events_inv_moves:
  assumes i: "events_inv S d" and m: "page_moves d d'"
  shows "events_inv S d'"
proof -
  consider "fsharp_history d' = fsharp_history d" "fsharp_busy d' = fsharp_busy d"
    | m where "\<not> fsharp_busy d" "fsharp_busy d'" "fsharp_history d' = fsharp_history d @ [m]"
    using m by (auto simp: page_moves_def)
  then show ?thesis
  proof cases
    case 1
    then show ?thesis using i m by (simp add: events_inv_def page_moves_def)
  next
    case (2 m)
    then have n: "fs_answered d = length (fsharp_history d)"
      and l: "fsharp_history d = [] \<or> analysis_outcome S (last (fsharp_history d)) \<noteq> None"
      using i by (auto simp: events_inv_def split: if_splits)
    have "\<forall>m \<in> set (fsharp_history d). analysis_outcome S m \<noteq> None"
    proof (cases "fsharp_history d" rule: rev_cases)
      case (snoc xs x)
      then show ?thesis using i l by (auto simp: events_inv_def)
    qed simp
    then show ?thesis using i m n 2 by (simp add: events_inv_def page_moves_def)
  qed
qed

lemma worker_inv_moves:
  assumes i: "worker_inv S s" "events_inv S (page (core s))"
    and k: "length (received (core s)) \<le> length (fsharp_history (page (core s)))"
    and m: "page_moves (page (core s)) d"
  shows "worker_inv S (s\<lparr>core := (core s)\<lparr>page := d\<rparr>\<rparr>)"
proof -
  let ?d = "page (core s)"
  consider "fsharp_history d = fsharp_history ?d" | "\<not> fsharp_busy ?d"
    using m by (auto simp: page_moves_def)
  then show ?thesis
  proof cases
    case 1
    then show ?thesis using i m by (simp add: worker_inv_def page_moves_def Let_def)
  next
    case 2
    then have "fs_answered ?d = length (fsharp_history ?d)" using i(2) by (simp add: events_inv_def split: if_splits)
    then show ?thesis using i k m by (simp add: worker_inv_def page_moves_def Let_def split: if_splits)
  qed
qed

definition fs_sys :: "('p, 'v) fsharp_setup \<Rightarrow> system \<Rightarrow> bool" where
  "fs_sys S = sys_steps (fs_enc S) (fs_dec S) (fs_malloc S) (fs_appRoot S) (fs_heap S) (fs_param S)"

definition fs_inv :: "('p, 'v) fsharp_setup \<Rightarrow> fsharp_system \<Rightarrow> bool" where
  "fs_inv S s \<longleftrightarrow> fs_sys S (core s) \<and> worker_inv S s \<and> events_inv S (page (core s))"

lemma fs_sysD:
  assumes "fs_sys S c"
  shows "sys_inv c" "dark_reach (fs_enc S) (fs_dec S) (fs_param S) (page c)"
    "fsharp_inv False (page c)" "ocaml_inv (page c)" "useBlazor (page c) = fs_param S"
    "length (received c) \<le> length (fsharp_history (page c))"
proof -
  show i: "sys_inv c" "dark_reach (fs_enc S) (fs_dec S) (fs_param S) (page c)"
    using sys_steps_inv assms by (auto simp: fs_sys_def sys_refines_def)
  show "fsharp_inv False (page c)" "ocaml_inv (page c)" "useBlazor (page c) = fs_param S"
    using reach_inv [OF i(2)] by simp_all
  show "length (received c) \<le> length (fsharp_history (page c))"
    using i(1) unfolding sys_inv_def by (metis length_take min.cobounded1 min.commute)
qed

lemma fs_inv_start: "fs_inv S (init_fsharp_system S)"
  by (simp add: fs_inv_def fs_sys_def init_fsharp_system_def sys_start worker_inv_def events_inv_def)
    (simp add: init_system_def init_dark_def fs_answered_def fsharp_history_def List.map_filter_def)

lemma with_page_core: "core (with_page f s) = (core s)\<lparr>page := fst (f (page (core s)))\<rparr>"
  by (simp add: with_page_def)

lemma fs_inv_page:
  assumes i: "fs_inv S s" and p: "truthy (fs_param S)" and t: "page_side t" "enabled t (page (core s))"
  shows "fs_inv S (with_page (run_task (fs_enc S) (fs_dec S) t) s)"
proof -
  have s: "fs_sys S (core s)" using i by (simp add: fs_inv_def)
  note d = fs_sysD [OF s]
  let ?d = "fst (run_task (fs_enc S) (fs_dec S) t (page (core s)))"
  have m: "page_moves (page (core s)) ?d" using d p t by (intro page_side_moves) simp_all
  have "fs_sys S ((core s)\<lparr>page := ?d\<rparr>)" using sys_page s t unfolding fs_sys_def by blast
  then show ?thesis using i worker_inv_moves [of S s, OF _ _ d(6) m] events_inv_moves [of S, OF _ m]
    by (simp add: fs_inv_def with_page_def)
qed

lemma fs_inv_worker:
  assumes "fs_inv S s" "blazorWorker (page (core s)) \<noteq> None" "loader_enabled ev (wk (core s))"
  shows "fs_inv S (s\<lparr>core := worker_event (fs_malloc S) (fs_appRoot S) ev (core s)\<rparr>)"
proof -
  have "fs_sys S (worker_event (fs_malloc S) (fs_appRoot S) ev (core s))"
    using assms sys_worker unfolding fs_sys_def fs_inv_def by blast
  then show ?thesis using assms(1) by (simp add: fs_inv_def worker_inv_def worker_event_def Let_def)
qed

lemma fs_inv_message:
  assumes i: "fs_inv S s" and m: "to_page (core s) = m # ms"
  shows "fs_inv S (with_page (blazor_onmessage (fs_enc S) (fs_dec S) m now rs) (s\<lparr>core := (core s)\<lparr>to_page := ms\<rparr>\<rparr>))"
proof -
  have s: "fs_sys S (core s)" using i by (simp add: fs_inv_def)
  have r: "m = ready_message"
    using fs_sysD(1) [OF s] m by (auto simp: sys_inv_def split: if_splits)
  let ?d = "fst (blazor_onmessage (fs_enc S) (fs_dec S) m now rs (page (core s)))"
  have c: "fs_sys S ((core s)\<lparr>to_page := ms, page := ?d\<rparr>)"
    using s m sys_message unfolding fs_sys_def by blast
  have p: "page_moves (page (core s)) ?d"
    by (rule page_moves_from [OF page_moves_refl])
      (simp_all add: r blazor_onmessage_def initializedCallback_def emit_def page_moves_def fs_answered_def fsharp_history_def)
  let ?s = "s\<lparr>core := (core s)\<lparr>to_page := ms\<rparr>\<rparr>"
  have "worker_inv S ?s" "events_inv S (page (core ?s))"
    using i by (simp_all add: fs_inv_def worker_inv_def Let_def)
  then show ?thesis using c worker_inv_moves [of S ?s ?d] events_inv_moves [of S "page (core ?s)" ?d] fs_sysD(6) [OF s] p
    by (simp add: fs_inv_def with_page_def)
qed

lemma fs_inv_receive:
  assumes i: "fs_inv S s"
    and l: "length (received (core s)) + length (lost (core s)) < length (fsharp_history (page (core s)))"
  shows "fs_inv S (fs_receive S s)"
proof -
  have s: "fs_sys S (core s)" using i by (simp add: fs_inv_def)
  note d = fs_sysD [OF s]
  let ?m = "fsharp_history (page (core s)) ! length (received (core s))"
  let ?n = "fs_answered (page (core s))"
  have "fs_sys S (deliver (core s))" using s l sys_deliver unfolding fs_sys_def by blast
  then have v: "sys_inv (deliver (core s))" by (rule fs_sysD(1))
  have e: "lost (core s) = []" using d(1) by (simp add: sys_inv_def)
  then have r: "deliver (core s) = (core s)\<lparr>received := received (core s) @ [?m]\<rparr>"
    using v by (cases "onmessage_set (wk (core s))") (simp_all add: deliver_def worker_receive_def sys_inv_def)
  have k: "length (received (core s)) = ?n" "length (fsharp_history (page (core s))) = Suc ?n"
    using i l e by (auto simp: fs_inv_def events_inv_def worker_inv_def Let_def)
  then have "?m = last (fsharp_history (page (core s)))"
    by (cases "fsharp_history (page (core s))" rule: rev_cases) (simp_all add: nth_append)
  then show ?thesis using i k s \<open>fs_sys S (deliver (core s))\<close>
    by (auto simp: fs_inv_def fs_receive_def Let_def r worker_inv_def under_way_def List.map_filter_def
        split: option.split)
qed

lemma fs_inv_finish:
  assumes i: "fs_inv S s" and l: "n < length (evaluating s)"
  shows "fs_inv S (fs_finish S n s)"
proof -
  have "under_way S (last (fsharp_history (page (core s)))) (evaluating s) (fs_answers s)"
    using i l by (auto simp: fs_inv_def worker_inv_def Let_def split: if_splits)
  then obtain message where "evaluating s = [message]" "n = 0" "fs_answers s = []"
    "ev_marshal (fs_env S) (last (fsharp_history (page (core s)))) = Some message"
    using l by (auto simp: under_way_def split: option.splits)
  then show ?thesis using i
    by (auto simp: fs_inv_def fs_finish_def worker_inv_def Let_def under_way_def split: prod.split option.split if_splits)
qed

lemma fs_answered_answer:
  assumes "fsharp_inv False d" "blazorWorker d = Some c" "in_flight c \<noteq> []" "r \<noteq> ready_message"
  shows "fs_answered (fst (blazor_answer enc dec r now rs d)) = Suc (answered c)"
  by (simp add: blazor_answer_eq [OF assms] Let_def fs_answered_def answer_def post_def split: sum.split)

lemma events_invI:
  assumes "events_named ''receiveAnalysis'' (effects d) = List.map_filter (analysis_outcome S) ms"
    and "fs_answered d = length ms" and "\<forall>m \<in> set ms. analysis_outcome S m \<noteq> None"
    and "(fsharp_history d = ms \<and> \<not> fsharp_busy d) \<or> (\<exists>m. fsharp_history d = ms @ [m] \<and> fsharp_busy d)"
  shows "events_inv S d"
proof -
  have "ms = [] \<or> analysis_outcome S (last ms) \<noteq> None" using assms(3) last_in_set [of ms] by blast
  moreover have "\<forall>m \<in> set (butlast ms). analysis_outcome S m \<noteq> None" using assms(3) by (meson in_set_butlastD)
  ultimately show ?thesis using assms(4)
    by (elim disjE exE conjE) (simp_all add: events_inv_def assms(1-3))
qed

lemma answered_events_inv:
  assumes i: "events_inv S d" and v: "fsharp_inv False d" and c: "blazorWorker d = Some c" "in_flight c \<noteq> []"
    and r: "JStr a \<noteq> ready_message"
    and o: "analysis_outcome S (last (fsharp_history d)) = (case fs_dec S (JStr a) of Inl e \<Rightarrow> None | Inr v \<Rightarrow> Some v)"
    and n: "length (fsharp_history d) = Suc (fs_answered d)"
  shows "events_inv S (fst (blazor_answer (fs_enc S) (fs_dec S) (JStr a) now rs d))"
proof -
  let ?d = "fst (blazor_answer (fs_enc S) (fs_dec S) (JStr a) now rs d)"
  obtain ms x where x: "fsharp_history d = ms @ [x]" using n by (cases "fsharp_history d" rule: rev_cases) simp_all
  have l: "length ms = fs_answered d" using n x by simp
  have p: "posted c = ms @ [x]" "answered c = length ms" using c(1) x l by (simp_all add: fsharp_history_def fs_answered_def)
  have b: "fsharp_busy d" using v c by (auto simp: fsharp_inv_def split: if_splits)
  have e: "events_named ''receiveAnalysis'' (effects d) = List.map_filter (analysis_outcome S) ms"
    "\<forall>m \<in> set ms. analysis_outcome S m \<noteq> None"
    using i x l by (simp_all add: events_inv_def)
  note eq = blazor_answer_eq [OF v c r]
  show ?thesis
  proof (cases "fs_dec S (JStr a)")
    case (Inl err)
    then have "analysis_outcome S x = None" using o x by simp
    then show ?thesis using e b p Inl
      by (simp add: eq events_inv_def fs_answered_def fsharp_history_def answer_def map_filter_append)
  next
    case (Inr y)
    then have y: "analysis_outcome S x = Some y" using o x by simp
    have t: "events_named ''receiveAnalysis'' (effects ?d) = List.map_filter (analysis_outcome S) ms @ [y]"
      using e(1) Inr by (simp add: eq Let_def)
    have g: "events_named ''receiveAnalysis'' (effects ?d) = List.map_filter (analysis_outcome S) (ms @ [x])"
      unfolding t map_filter_append by (simp add: List.map_filter_def y)
    have h: "fs_answered ?d = length (ms @ [x])" using p(2) by (simp add: fs_answered_answer [OF v c r])
    have "(fsharp_history ?d = ms @ [x] \<and> \<not> fsharp_busy ?d) \<or> (\<exists>m. fsharp_history ?d = (ms @ [x]) @ [m] \<and> fsharp_busy ?d)"
      using b p(1) Inr by (simp add: eq Let_def fsharp_history_def answer_def post_def)
    moreover have "\<forall>m \<in> set (ms @ [x]). analysis_outcome S m \<noteq> None" using e(2) y by simp
    ultimately show ?thesis using g h by (intro events_invI)
  qed
qed

lemma fs_inv_answer:
  assumes w: "fsharp_laws S" and i: "fs_inv S s" and a: "fs_answers s = a # as"
  shows "fs_inv S (with_page (blazor_answer (fs_enc S) (fs_dec S) (JStr a) now rs) (s\<lparr>fs_answers := as\<rparr>))"
proof -
  have s: "fs_sys S (core s)" using i by (simp add: fs_inv_def)
  note d = fs_sysD [OF s]
  let ?p = "page (core s)" and ?ms = "fsharp_history (page (core s))"
  have u: "under_way S (last ?ms) (evaluating s) (a # as)" and k: "fs_answered ?p < length (received (core s))"
    using i a by (auto simp: fs_inv_def worker_inv_def Let_def split: if_splits)
  then obtain message where m: "ev_marshal (fs_env S) (last ?ms) = Some message"
      "fst (OnMessage (fs_env S) message) = Some a" "evaluating s = []" "as = []"
    by (auto simp: under_way_def split: option.splits)
  have n: "length ?ms = Suc (fs_answered ?p)" "length (received (core s)) = Suc (fs_answered ?p)"
    using i k d(6) by (auto simp: fs_inv_def events_inv_def)
  obtain c where c: "blazorWorker ?p = Some c" "answered c = fs_answered ?p" "posted c = ?ms"
    using n by (auto simp: fs_answered_def fsharp_history_def split: option.splits)
  have r: "JStr a \<noteq> ready_message" by (rule answer_not_ready [OF w m(2)])
  have f: "in_flight c \<noteq> []" using c n by (simp add: in_flight_def)
  have o: "analysis_outcome S (last ?ms) = (case fs_dec S (JStr a) of Inl e \<Rightarrow> None | Inr v \<Rightarrow> Some v)"
    using answer_outcome [OF w m(1)] m(2) by simp
  obtain ms' x where x: "?ms = ms' @ [x]" using n by (cases ?ms rule: rev_cases) simp_all
  have b: "fsharp_busy ?p" using d(3) c f by (auto simp: fsharp_inv_def split: if_splits)
  have "fs_sys S ((core s)\<lparr>page := fst (blazor_answer (fs_enc S) (fs_dec S) (JStr a) now rs ?p)\<rparr>)"
    using sys_answer [OF s [unfolded fs_sys_def] c(1) _ r] k c(2) by (simp add: fs_sys_def)
  moreover have "events_inv S (fst (blazor_answer (fs_enc S) (fs_dec S) (JStr a) now rs ?p))"
    using answered_events_inv [OF _ d(3) c(1) f r o n(1)] i by (simp add: fs_inv_def)
  moreover have "worker_inv S (with_page (blazor_answer (fs_enc S) (fs_dec S) (JStr a) now rs) (s\<lparr>fs_answers := as\<rparr>))"
    using n(2) m(3,4) c(2) by (simp add: worker_inv_def with_page_def fs_answered_answer [OF d(3) c(1) f r])
  ultimately show ?thesis by (simp add: fs_inv_def with_page_def)
qed

lemma fsharp_steps_inv:
  assumes "fsharp_laws S" "truthy (fs_param S)"
  shows "fsharp_steps S s \<Longrightarrow> fs_inv S s"
proof (induction rule: fsharp_steps.induct)
  case fs_start
  show ?case by (rule fs_inv_start)
qed (auto intro: fs_inv_page fs_inv_worker fs_inv_message fs_inv_receive fs_inv_finish fs_inv_answer assms)

text \<open>The three parts together keep the contract of an engine.\<close>

interpretation fse: engine "\<lambda>s. fsharp_laws S \<and> truthy (fs_param S) \<and> fsharp_steps S s"
    "\<lambda>s. fsharp_history (page (core s))" "\<lambda>s. fs_answered (page (core s))"
    "\<lambda>s. events_named ''receiveAnalysis'' (effects (page (core s)))" "analysis_outcome S"
  for S :: "('p, 'v) fsharp_setup"
  by unfold_locales (use fsharp_steps_inv [of S] in \<open>auto simp: fs_inv_def events_inv_def\<close>)

text \<open>What is missing when nothing is under way has no outcome.\<close>

lemma quiet_unanswered:
  assumes "fsharp_laws S" "fs_inv S s" "quiet s" "fs_answered (page (core s)) \<noteq> length (fsharp_history (page (core s)))"
  shows "analysis_outcome S (last (fsharp_history (page (core s)))) = None"
proof -
  have "under_way S (last (fsharp_history (page (core s)))) [] []"
    using assms(2-4) by (auto simp: fs_inv_def worker_inv_def quiet_def Let_def events_inv_def)
  then show ?thesis
    using answer_outcome [OF assms(1)] by (auto simp: under_way_def analysis_outcome_def split: option.splits)
qed

section \<open>A concrete run\<close>

text \<open>The sample engine rejects the request \<open>bad\<close>, and has no JSON for the result of \<open>nan\<close>.\<close>

definition sample_eval :: "(string, string) eval_env" where
  "sample_eval = \<lparr>ev_marshal = (\<lambda>m. case m of JStr s \<Rightarrow> Some s | _ \<Rightarrow> None),
     ev_deserialize = (\<lambda>s. if s = ''bad'' then Inl ''no JSON'' else Inr s), ev_perform = Inr,
     ev_envelope = (\<lambda>v. if v = ''nan'' then None else Some (JStr v)),
     ev_text = (\<lambda>v. case json integer_text v of None \<Rightarrow> [] | Some t \<Rightarrow> t)\<rparr>"

definition sample_fsharp_setup :: "(string, string) fsharp_setup" where
  "sample_fsharp_setup = \<lparr>fs_enc = (\<lambda>p. case p of JStr s \<Rightarrow> s | _ \<Rightarrow> ''{}''), fs_lib = sample_lib,
     fs_result_lib = sample_result_lib, fs_decode = Inr, fs_repr = case_sum (\<lambda>e. JArr [JStr e]) id,
     fs_env = sample_eval, fs_malloc = bump_malloc, fs_appRoot = ''o'', fs_heap = [1], fs_param = JStr ''1''\<rparr>"

lemma sample_text:
  "sample_parse (ev_text sample_eval (JArr [JStr c, JStr v])) = Inr (JArr [JStr c, JStr v])"
proof -
  have p: "printable (JArr [JStr c, JStr v])" by simp
  show ?thesis unfolding sample_parse_def sample_eval_def eval_env.simps printable_json [OF p]
    by (simp only: option.case json_parse_text [OF p]) simp
qed

lemma sample_fsharp_laws: "fsharp_laws sample_fsharp_setup"
proof -
  have e: "j = JStr v" if "ev_envelope sample_eval v = Some j" for v j
    using that by (simp add: sample_eval_def split: if_splits)
  have "text_law sample_lib sample_eval"
    by (auto simp: text_law_def sample_text sample_lib_def dest: e)
  then show ?thesis
    by (simp add: fsharp_laws_def sample_fsharp_setup_def sample_lib_ok sample_result_lib_ok) (simp add: sample_eval_def)
qed

datatype fsharp_event =
    FsPage dark_task | FsWorker loader_event | FsMessage | FsDeliver | FsFinish nat | FsAnswer

fun fsharp_event_enabled :: "fsharp_event \<Rightarrow> fsharp_system \<Rightarrow> bool" where
  "fsharp_event_enabled (FsPage t) s = (page_side t \<and> enabled t (page (core s)))"
| "fsharp_event_enabled (FsWorker ev) s = (blazorWorker (page (core s)) \<noteq> None \<and> loader_enabled ev (wk (core s)))"
| "fsharp_event_enabled FsMessage s = (to_page (core s) \<noteq> [])"
| "fsharp_event_enabled FsDeliver s =
     (length (received (core s)) + length (lost (core s)) < length (fsharp_history (page (core s))))"
| "fsharp_event_enabled (FsFinish i) s = (i < length (evaluating s))"
| "fsharp_event_enabled FsAnswer s = (fs_answers s \<noteq> [])"

fun fsharp_event_run :: "('p, 'v) fsharp_setup \<Rightarrow> fsharp_event \<Rightarrow> fsharp_system \<Rightarrow> fsharp_system" where
  "fsharp_event_run S (FsPage t) s = with_page (run_task (fs_enc S) (fs_dec S) t) s"
| "fsharp_event_run S (FsWorker ev) s = s\<lparr>core := worker_event (fs_malloc S) (fs_appRoot S) ev (core s)\<rparr>"
| "fsharp_event_run S FsMessage s =
     with_page (blazor_onmessage (fs_enc S) (fs_dec S) (hd (to_page (core s))) 0 [])
       (s\<lparr>core := (core s)\<lparr>to_page := tl (to_page (core s))\<rparr>\<rparr>)"
| "fsharp_event_run S FsDeliver s = fs_receive S s"
| "fsharp_event_run S (FsFinish i) s = fs_finish S i s"
| "fsharp_event_run S FsAnswer s =
     with_page (blazor_answer (fs_enc S) (fs_dec S) (JStr (hd (fs_answers s))) 0 [])
       (s\<lparr>fs_answers := tl (fs_answers s)\<rparr>)"

fun fsharp_run_ok :: "('p, 'v) fsharp_setup \<Rightarrow> fsharp_event list \<Rightarrow> fsharp_system \<Rightarrow> bool" where
  "fsharp_run_ok S [] s = True"
| "fsharp_run_ok S (e # es) s = (fsharp_event_enabled e s \<and> fsharp_run_ok S es (fsharp_event_run S e s))"

lemma fsharp_event_steps:
  "fsharp_steps S s \<Longrightarrow> fsharp_event_enabled e s \<Longrightarrow> fsharp_steps S (fsharp_event_run S e s)"
proof (induction e)
  case FsMessage
  then obtain m ms where "to_page (core s) = m # ms" by (cases "to_page (core s)") simp_all
  then show ?case using FsMessage fs_message [of S s m ms] by simp
next
  case FsAnswer
  then obtain a as where "fs_answers s = a # as" by (cases "fs_answers s") simp_all
  then show ?case using FsAnswer fs_answer [of S s a as] by simp
qed (auto intro: fsharp_steps.intros)

lemma fsharp_run_steps:
  "fsharp_steps S s \<Longrightarrow> fsharp_run_ok S es s \<Longrightarrow> fsharp_steps S (fold (fsharp_event_run S) es s)"
  by (induction es arbitrary: s) (auto intro: fsharp_event_steps)

text \<open>The worker loads while a request waits on its timer; the first analysis fails, two more are
  requested meanwhile, of which the newer one runs.\<close>

definition bare_boot :: jsval where
  "bare_boot = JObj [(''resources'', JObj [(''runtime'', JObj [(''dotnet.js'', JNull)]), (''assembly'', JObj [])])]"

definition sample_fsharp_events :: "fsharp_event list" where
  "sample_fsharp_events = [FsPage BlazorInit, FsPage (Request (JStr ''bad'')), FsWorker (BootLoaded (XhrLoad 200 bare_boot) True),
     FsWorker PreRun, FsWorker (PostRun True), FsMessage, FsPage FsharpTimer, FsDeliver, FsPage (Request (JStr ''x'')),
     FsPage (Request (JStr ''y'')), FsFinish 0, FsAnswer, FsDeliver, FsFinish 0, FsAnswer]"

definition sample_fsharp :: fsharp_system where
  "sample_fsharp = fold (fsharp_event_run sample_fsharp_setup) sample_fsharp_events (init_fsharp_system sample_fsharp_setup)"

lemma sample_fsharp_ok:
  "fsharp_run_ok sample_fsharp_setup sample_fsharp_events (init_fsharp_system sample_fsharp_setup)"
  by code_simp

lemma sample_fsharp_steps: "fsharp_steps sample_fsharp_setup sample_fsharp"
  unfolding sample_fsharp_def by (rule fsharp_run_steps [OF fs_start sample_fsharp_ok])

lemma sample_fsharp_computed:
  "fs_answered (page (core sample_fsharp)) = 2" "quiet sample_fsharp"
  "fsharp_history (page (core sample_fsharp)) = [JStr ''bad'', JStr ''y'']"
  by code_simp+

lemma sample_outcomes:
  "analysis_outcome sample_fsharp_setup (JStr ''bad'') = Some (JArr [JStr ''no JSON''])"
  "analysis_outcome sample_fsharp_setup (JStr ''y'') = Some (JStr ''y'')"
  "analysis_outcome sample_fsharp_setup (JStr ''nan'') = None"
  by (simp_all add: analysis_outcome_def sample_fsharp_setup_def sample_eval_def run_eval_def)

section \<open>Properties\<close>

text \<open>C8: From end to end the F# engine answers in order: in every state of the page, the loader and
  the evaluating worker, whatever the interleaving, the receiveAnalysis events the client has seen
  are exactly the outcomes of the messages answered so far, in the order in which they were posted:
  the decoded result, or the text of the exception of the deserializer or of the engine. At most one
  message is unanswered, and all but the last have an outcome.\<close>

theorem fsharp_events_in_order:
  assumes "fsharp_laws S" and "truthy (fs_param S)" and "fsharp_steps S s"
  shows "events_named ''receiveAnalysis'' (effects (page (core s)))
      = List.map_filter (analysis_outcome S) (take (fs_answered (page (core s))) (fsharp_history (page (core s))))
    \<and> length (fsharp_history (page (core s))) \<le> Suc (fs_answered (page (core s)))
    \<and> None \<notin> analysis_outcome S ` set (butlast (fsharp_history (page (core s))))"
  using fse.seen_outcomes [of S s] fsharp_steps_inv [OF assms] assms by (auto simp: fs_inv_def events_inv_def)

theorem fsharp_events_in_order_witness:
  "events_named ''receiveAnalysis'' (effects (page (core sample_fsharp))) = [JArr [JStr ''no JSON''], JStr ''y'']"
proof -
  have "truthy (fs_param sample_fsharp_setup)" by (simp add: sample_fsharp_setup_def)
  from fsharp_events_in_order [OF sample_fsharp_laws this sample_fsharp_steps] show ?thesis
    by (simp add: sample_fsharp_computed sample_outcomes List.map_filter_def)
qed

text \<open>C9: When the F# engine stops: once nothing is under way and no task runs, the queue is busy
  exactly if the last message has no outcome, that is, the method could not be called with it, its
  result could not be serialized or the client could not decode it; no later request is then posted.
  Otherwise nothing waits and the client has seen the outcome of every message.\<close>

theorem fsharp_stuck_iff:
  assumes "fsharp_laws S" and "truthy (fs_param S)" and "fsharp_steps S s" and "quiet s"
  shows "(fsharp_busy (page (core s)) \<longleftrightarrow> fsharp_history (page (core s)) \<noteq> []
        \<and> analysis_outcome S (last (fsharp_history (page (core s)))) = None)
    \<and> (fsharp_busy (page (core s)) \<or> fsharp_next (page (core s)) = JNull
        \<and> map Some (events_named ''receiveAnalysis'' (effects (page (core s))))
            = map (analysis_outcome S) (fsharp_history (page (core s))))"
proof -
  let ?d = "page (core s)"
  have i: "fs_sys S (core s)" "worker_inv S s" "events_inv S ?d"
    using fsharp_steps_inv [OF assms(1-3)] by (simp_all add: fs_inv_def)
  have f: "fsharp_inv False ?d" by (rule fs_sysD(3) [OF i(1)])
  show ?thesis
  proof (cases "fs_answered ?d = length (fsharp_history ?d)")
    case True
    have b: "fsharp_busy ?d \<longleftrightarrow> fsharp_history ?d \<noteq> [] \<and> analysis_outcome S (last (fsharp_history ?d)) = None"
      using i(3) True by (simp add: events_inv_def)
    have "fsharp_next ?d = JNull" if "\<not> fsharp_busy ?d"
      using f that by (auto simp: fsharp_inv_def split: option.splits if_splits)
    moreover have "\<forall>m \<in> set (fsharp_history ?d). analysis_outcome S m \<noteq> None" if "\<not> fsharp_busy ?d"
      using i(3) b that by (cases "fsharp_history ?d" rule: rev_cases) (auto simp: events_inv_def)
    ultimately show ?thesis using b fse.all_seen [of S s] True assms(1-3) by (cases "fsharp_busy ?d") simp_all
  next
    case False
    then have n: "fs_answered ?d < length (fsharp_history ?d)" using i(3) by (auto simp: events_inv_def)
    have "analysis_outcome S (last (fsharp_history ?d)) = None"
      using False by (rule quiet_unanswered [OF assms(1) fsharp_steps_inv [OF assms(1-3)] assms(4)])
    then show ?thesis using i(3) n by (auto simp: events_inv_def)
  qed
qed

theorem fsharp_stuck_iff_witness:
  "\<not> fsharp_busy (page (core sample_fsharp)) \<and> fsharp_next (page (core sample_fsharp)) = JNull"
proof -
  have "truthy (fs_param sample_fsharp_setup)" by (simp add: sample_fsharp_setup_def)
  from fsharp_stuck_iff [OF sample_fsharp_laws this sample_fsharp_steps sample_fsharp_computed(2)] show ?thesis
    by (auto simp: sample_fsharp_computed sample_outcomes)
qed

end
