(* ===== verification/ClientTraces.thy ===== *)
theory ClientTraces
  imports FetcherQueue "HOL-Library.Sublist"
begin

text \<open>
  The client's side of the trace fetcher and of the analyses: \<open>client/src/analysis/Analysis.ml\<close> (the
  traces of the model, their merging, which trace is selected, what is fetched and analysed),
  \<open>Sync.ml\<close> (one request at a time for a key) and the handlers of \<open>Main.ml\<close> for \<open>NewTracePush\<close>,
  \<open>ReceiveFetch\<close> on traces, \<open>UpdateTraces\<close>, \<open>OverrideTraces\<close> and \<open>SetTLTraceID\<close>. Of the model only
  the fields these read or write are kept; a command is what it will call. Values of the language are
  of the type \<open>'v\<close>.
\<close>

section \<open>Traces\<close>

datatype trace_error = NoneYet | MaximumCallStackError

record 'v function_result =
  fr_fnName :: string
  fr_callerID :: string
  fr_argHash :: string
  fr_argHashVersion :: int
  fr_value :: 'v

record 'v trace_data =
  td_input :: "(string \<times> 'v) list"
  td_timestamp :: string
  td_functionResults :: "'v function_result list"

type_synonym 'v trace = "string \<times> (trace_error + 'v trace_data)"

type_synonym 'v traces = "string \<rightharpoonup> 'v trace list"

abbreviation trace_ids :: "'v trace list \<Rightarrow> string list" where
  "trace_ids \<equiv> map fst"

section \<open>mergeTraces\<close>

definition maxTracesPerHandler :: nat where
  "maxTracesPerHandler = 10 + 1"

text \<open>Pass 1, for one new trace.\<close>

definition merge_one ::
  "('v trace \<Rightarrow> 'v trace \<Rightarrow> 'v trace) \<Rightarrow> 'v trace \<Rightarrow> 'v trace list \<Rightarrow> 'v trace list" where
  "merge_one onConflict new acc =
     (let found = list_ex (\<lambda>old. fst old = fst new) acc;
          updated = map (\<lambda>old. if fst old = fst new then onConflict old new else old) acc
      in if found then updated else new # acc)"

text \<open>Pass 2, for one trace of the merged list.\<close>

definition preserve_one ::
  "string option \<Rightarrow> 'v trace list \<times> nat \<Rightarrow> 'v trace \<Rightarrow> 'v trace list \<times> nat" where
  "preserve_one selectedTraceID st currTrace =
     (case st of (acc, nonSelectedCount) \<Rightarrow>
        if selectedTraceID = Some (fst currTrace) then (currTrace # acc, nonSelectedCount)
        else if nonSelectedCount < maxTracesPerHandler - 1 then (currTrace # acc, nonSelectedCount + 1)
        else (acc, nonSelectedCount))"

definition merge_handler ::
  "string option \<Rightarrow> ('v trace \<Rightarrow> 'v trace \<Rightarrow> 'v trace) \<Rightarrow> 'v trace list \<Rightarrow> 'v trace list \<Rightarrow> 'v trace list" where
  "merge_handler selectedTraceID onConflict ol nl =
     (let merged = foldr (merge_one onConflict) nl ol;
          (preserved, _) = foldl (preserve_one selectedTraceID) ([], 0) merged
      in rev preserved)"

definition mergeTraces ::
  "(string \<rightharpoonup> string) \<Rightarrow> ('v trace \<Rightarrow> 'v trace \<Rightarrow> 'v trace) \<Rightarrow> 'v traces \<Rightarrow> 'v traces \<Rightarrow> 'v traces" where
  "mergeTraces selectedTraceIDs onConflict oldTraces newTraces =
     (\<lambda>tlid. case (oldTraces tlid, newTraces tlid) of
        (None, None) \<Rightarrow> None
      | (Some ol, None) \<Rightarrow> Some ol
      | (None, Some nl) \<Rightarrow> Some nl
      | (Some ol, Some nl) \<Rightarrow> Some (merge_handler (selectedTraceIDs tlid) onConflict ol nl))"

section \<open>What merging does\<close>

text \<open>The specification, after the comment of \<open>mergeTraces\<close>: new traces first, in their order, then the old
  ones, a shared one in its old place.\<close>

definition merged_spec ::
  "('v trace \<Rightarrow> 'v trace \<Rightarrow> 'v trace) \<Rightarrow> 'v trace list \<Rightarrow> 'v trace list \<Rightarrow> 'v trace list" where
  "merged_spec onConflict ol nl =
     filter (\<lambda>t. fst t \<notin> set (trace_ids ol)) nl
     @ map (\<lambda>old. case map_of nl (fst old) of None \<Rightarrow> old | Some d \<Rightarrow> onConflict old (fst old, d)) ol"

text \<open>The selected traces and the first \<open>k\<close> others.\<close>

fun keep_traces :: "string option \<Rightarrow> nat \<Rightarrow> 'v trace list \<Rightarrow> 'v trace list" where
  "keep_traces sel k [] = []"
| "keep_traces sel k (t # ts) =
     (if sel = Some (fst t) then t # keep_traces sel k ts
      else if 0 < k then t # keep_traces sel (k - 1) ts else keep_traces sel k ts)"

lemma preserve_eq:
  assumes "n \<le> 10"
  shows "rev (fst (foldl (preserve_one sel) (acc, n) ts)) = rev acc @ keep_traces sel (10 - n) ts"
  using assms
proof (induction ts arbitrary: acc n)
  case (Cons t ts)
  have p: "preserve_one sel (acc, n) t =
      (if sel = Some (fst t) then (t # acc, n) else if n < 10 then (t # acc, n + 1) else (acc, n))"
    by (simp add: preserve_one_def maxTracesPerHandler_def)
  show ?case
    using Cons.IH [of n "t # acc"] Cons.IH [of "n + 1" "t # acc"] Cons.IH [of n acc] Cons.prems
    unfolding foldl_Cons p by (cases "sel = Some (fst t)"; cases "n < 10") simp_all
qed simp

lemma merge_handler_keep:
  "merge_handler sel f ol nl = keep_traces sel 10 (foldr (merge_one f) nl ol)"
  using preserve_eq [of 0 sel "[]" "foldr (merge_one f) nl ol"]
  by (simp add: merge_handler_def case_prod_beta)

lemma merge_found: "list_ex (\<lambda>old. fst old = fst t) acc \<longleftrightarrow> fst t \<in> set (trace_ids acc)"
  by (induction acc) auto

text \<open>The contract of \<open>onConflict\<close>: it keeps the id of the two traces.\<close>

locale merge_policy =
  fixes f :: "'v trace \<Rightarrow> 'v trace \<Rightarrow> 'v trace"
  assumes same_id: "fst old = fst new \<Longrightarrow> fst (f old new) = fst old"
begin

lemma merge_one_ids:
  "trace_ids (merge_one f t acc)
     = (if fst t \<in> set (trace_ids acc) then trace_ids acc else fst t # trace_ids acc)"
proof -
  have "(fst \<circ> (\<lambda>old. if fst old = fst t then f old t else old)) = fst"
    by (rule ext) (simp add: same_id)
  then show ?thesis by (simp add: merge_one_def Let_def merge_found del: set_map)
qed

lemma merged_ids:
  shows "set (trace_ids (foldr (merge_one f) nl ol)) = set (trace_ids nl) \<union> set (trace_ids ol)"
    and "distinct (trace_ids ol) \<Longrightarrow> distinct (trace_ids (foldr (merge_one f) nl ol))"
  by (induction nl) (auto simp: merge_one_ids simp del: set_map)

lemma merge_pass1:
  assumes "distinct (trace_ids nl)"
  shows "foldr (merge_one f) nl ol = merged_spec f ol nl"
  using assms
proof (induction nl)
  case Nil
  show ?case by (simp add: merged_spec_def)
next
  case (Cons t nl)
  have n: "map_of nl (fst t) = None" using Cons.prems by (simp add: map_of_eq_None_iff)
  have f: "fst t \<notin> set (trace_ids (filter (\<lambda>t. fst t \<notin> set (trace_ids ol)) nl))" using Cons.prems by auto
  have c: "fst (case map_of nl (fst old) of None \<Rightarrow> old | Some d \<Rightarrow> f old (fst old, d)) = fst old" for old
    by (simp add: same_id split: option.split)
  have ids: "trace_ids (merged_spec f ol nl) = trace_ids (filter (\<lambda>t. fst t \<notin> set (trace_ids ol)) nl) @ trace_ids ol"
    by (simp add: merged_spec_def c)
  have e: "foldr (merge_one f) (t # nl) ol = merge_one f t (merged_spec f ol nl)" using Cons by simp
  show ?case
  proof (cases "fst t \<in> set (trace_ids ol)")
    case False
    then have "fst t \<notin> set (trace_ids (merged_spec f ol nl))" using f unfolding ids by simp
    then have "merge_one f t (merged_spec f ol nl) = t # merged_spec f ol nl"
      by (simp add: merge_one_def Let_def merge_found del: set_map)
    moreover have "map_of (t # nl) (fst old) = map_of nl (fst old)" if "old \<in> set ol" for old
      using False that by (cases t) force
    ultimately show ?thesis using False unfolding e
      by (simp add: merged_spec_def cong: map_cong)
  next
    case True
    then have "list_ex (\<lambda>old. fst old = fst t) (merged_spec f ol nl)"
      unfolding merge_found ids set_append by blast
    moreover have "map (\<lambda>old. if fst old = fst t then f old t else old) (filter (\<lambda>t. fst t \<notin> set (trace_ids ol)) nl)
        = filter (\<lambda>t. fst t \<notin> set (trace_ids ol)) nl"
    proof (rule map_idI)
      fix x assume "x \<in> set (filter (\<lambda>t. fst t \<notin> set (trace_ids ol)) nl)"
      then have "fst x \<in> set (trace_ids (filter (\<lambda>t. fst t \<notin> set (trace_ids ol)) nl))"
        unfolding set_map by (rule imageI)
      then have "fst x \<noteq> fst t" using f by metis
      then show "(if fst x = fst t then f x t else x) = x" by simp
    qed
    moreover have "(if fst old = fst t then f (case map_of nl (fst old) of None \<Rightarrow> old | Some d \<Rightarrow> f old (fst old, d)) t
        else (case map_of nl (fst old) of None \<Rightarrow> old | Some d \<Rightarrow> f old (fst old, d)))
        = (case map_of (t # nl) (fst old) of None \<Rightarrow> old | Some d \<Rightarrow> f old (fst old, d))" for old
      using n by (cases t) auto
    ultimately show ?thesis using True unfolding e
      by (simp add: merge_one_def merged_spec_def c cong: if_cong)
  qed
qed

end

text \<open>What the second pass keeps.\<close>

lemma keep_traces_sub: "subseq (keep_traces sel k ts) ts"
  by (induction sel k ts rule: keep_traces.induct) auto

lemma keep_traces_selected:
  "filter (\<lambda>t. sel = Some (fst t)) (keep_traces sel k ts) = filter (\<lambda>t. sel = Some (fst t)) ts"
  by (induction sel k ts rule: keep_traces.induct) auto

lemma keep_traces_others:
  "filter (\<lambda>t. sel \<noteq> Some (fst t)) (keep_traces sel k ts) = take k (filter (\<lambda>t. sel \<noteq> Some (fst t)) ts)"
  by (induction sel k ts rule: keep_traces.induct) (auto simp: take_Cons')

lemma distinct_selected: "distinct (trace_ids ts) \<Longrightarrow> length (filter (\<lambda>t. sel = Some (fst t)) ts) \<le> 1"
proof (induction ts)
  case (Cons t ts)
  then have "filter (\<lambda>u. sel = Some (fst u)) ts = []" if "sel = Some (fst t)"
    using that by (auto simp: filter_empty_conv)
  then show ?case using Cons by auto
qed simp

lemma keep_traces_length:
  assumes "distinct (trace_ids ts)"
  shows "length (keep_traces sel k ts) \<le> Suc k"
proof -
  have "length (keep_traces sel k ts) = length (filter (\<lambda>t. sel = Some (fst t)) (keep_traces sel k ts))
      + length (filter (\<lambda>t. sel \<noteq> Some (fst t)) (keep_traces sel k ts))"
    by (rule sum_length_filter_compl [symmetric])
  then show ?thesis unfolding keep_traces_selected keep_traces_others
    using distinct_selected [OF assms, of sel] by simp
qed

section \<open>The model\<close>

datatype tl_kind = TLHandler | TLFunc | TLPmFunc | TLDB | TLTipe

record 'v client =
  traces :: "'v traces"
  tlTraceIDs :: "string \<rightharpoonup> string"
  syncState :: "string set"
  focused :: "string option"
  toplevels :: "string \<rightharpoonup> tl_kind"

record trace_params =
  gtdrpTlid :: string
  gtdrpTraceID :: string

datatype 'v command =
    Fetch "trace_params fetch_request"
  | SendAnalysis tl_kind string string "'v trace_data"
  | DisplayError string string string
  | ApiError string

text \<open>\<open>default_id\<close> is the name-based UUID of \<open>defaultTraceIDForTL\<close>.\<close>

definition getTraces :: "(string \<Rightarrow> string) \<Rightarrow> 'v client \<Rightarrow> string \<Rightarrow> 'v trace list" where
  "getTraces default_id m tlid =
     (case traces m tlid of None \<Rightarrow> [(default_id tlid, Inl NoneYet)] | Some ts \<Rightarrow> ts)"

definition getTrace :: "(string \<Rightarrow> string) \<Rightarrow> 'v client \<Rightarrow> string \<Rightarrow> string \<Rightarrow> 'v trace option" where
  "getTrace default_id m tlid traceID = List.find (\<lambda>t. fst t = traceID) (getTraces default_id m tlid)"

definition selectedTraceID :: "(string \<rightharpoonup> string) \<Rightarrow> 'v trace list \<Rightarrow> string \<Rightarrow> string option" where
  "selectedTraceID tlIDs ts tlid =
     (case tlIDs tlid of Some c \<Rightarrow> Some c | None \<Rightarrow> (case ts of [] \<Rightarrow> None | t # _ \<Rightarrow> Some (fst t)))"

definition getSelectedTraceID :: "(string \<Rightarrow> string) \<Rightarrow> 'v client \<Rightarrow> string \<Rightarrow> string option" where
  "getSelectedTraceID default_id m tlid = selectedTraceID (tlTraceIDs m) (getTraces default_id m tlid) tlid"

definition setSelectedTraceID :: "'v client \<Rightarrow> string \<Rightarrow> string \<Rightarrow> 'v client" where
  "setSelectedTraceID m tlid traceID = m\<lparr>tlTraceIDs := (tlTraceIDs m)(tlid \<mapsto> traceID)\<rparr>"

section \<open>Sync\<close>

definition markRequestInModel :: "string \<Rightarrow> 'v client \<Rightarrow> 'v client" where
  "markRequestInModel key m = m\<lparr>syncState := insert key (syncState m)\<rparr>"

definition markResponseInModel :: "string \<Rightarrow> 'v client \<Rightarrow> 'v client" where
  "markResponseInModel key m = m\<lparr>syncState := syncState m - {key}\<rparr>"

definition inFlight :: "string \<Rightarrow> 'v client \<Rightarrow> bool" where
  "inFlight key m \<longleftrightarrow> key \<in> syncState m"

definition attempt :: "bool \<Rightarrow> string \<Rightarrow> 'v client \<Rightarrow> 'v command list \<Rightarrow> 'v client \<times> 'v command list" where
  "attempt force key m cmd = (if inFlight key m \<and> \<not> force then (m, []) else (markRequestInModel key m, cmd))"

section \<open>Fetching and analysing\<close>

definition trace_key :: "string \<Rightarrow> string" where
  "trace_key traceID = ''tracefetch-'' @ traceID"

definition requestTrace :: "bool \<Rightarrow> 'v client \<Rightarrow> string \<Rightarrow> string \<Rightarrow> 'v client \<times> 'v command list" where
  "requestTrace force m tlid traceID =
     (let should = (case toplevels m tlid of None \<Rightarrow> False | Some kind \<Rightarrow> \<not> (kind = TLDB \<or> kind = TLTipe))
      in if should
         then attempt force (trace_key traceID) m
                [Fetch (TraceFetch \<lparr>gtdrpTlid = tlid, gtdrpTraceID = traceID\<rparr>)]
         else (m, []))"

definition requestAnalysis :: "(string \<Rightarrow> string) \<Rightarrow> 'v client \<Rightarrow> string \<Rightarrow> string \<Rightarrow> 'v command list" where
  "requestAnalysis default_id m tlid traceID =
     (case (toplevels m tlid, getTrace default_id m tlid traceID) of
        (Some TLHandler, Some (_, Inr traceData)) \<Rightarrow> [SendAnalysis TLHandler tlid traceID traceData]
      | (Some TLFunc, Some (_, Inr traceData)) \<Rightarrow> [SendAnalysis TLFunc tlid traceID traceData]
      | _ \<Rightarrow> [])"

definition update_conflict :: "'v trace \<Rightarrow> 'v trace \<Rightarrow> 'v trace" where
  "update_conflict old new =
     (if \<not> isl (snd new) \<or> (isl (snd old) \<and> snd old \<noteq> snd new) then new else old)"

definition updateTraces :: "'v client \<Rightarrow> 'v traces \<Rightarrow> 'v client" where
  "updateTraces m ts = m\<lparr>traces := mergeTraces (tlTraceIDs m) update_conflict (traces m) ts\<rparr>"

definition override_conflict :: "'v trace \<Rightarrow> 'v trace \<Rightarrow> 'v trace" where
  "override_conflict old new = (fst new, Inl NoneYet)"

definition overrideTraces :: "'v client \<Rightarrow> 'v traces \<Rightarrow> 'v client" where
  "overrideTraces m ts = m\<lparr>traces := mergeTraces (tlTraceIDs m) override_conflict (traces m) ts\<rparr>"

text \<open>A toplevel without traces gets one with the result; the map adds the result to every trace of this
  id, to the new one too.\<close>

definition replaceFunctionResult ::
  "string \<Rightarrow> string \<Rightarrow> 'v function_result \<Rightarrow> 'v client \<Rightarrow> 'v client" where
  "replaceFunctionResult tlid traceID newResult m =
     m\<lparr>traces := (traces m)(tlid \<mapsto>
       map (\<lambda>t. if fst t = traceID
               then (traceID, map_sum id (\<lambda>tdata. tdata\<lparr>td_functionResults := newResult # td_functionResults tdata\<rparr>) (snd t))
               else t)
         (case traces m tlid of
            None \<Rightarrow> [(traceID, Inr \<lparr>td_input = [], td_timestamp = [], td_functionResults = [newResult]\<rparr>)]
          | Some ml \<Rightarrow> ml))\<rparr>"

definition analyzeFocused :: "(string \<Rightarrow> string) \<Rightarrow> 'v client \<Rightarrow> 'v client \<times> 'v command list" where
  "analyzeFocused default_id m =
     (case focused m of
        None \<Rightarrow> (m, [])
      | Some tlid \<Rightarrow>
          (let trace = (case getSelectedTraceID default_id m tlid of
                 None \<Rightarrow> None
               | Some traceID \<Rightarrow> (case getTrace default_id m tlid traceID of
                     None \<Rightarrow> Some (traceID, Inl NoneYet) | Some t \<Rightarrow> Some t))
           in case trace of
                Some (_, Inl MaximumCallStackError) \<Rightarrow> (m, [])
              | Some (traceID, Inl NoneYet) \<Rightarrow> requestTrace False m tlid traceID
              | Some (traceID, Inr _) \<Rightarrow> (m, requestAnalysis default_id m tlid traceID)
              | None \<Rightarrow> (m, [])))"

section \<open>The handlers of Main.ml\<close>

definition UpdateTraces :: "(string \<Rightarrow> string) \<Rightarrow> 'v traces \<Rightarrow> 'v client \<Rightarrow> 'v client \<times> 'v command list" where
  "UpdateTraces default_id ts m = analyzeFocused default_id (updateTraces m ts)"

definition OverrideTraces :: "(string \<Rightarrow> string) \<Rightarrow> 'v traces \<Rightarrow> 'v client \<Rightarrow> 'v client \<times> 'v command list" where
  "OverrideTraces default_id ts m = analyzeFocused default_id (overrideTraces m ts)"

definition SetTLTraceID ::
  "(string \<Rightarrow> string) \<Rightarrow> string \<Rightarrow> string \<Rightarrow> 'v client \<Rightarrow> 'v client \<times> 'v command list" where
  "SetTLTraceID default_id tlid traceID m = analyzeFocused default_id (setSelectedTraceID m tlid traceID)"

definition UpdateTraceFunctionResult :: "(string \<Rightarrow> string) \<Rightarrow> string \<Rightarrow> string \<Rightarrow> 'v function_result
    \<Rightarrow> 'v client \<Rightarrow> 'v client \<times> 'v command list" where
  "UpdateTraceFunctionResult default_id tlid traceID newResult m =
     (let (m1, afCmd) = analyzeFocused default_id (replaceFunctionResult tlid traceID newResult m);
          reExeCmd = requestAnalysis default_id m1 tlid traceID
      in (m1, afCmd @ reExeCmd))"

definition NewTracePush ::
  "(string \<Rightarrow> string) \<Rightarrow> string \<Rightarrow> string list \<Rightarrow> 'v client \<Rightarrow> 'v client \<times> 'v command list" where
  "NewTracePush default_id traceID tlids =
     UpdateTraces default_id (map_of (map (\<lambda>tlid. (tlid, [(traceID, Inl NoneYet)])) tlids))"

text \<open>The cases of \<open>ExecuteFunctionAPICallback\<close> and \<open>TriggerHandlerAPICallback\<close> on the traces that have changed.\<close>

definition ChangedTraces ::
  "(string \<Rightarrow> string) \<Rightarrow> string \<Rightarrow> string list \<Rightarrow> 'v client \<Rightarrow> 'v client \<times> 'v command list" where
  "ChangedTraces default_id traceID tlids =
     OverrideTraces default_id (map_of (map (\<lambda>tlid. (tlid, [(traceID, Inl NoneYet)])) tlids))"

text \<open>\<open>FetchAllTracesAPICallback\<close>: the server's pairs of a toplevel and a trace, grouped.\<close>

definition group_traces :: "(string \<times> string) list \<Rightarrow> 'v traces" where
  "group_traces =
     foldl (\<lambda>dict (tlid, traceid).
       let trace = (traceid, Inl NoneYet)
       in dict(tlid \<mapsto> (case dict tlid of Some existing \<Rightarrow> existing @ [trace] | None \<Rightarrow> [trace]))) (\<lambda>_. None)"

definition FetchAllTracesAPICallback ::
  "(string \<Rightarrow> string) \<Rightarrow> (string \<times> string) list \<Rightarrow> 'v client \<Rightarrow> 'v client \<times> 'v command list" where
  "FetchAllTracesAPICallback default_id x = UpdateTraces default_id (group_traces x)"

text \<open>\<open>CreateHandlerFrom404\<close>: the new handler gets the traces of all the 404s of its route, the last one first and
  selected. The modifications that follow, of the program and of the cursor, are a \<open>Refocus\<close> of their
  own.\<close>

record fourOhFour =
  fof_space :: string
  fof_path :: string
  fof_modifier :: string
  fof_timestamp :: string
  fof_traceID :: string

definition traces_of_404s :: "fourOhFour \<Rightarrow> fourOhFour list \<Rightarrow> 'v trace list" where
  "traces_of_404s fof f404s =
     foldl (\<lambda>acc search.
       if fof_space search = fof_space fof \<and> fof_path search = fof_path fof \<and> fof_modifier search = fof_modifier fof
       then (fof_traceID search, Inl NoneYet) # acc else acc) [] f404s"

definition CreateHandlerFrom404 ::
  "(string \<Rightarrow> string) \<Rightarrow> string \<Rightarrow> fourOhFour \<Rightarrow> fourOhFour list \<Rightarrow> 'v client \<Rightarrow> 'v client \<times> 'v command list" where
  "CreateHandlerFrom404 default_id tlid fof f404s m =
     (case traces_of_404s fof f404s of
        [] \<Rightarrow> (m, [])
      | t # ts \<Rightarrow>
          (let (m1, c1) = UpdateTraces default_id [tlid \<mapsto> t # ts] m;
               (m2, c2) = SetTLTraceID default_id tlid (fst t) m1
           in (m2, c1 @ c2)))"

text \<open>\<open>Page.updatePossibleTrace\<close>, for a page of a toplevel with a trace.\<close>

definition updatePossibleTrace ::
  "(string \<Rightarrow> string) \<Rightarrow> string \<Rightarrow> string \<Rightarrow> 'v client \<Rightarrow> 'v client \<times> 'v command list" where
  "updatePossibleTrace default_id tlid tid m =
     analyzeFocused default_id
       (setSelectedTraceID (updateTraces m [tlid \<mapsto> [(tid, Inl NoneYet)]]) tlid tid)"

definition too_large :: string where
  "too_large = ''Selected trace too large for the editor to load, maybe try another?''"

text \<open>The cases of \<open>ReceiveFetch\<close> on traces; those on statistics write no field of this model but their own
  sync keys.\<close>

datatype 'v trace_result =
    TraceSuccess trace_params "'v trace"
  | TraceFailure trace_params string string
  | TraceMissing trace_params

fun as_trace_result :: "(trace_params, 'v trace) fetch_result \<Rightarrow> 'v trace_result option" where
  "as_trace_result (TraceFetchSuccess params result) = Some (TraceSuccess params result)"
| "as_trace_result (TraceFetchFailure params url error) = Some (TraceFailure params url error)"
| "as_trace_result (TraceFetchMissing params) = Some (TraceMissing params)"
| "as_trace_result _ = None"

fun fetched_params :: "'v trace_result \<Rightarrow> trace_params" where
  "fetched_params (TraceSuccess params result) = params"
| "fetched_params (TraceFailure params url error) = params"
| "fetched_params (TraceMissing params) = params"

fun ReceiveFetch ::
  "(string \<Rightarrow> string) \<Rightarrow> 'v trace_result \<Rightarrow> 'v client \<Rightarrow> 'v client \<times> 'v command list" where
  "ReceiveFetch default_id (TraceFailure params url error) m =
     (if error = ''Bad credentials'' then (m, [ApiError ''TraceFetch''])
      else
        (let m1 = markResponseInModel (trace_key (gtdrpTraceID params)) m;
             report = DisplayError ''Error fetching trace'' url error
         in if error = too_large
            then (let (m2, cmds) = UpdateTraces default_id
                        [gtdrpTlid params \<mapsto> [(gtdrpTraceID params, Inl MaximumCallStackError)]] m1
                  in (m2, report # cmds))
            else (m1, [report])))"
| "ReceiveFetch default_id (TraceSuccess params result) m =
     UpdateTraces default_id [gtdrpTlid params \<mapsto> [result]]
       (markResponseInModel (trace_key (gtdrpTraceID params)) m)"
| "ReceiveFetch default_id (TraceMissing params) m =
     (m, snd (requestTrace True m (gtdrpTlid params) (gtdrpTraceID params)))"

interpretation upd: merge_policy update_conflict
  by unfold_locales (simp add: update_conflict_def)

interpretation ovr: merge_policy override_conflict
  by unfold_locales (simp add: override_conflict_def)


section \<open>Steps\<close>

text \<open>
  The client and the fetches under way. \<open>Refocus\<close> is any other change of the cursor and of the
  toplevels that ends in \<open>analyzeFocused\<close>. The fetcher answers each fetch once (\<open>fetch_params\<close> are
  the fetches of traces among the commands). These events are all the code that writes the traces of the
  model. \<open>lists\<close> records the trace ids of the lists of more than one trace that the client was given
  for a toplevel at once; nothing reads it.
\<close>

datatype 'v client_event =
    Push string "string list"
  | Fetched "'v trace_result"
  | Select string string
  | Override string "string list"
  | AllTraces "(string \<times> string) list"
  | From404 string fourOhFour "fourOhFour list"
  | PageTrace string string
  | FunctionResult string string "'v function_result"
  | Refocus "string option" "string \<rightharpoonup> tl_kind"

record 'v client_system =
  model :: "'v client"
  pending :: "trace_params list"
  lists :: "string list list"

fun fetch_params :: "'v command list \<Rightarrow> trace_params list" where
  "fetch_params [] = []"
| "fetch_params (Fetch (TraceFetch p) # cmds) = p # fetch_params cmds"
| "fetch_params (c # cmds) = fetch_params cmds"

fun client_handle :: "(string \<Rightarrow> string) \<Rightarrow> 'v client_event \<Rightarrow> 'v client \<Rightarrow> 'v client \<times> 'v command list" where
  "client_handle default_id (Push traceID tlids) m = NewTracePush default_id traceID tlids m"
| "client_handle default_id (Fetched r) m = ReceiveFetch default_id r m"
| "client_handle default_id (Select tlid traceID) m = SetTLTraceID default_id tlid traceID m"
| "client_handle default_id (Override traceID tlids) m = ChangedTraces default_id traceID tlids m"
| "client_handle default_id (AllTraces x) m = FetchAllTracesAPICallback default_id x m"
| "client_handle default_id (From404 tlid fof f404s) m = CreateHandlerFrom404 default_id tlid fof f404s m"
| "client_handle default_id (PageTrace tlid tid) m = updatePossibleTrace default_id tlid tid m"
| "client_handle default_id (FunctionResult tlid traceID r) m = UpdateTraceFunctionResult default_id tlid traceID r m"
| "client_handle default_id (Refocus foc tls) m =
     analyzeFocused default_id (m\<lparr>focused := foc, toplevels := tls\<rparr>)"

fun given_lists :: "'v client_event \<Rightarrow> string list list" where
  "given_lists (AllTraces x) = map (\<lambda>tlid. map snd (filter (\<lambda>p. fst p = tlid) x)) (map fst x)"
| "given_lists (From404 tlid fof f404s) = [trace_ids (traces_of_404s fof f404s :: 'v trace list)]"
| "given_lists _ = []"

fun answered_fetch :: "'v client_event \<Rightarrow> trace_params list" where
  "answered_fetch (Fetched r) = [fetched_params r]"
| "answered_fetch _ = []"

fun client_enabled :: "'v client_event \<Rightarrow> 'v client_system \<Rightarrow> bool" where
  "client_enabled (Fetched r) s = (fetched_params r \<in> set (pending s))"
| "client_enabled _ s = True"

definition client_step :: "(string \<Rightarrow> string) \<Rightarrow> 'v client_event \<Rightarrow> 'v client_system \<Rightarrow> 'v client_system" where
  "client_step default_id e s =
     (let (m, cmds) = client_handle default_id e (model s)
      in \<lparr>model = m, pending = fold remove1 (answered_fetch e) (pending s) @ fetch_params cmds,
          lists = lists s @ given_lists e\<rparr>)"

definition init_client :: "'v client_system" where
  "init_client = \<lparr>model = \<lparr>traces = (\<lambda>_. None), tlTraceIDs = (\<lambda>_. None), syncState = {}, focused = None,
     toplevels = (\<lambda>_. None)\<rparr>, pending = [], lists = []\<rparr>"

inductive client_steps :: "(string \<Rightarrow> string) \<Rightarrow> 'v client_system \<Rightarrow> bool" for default_id :: "string \<Rightarrow> string" where
  cl_start: "client_steps default_id init_client"
| cl_step: "client_steps default_id s \<Longrightarrow> client_enabled e s \<Longrightarrow> client_steps default_id (client_step default_id e s)"

section \<open>The traces stay bounded\<close>

lemma distinct_subseq: "subseq xs ys \<Longrightarrow> distinct ys \<Longrightarrow> distinct xs"
  by (induction rule: list_emb.induct) (auto dest: list_emb_set)

text \<open>A list that comes for a toplevel without traces is kept as it is; merging cuts to eleven.\<close>

definition list_ok :: "nat \<Rightarrow> 'v trace list \<Rightarrow> bool" where
  "list_ok L ts \<longleftrightarrow> distinct (trace_ids ts) \<and> length ts \<le> max maxTracesPerHandler L"

definition traces_ok :: "nat \<Rightarrow> 'v traces \<Rightarrow> bool" where
  "traces_ok L f \<longleftrightarrow> (\<forall>tlid ts. f tlid = Some ts \<longrightarrow> list_ok L ts)"

context merge_policy
begin

lemma merge_traces_ok:
  assumes "traces_ok L a" "traces_ok L b"
  shows "traces_ok L (mergeTraces sel f a b)"
proof -
  have "list_ok L (merge_handler s f ol nl)" if "list_ok L ol" for s ol nl
  proof -
    have d: "distinct (trace_ids (foldr (merge_one f) nl ol))"
      using merged_ids(2) that by (simp add: list_ok_def)
    have "distinct (trace_ids (keep_traces s 10 (foldr (merge_one f) nl ol)))"
      using subseq_map [OF keep_traces_sub] d by (rule distinct_subseq)
    then show ?thesis using keep_traces_length [OF d, of s 10]
      by (simp add: list_ok_def merge_handler_keep maxTracesPerHandler_def)
  qed
  then show ?thesis using assms(1,2)
    by (auto simp: traces_ok_def mergeTraces_def split: option.splits)
qed

end

lemma pushed_single:
  "map_of (map (\<lambda>tlid. (tlid, [t])) tlids) tlid = Some ts \<Longrightarrow> ts = [t]"
  by (drule map_of_SomeD) auto

lemma traces_ok_simps [simp]:
  "traces_ok L [tlid \<mapsto> [t]]" "traces_ok L (map_of (map (\<lambda>tlid. (tlid, [t])) tlids))"
  by (auto simp: traces_ok_def list_ok_def maxTracesPerHandler_def dest: pushed_single split: if_splits)

lemma group_traces_ids:
  "map_option trace_ids ((group_traces :: _ \<Rightarrow> 'v traces) x tlid)
     = (if tlid \<in> set (map fst x) then Some (map snd (filter (\<lambda>p. fst p = tlid) x)) else None)"
proof (induction x rule: rev_induct)
  case Nil
  show ?case by (simp add: group_traces_def)
next
  case (snoc p x)
  have "group_traces (x @ [p]) = (group_traces x :: 'v traces)(fst p \<mapsto>
      (case group_traces x (fst p) of Some ex \<Rightarrow> ex @ [(snd p, Inl NoneYet)] | None \<Rightarrow> [(snd p, Inl NoneYet)]))"
    by (simp add: group_traces_def case_prod_beta Let_def)
  moreover have "filter (\<lambda>q. fst q = fst p) x = []" if "fst p \<notin> set (map fst x)"
    using that by (induction x) auto
  ultimately show ?case using snoc by (cases "group_traces x (fst p) :: 'v trace list option") (auto split: if_splits)
qed

lemma group_traces_ok:
  assumes "\<forall>ids \<in> set (given_lists (AllTraces x)). distinct ids \<and> length ids \<le> L"
  shows "traces_ok L (group_traces x :: 'v traces)"
  unfolding traces_ok_def
proof (intro allI impI)
  fix tlid and ts :: "'v trace list"
  assume g: "group_traces x tlid = Some ts"
  have "map_option trace_ids (Some ts) = (if tlid \<in> set (map fst x) then Some (map snd (filter (\<lambda>p. fst p = tlid) x)) else None)"
    unfolding g [symmetric] by (rule group_traces_ids)
  then have "tlid \<in> set (map fst x)" and i: "trace_ids ts = map snd (filter (\<lambda>p. fst p = tlid) x)"
    by (simp_all split: if_split_asm)
  then have "trace_ids ts \<in> set (given_lists (AllTraces x))" by force
  then have "distinct (trace_ids ts) \<and> length (trace_ids ts) \<le> L" using assms by blast
  then show "list_ok L ts" by (simp add: list_ok_def le_max_iff_disj)
qed

lemma analyzeFocused_traces [simp]: "traces (fst (analyzeFocused default_id m)) = traces m"
  by (auto simp: analyzeFocused_def Let_def requestTrace_def attempt_def markRequestInModel_def
      split: option.split sum.split trace_error.split)

lemma traces_ok_upd: "traces_ok L f \<Longrightarrow> list_ok L ts \<Longrightarrow> traces_ok L (f(k \<mapsto> ts))"
  by (simp add: traces_ok_def)

lemma replace_result_ok: "traces_ok L (traces m) \<Longrightarrow> traces_ok L (traces (replaceFunctionResult tlid traceID r m))"
proof -
  let ?f = "\<lambda>t. if fst t = traceID
     then (traceID, map_sum id (\<lambda>tdata. tdata\<lparr>td_functionResults := r # td_functionResults tdata\<rparr>) (snd t)) else t"
  have "trace_ids (map ?f ts) = trace_ids ts" for ts by (induction ts) auto
  then have l: "list_ok L (map ?f ts) \<longleftrightarrow> list_ok L ts" for ts by (simp only: list_ok_def length_map)
  assume "traces_ok L (traces m)"
  then have "list_ok L (case traces m tlid of
      None \<Rightarrow> [(traceID, Inr \<lparr>td_input = [], td_timestamp = [], td_functionResults = [r]\<rparr>)] | Some ml \<Rightarrow> ml)"
    by (auto simp: traces_ok_def list_ok_def maxTracesPerHandler_def split: option.split)
  then have "list_ok L (map ?f (case traces m tlid of
      None \<Rightarrow> [(traceID, Inr \<lparr>td_input = [], td_timestamp = [], td_functionResults = [r]\<rparr>)] | Some ml \<Rightarrow> ml))"
    unfolding l .
  from traces_ok_upd [OF \<open>traces_ok L (traces m)\<close> this, of tlid] show ?thesis
    by (simp add: replaceFunctionResult_def)
qed

lemma update_traces_ok: "traces_ok L (traces m) \<Longrightarrow> traces_ok L ts \<Longrightarrow> traces_ok L (traces (updateTraces m ts))"
  by (simp add: updateTraces_def upd.merge_traces_ok)

lemma receive_traces_ok:
  "traces_ok L (traces m) \<Longrightarrow> traces_ok L (traces (fst (ReceiveFetch default_id r m)))"
  by (cases r) (auto simp: UpdateTraces_def Let_def markResponseInModel_def case_prod_beta intro!: update_traces_ok)

lemma from_404_ok:
  assumes "traces_ok L (traces m)" "\<forall>ids \<in> set (given_lists (From404 tlid fof f404s :: 'v client_event)). distinct ids \<and> length ids \<le> L"
  shows "traces_ok L (traces (fst (CreateHandlerFrom404 default_id tlid fof f404s (m :: 'v client))))"
proof (cases "traces_of_404s fof f404s :: 'v trace list")
  case (Cons t ts)
  then have "traces_ok L [tlid \<mapsto> t # ts]" using assms(2) by (simp add: traces_ok_def list_ok_def le_max_iff_disj)
  then show ?thesis using assms(1) Cons
    by (auto simp: CreateHandlerFrom404_def UpdateTraces_def SetTLTraceID_def setSelectedTraceID_def case_prod_beta Let_def
        intro!: update_traces_ok)
qed (simp add: CreateHandlerFrom404_def assms(1))

lemma client_traces_ok:
  "client_steps default_id s \<Longrightarrow> \<forall>ids \<in> set (lists s). distinct ids \<and> length ids \<le> L \<Longrightarrow> traces_ok L (traces (model s))"
proof (induction rule: client_steps.induct)
  case cl_start
  show ?case by (simp add: init_client_def traces_ok_def)
next
  case (cl_step s e)
  have l: "lists (client_step default_id e s) = lists s @ given_lists e" by (simp add: client_step_def case_prod_beta)
  have ok: "traces_ok L (traces (model s))" and g: "\<forall>ids \<in> set (given_lists e). distinct ids \<and> length ids \<le> L"
    using cl_step.IH cl_step.prems unfolding l by simp_all
  have "traces_ok L (traces (fst (client_handle default_id e (model s))))"
  proof (cases e)
    case (Fetched r)
    then show ?thesis using ok receive_traces_ok by simp
  next
    case (AllTraces x)
    have "traces_ok L (traces (updateTraces (model s) (group_traces x)))"
      using g AllTraces by (intro update_traces_ok ok group_traces_ok) simp
    then show ?thesis using AllTraces by (simp add: FetchAllTracesAPICallback_def UpdateTraces_def)
  next
    case (From404 tlid fof f404s)
    then show ?thesis using from_404_ok ok g by simp
  qed (use ok in \<open>auto simp: NewTracePush_def UpdateTraces_def OverrideTraces_def SetTLTraceID_def setSelectedTraceID_def
      UpdateTraceFunctionResult_def ChangedTraces_def updatePossibleTrace_def overrideTraces_def case_prod_beta Let_def
      intro!: update_traces_ok replace_result_ok ovr.merge_traces_ok\<close>)
  then show ?case by (simp add: client_step_def case_prod_beta)
qed

section \<open>One fetch at a time for a trace\<close>

lemma trace_key_inject [simp]: "trace_key a = trace_key b \<longleftrightarrow> a = b"
  by (simp add: trace_key_def)

definition sync_ok :: "'v client \<Rightarrow> trace_params list \<Rightarrow> bool" where
  "sync_ok m ps \<longleftrightarrow> distinct (map gtdrpTraceID ps) \<and> (\<forall>p \<in> set ps. inFlight (trace_key (gtdrpTraceID p)) m)"

lemma sync_ok_ext: "sync_ok m ps \<Longrightarrow> syncState m' = syncState m \<Longrightarrow> sync_ok m' ps"
  by (simp add: sync_ok_def inFlight_def)

lemma fetch_params_analysis [simp]: "fetch_params (requestAnalysis default_id m tlid traceID) = []"
  by (auto simp: requestAnalysis_def split: option.split tl_kind.split sum.split)

lemma fetch_params_append [simp]: "fetch_params (xs @ ys) = fetch_params xs @ fetch_params ys"
  by (induction xs rule: fetch_params.induct) simp_all

lemma request_sync:
  "sync_ok m ps \<Longrightarrow> sync_ok (fst (requestTrace False m tlid traceID)) (ps @ fetch_params (snd (requestTrace False m tlid traceID)))"
  by (auto simp: requestTrace_def attempt_def Let_def sync_ok_def markRequestInModel_def inFlight_def
      split: option.split)

lemma analyze_sync:
  "sync_ok m ps \<Longrightarrow> sync_ok (fst (analyzeFocused default_id m)) (ps @ fetch_params (snd (analyzeFocused default_id m)))"
  using request_sync by (auto simp: analyzeFocused_def Let_def split: option.split sum.split trace_error.split)

lemma update_sync:
  "sync_ok m ps \<Longrightarrow> sync_ok (fst (UpdateTraces default_id ts m)) (ps @ fetch_params (snd (UpdateTraces default_id ts m)))"
  unfolding UpdateTraces_def by (rule analyze_sync, erule sync_ok_ext) (simp add: updateTraces_def)

lemma from_404_sync:
  assumes "sync_ok m ps"
  shows "sync_ok (fst (CreateHandlerFrom404 default_id tlid fof f404s m))
    (ps @ fetch_params (snd (CreateHandlerFrom404 default_id tlid fof f404s (m :: 'v client))))"
proof (cases "traces_of_404s fof f404s :: 'v trace list")
  case (Cons t ts)
  obtain m1 c1 where u: "UpdateTraces default_id [tlid \<mapsto> t # ts] m = (m1, c1)" by force
  have "sync_ok m1 (ps @ fetch_params c1)" using update_sync [OF assms, of default_id "[tlid \<mapsto> t # ts]"] u by simp
  then have "sync_ok (setSelectedTraceID m1 tlid (fst t)) (ps @ fetch_params c1)"
    by (rule sync_ok_ext) (simp add: setSelectedTraceID_def)
  from analyze_sync [OF this, of default_id] show ?thesis
    using Cons u by (simp add: CreateHandlerFrom404_def SetTLTraceID_def case_prod_beta Let_def)
qed (simp add: CreateHandlerFrom404_def assms)

lemma response_sync:
  assumes "sync_ok m ps" "p \<in> set ps"
  shows "sync_ok (markResponseInModel (trace_key (gtdrpTraceID p)) m) (remove1 p ps)"
proof -
  obtain xs ys where ps: "ps = xs @ p # ys" "p \<notin> set xs" using assms(2) by (metis split_list_first)
  then show ?thesis using assms(1)
    by (auto simp: sync_ok_def markResponseInModel_def inFlight_def remove1_append image_iff)
qed

lemma forced_sync:
  assumes "sync_ok m ps" "p \<in> set ps"
  shows "sync_ok m (remove1 p ps @ fetch_params (snd (requestTrace True m (gtdrpTlid p) (gtdrpTraceID p))))"
proof -
  obtain xs ys where ps: "ps = xs @ p # ys" "p \<notin> set xs" using assms(2) by (metis split_list_first)
  then show ?thesis using assms(1)
    by (auto simp: sync_ok_def requestTrace_def attempt_def Let_def remove1_append split: option.split)
qed

lemma receive_sync:
  assumes "sync_ok m ps" "fetched_params r = p" "p \<in> set ps"
  shows "sync_ok (fst (ReceiveFetch default_id r m)) (remove1 p ps @ fetch_params (snd (ReceiveFetch default_id r m)))"
proof (cases r)
  case (TraceSuccess q t)
  then show ?thesis using assms response_sync [OF assms(1,3)] by (simp add: update_sync)
next
  case (TraceFailure q url err)
  have "sync_ok m (remove1 p ps)"
    using assms(1) by (auto simp: sync_ok_def distinct_map inj_on_def dest: set_remove1_subset [THEN subsetD])
  then show ?thesis using TraceFailure assms(2) response_sync [OF assms(1,3)]
    update_sync [OF response_sync [OF assms(1,3)], of default_id]
    by (auto simp: Let_def case_prod_beta)
next
  case (TraceMissing q)
  then show ?thesis using assms forced_sync by simp
qed

lemma client_sync:
  "client_steps default_id s \<Longrightarrow> sync_ok (model s) (pending s)"
proof (induction rule: client_steps.induct)
  case cl_start
  show ?case by (simp add: init_client_def sync_ok_def)
next
  case (cl_step s e)
  have a: "sync_ok m (pending s)" if "syncState m = syncState (model s)" for m
    using cl_step.IH that by (rule sync_ok_ext)
  show ?case
  proof (cases e)
    case (Fetched r)
    then have "fetched_params r \<in> set (pending s)" using cl_step.hyps(2) by simp
    from receive_sync [OF cl_step.IH refl this] show ?thesis using Fetched by (simp add: client_step_def case_prod_beta)
  next
    case (From404 tlid fof f404s)
    then show ?thesis using from_404_sync [OF cl_step.IH] by (simp add: client_step_def case_prod_beta)
  qed (auto simp: client_step_def case_prod_beta NewTracePush_def OverrideTraces_def SetTLTraceID_def
      UpdateTraceFunctionResult_def Let_def setSelectedTraceID_def overrideTraces_def replaceFunctionResult_def
      FetchAllTracesAPICallback_def ChangedTraces_def updatePossibleTrace_def updateTraces_def
      intro!: update_sync analyze_sync a)
qed

section \<open>A fetched trace is analysed\<close>

lemma find_keep_selected:
  "List.find (\<lambda>t. fst t = traceID) (keep_traces (Some traceID) k ts) = List.find (\<lambda>t. fst t = traceID) ts"
  by (induction "Some traceID" k ts rule: keep_traces.induct) auto

lemma update_conflict_ok: "update_conflict old (traceID, Inr d) = (traceID, Inr d)"
  by (simp add: update_conflict_def)

lemma find_merged:
  "List.find (\<lambda>t. fst t = traceID) (merge_one update_conflict (traceID, Inr d) ol) = Some (traceID, Inr d)"
proof -
  have "List.find (\<lambda>t. fst t = traceID) (map (\<lambda>old. if fst old = traceID then (traceID, Inr d) else old) ol)
      = Some (traceID, Inr d)" if "list_ex (\<lambda>old. fst old = traceID) ol"
    using that by (induction ol) auto
  then show ?thesis by (simp add: merge_one_def Let_def update_conflict_ok cong: if_cong)
qed

lemma first_merged:
  "ol = t # ts \<Longrightarrow> fst t = traceID \<Longrightarrow>
   \<exists>ts'. keep_traces None 10 (merge_one update_conflict (traceID, Inr d) ol) = (traceID, Inr d) # ts'"
  by (simp add: merge_one_def update_conflict_def)

lemma fetched_selected:
  assumes "getSelectedTraceID default_id m tlid = Some traceID"
  shows "getSelectedTraceID default_id (updateTraces m [tlid \<mapsto> [(traceID, Inr d)]]) tlid = Some traceID
    \<and> getTrace default_id (updateTraces m [tlid \<mapsto> [(traceID, Inr d)]]) tlid traceID = Some (traceID, Inr d)"
proof -
  let ?m = "updateTraces m [tlid \<mapsto> [(traceID, Inr d)]]"
  let ?merged = "\<lambda>ol. keep_traces (tlTraceIDs m tlid) 10 (merge_one update_conflict (traceID, Inr d) ol)"
  have t: "getTraces default_id ?m tlid = (case traces m tlid of None \<Rightarrow> [(traceID, Inr d)] | Some ol \<Rightarrow> ?merged ol)"
    by (simp add: getTraces_def updateTraces_def mergeTraces_def merge_handler_keep split: option.split)
  have s: "tlTraceIDs ?m = tlTraceIDs m" by (simp add: updateTraces_def)
  show ?thesis
  proof (cases "tlTraceIDs m tlid")
    case (Some c)
    then have c: "c = traceID" using assms by (simp add: getSelectedTraceID_def selectedTraceID_def)
    show ?thesis using Some
      by (simp add: getSelectedTraceID_def selectedTraceID_def getTrace_def t s c find_keep_selected find_merged
          split: option.split)
  next
    case None
    show ?thesis
    proof (cases "traces m tlid")
      case None2: None
      show ?thesis using None by (simp add: getSelectedTraceID_def selectedTraceID_def getTrace_def t s None2)
    next
      case (Some ol)
      then obtain u us where u: "ol = u # us" "fst u = traceID"
        using assms None by (auto simp: getSelectedTraceID_def selectedTraceID_def getTraces_def split: list.splits)
      obtain ts' where "?merged ol = (traceID, Inr d) # ts'" using first_merged [OF u, of d] None by auto
      then show ?thesis using None Some by (simp add: getSelectedTraceID_def selectedTraceID_def getTrace_def t s)
    qed
  qed
qed

section \<open>Properties\<close>

text \<open>C19: Merging is what its comment says: when the new traces of a toplevel have distinct ids, the result is
  the new ones in their order, then the old ones, a shared one in its old place as either of the
  program's two conflict functions decides, cut to the selected traces and the first ten others; so the selected traces are all kept,
  the others are a prefix, and the order is that of the merged list.\<close>

theorem mergeTraces_spec:
  assumes "onConflict = update_conflict \<or> onConflict = override_conflict" and "distinct (trace_ids nl)"
    and "oldTraces tlid = Some ol" and "newTraces tlid = Some nl"
  shows "\<exists>kept. mergeTraces selectedTraceIDs onConflict oldTraces newTraces tlid = Some kept
    \<and> subseq kept (merged_spec onConflict ol nl)
    \<and> filter (\<lambda>t. selectedTraceIDs tlid = Some (fst t)) kept
        = filter (\<lambda>t. selectedTraceIDs tlid = Some (fst t)) (merged_spec onConflict ol nl)
    \<and> filter (\<lambda>t. selectedTraceIDs tlid \<noteq> Some (fst t)) kept
        = take 10 (filter (\<lambda>t. selectedTraceIDs tlid \<noteq> Some (fst t)) (merged_spec onConflict ol nl))"
proof -
  have "foldr (merge_one onConflict) nl ol = merged_spec onConflict ol nl"
    using assms(1) upd.merge_pass1 [OF assms(2), of ol] ovr.merge_pass1 [OF assms(2), of ol] by auto
  then show ?thesis
    using assms(3,4) by (simp add: mergeTraces_def merge_handler_keep keep_traces_sub keep_traces_selected keep_traces_others)
qed

definition sample_trace :: "string \<Rightarrow> nat trace" where
  "sample_trace i = (i, Inl NoneYet)"

text \<open>The example in the comment of \<open>mergeTraces\<close>, with o8 selected. The comment's result has no n6 and
  has o6 instead: the example forgets one of its new traces.\<close>

lemma merge_example:
  "trace_ids (merge_handler (Some ''o8'') update_conflict
      (map sample_trace [''o1'', ''o2'', ''o3'', ''o4'', ''o5'', ''o6'', ''o7'', ''o8'', ''o9''])
      (map sample_trace [''n1'', ''n2'', ''o3'', ''n4'', ''n5'', ''n6'']))
   = [''n1'', ''n2'', ''n4'', ''n5'', ''n6'', ''o1'', ''o2'', ''o3'', ''o4'', ''o5'', ''o8'']"
  by code_simp

theorem mergeTraces_spec_witness:
  "\<exists>kept. mergeTraces [''h'' \<mapsto> ''o8''] update_conflict
       [''h'' \<mapsto> map sample_trace [''o1'', ''o2'', ''o3'', ''o8'']] [''h'' \<mapsto> map sample_trace [''n1'', ''o3'']] ''h'' = Some kept
     \<and> filter (\<lambda>t. Some ''o8'' = Some (fst t)) kept = [sample_trace ''o8'']"
proof -
  have d: "distinct (trace_ids (map sample_trace [''n1'', ''o3'']))" by (simp add: sample_trace_def)
  show ?thesis
    using mergeTraces_spec [OF disjI1 [OF refl] d, of "[''h'' \<mapsto> map sample_trace [''o1'', ''o2'', ''o3'', ''o8'']]" "''h''" _
        "[''h'' \<mapsto> map sample_trace [''n1'', ''o3'']]" "[''h'' \<mapsto> ''o8'']"]
    by (auto simp: merged_spec_def sample_trace_def update_conflict_def)
qed

text \<open>C24: The number of traces of a toplevel stays bounded: if the lists that the client is given at once for
  a toplevel, of all traces or of the 404s of a new handler's route, have at most \<open>L\<close> traces, with distinct
  ids, then every toplevel has at most \<open>L\<close> traces or at most eleven, with distinct ids, after every
  sequence of pushes, answers of the fetcher and of the server, selections, overrides, pages opened and
  function results. The eleven alone are no bound: a list for a toplevel that has none is not cut.\<close>

theorem traces_bounded:
  assumes "client_steps default_id s" and "traces (model s) tlid = Some ts"
    and "\<forall>ids \<in> set (lists s). distinct ids \<and> length ids \<le> L"
  shows "distinct (trace_ids ts) \<and> length ts \<le> max 11 L"
  using client_traces_ok [OF assms(1,3)] assms(2) by (simp add: traces_ok_def list_ok_def maxTracesPerHandler_def)

text \<open>The list of all traces, a push for a focused handler and a second push.\<close>

definition sample_client :: "nat client_system" where
  "sample_client = fold (client_step (\<lambda>_. ''d''))
     [Push ''t1'' [''h''], Refocus (Some ''h'') [''h'' \<mapsto> TLHandler], Push ''t2'' [''h'']] init_client"

lemma sample_client_steps: "client_steps (\<lambda>_. ''d'') sample_client"
  unfolding sample_client_def fold.simps comp_def id_def
  by (intro cl_step cl_start) simp_all

lemma sample_client_computed:
  "traces (model sample_client) ''h'' = Some [(''t2'', Inl NoneYet), (''t1'', Inl NoneYet)]"
  "pending sample_client = [\<lparr>gtdrpTlid = ''h'', gtdrpTraceID = ''t1''\<rparr>, \<lparr>gtdrpTlid = ''h'', gtdrpTraceID = ''t2''\<rparr>]"
  by code_simp+

text \<open>All traces of a handler that had none: twelve, which are kept.\<close>

definition sample_all :: "nat client_system" where
  "sample_all = client_step (\<lambda>_. ''d'') (AllTraces (map (\<lambda>i. (''h'', [i])) ''abcdefghijkl'')) init_client"

lemma sample_all_steps: "client_steps (\<lambda>_. ''d'') sample_all"
  unfolding sample_all_def by (intro cl_step cl_start) simp

lemma sample_all_computed:
  "traces (model sample_all) ''h'' = Some (map (\<lambda>i. ([i], Inl NoneYet)) ''abcdefghijkl'')"
  "lists sample_all = replicate 12 (map (\<lambda>i. [i]) ''abcdefghijkl'')"
  by code_simp+

theorem traces_bounded_witness:
  "distinct (map (\<lambda>i. [i]) ''abcdefghijkl'')
   \<and> length (map (\<lambda>i. ([i], Inl NoneYet :: trace_error + nat trace_data)) ''abcdefghijkl'') \<le> max 11 12"
proof -
  have "\<forall>ids \<in> set (lists sample_all). distinct ids \<and> length ids \<le> 12" unfolding sample_all_computed by simp
  from traces_bounded [OF sample_all_steps sample_all_computed(1) this] show ?thesis by (simp add: comp_def)
qed

text \<open>C23: No trace is fetched twice at once: in every reachable state the fetches under way are for
  distinct traces, and each of them is marked in the sync state, so that it will not be requested
  again before its answer.\<close>

theorem one_fetch_per_trace:
  assumes "client_steps default_id s"
  shows "distinct (map gtdrpTraceID (pending s))
    \<and> (\<forall>p \<in> set (pending s). requestTrace False (model s) tlid (gtdrpTraceID p) = (model s, []))"
  using client_sync [OF assms] by (auto simp: sync_ok_def requestTrace_def attempt_def Let_def)

theorem one_fetch_per_trace_witness:
  "requestTrace False (model sample_client) ''h'' ''t1'' = (model sample_client, [])"
  using one_fetch_per_trace [OF sample_client_steps, of "''h''"] by (simp add: sample_client_computed)

text \<open>C22: From the HTTP answer to the analysis: when the server answers the fetch of the selected trace of
  the focused handler or function with its data, the fetcher worker's message makes the client
  request the analysis of that toplevel on exactly this data, whatever traces it had, and releases
  the key of the fetch.\<close>

theorem fetched_trace_analysed:
  assumes "focused m = Some tlid" and "getSelectedTraceID default_id m tlid = Some traceID"
    and "toplevels m tlid = Some kind" and "kind = TLHandler \<or> kind = TLFunc"
    and "dec body = Inr (traceID, Inr d)" and "status \<noteq> 401" and "status \<noteq> 404"
    and "worker_fetch dec context (TraceFetch \<lparr>gtdrpTlid = tlid, gtdrpTraceID = traceID\<rparr>) (Response status (Inr body) text')
      = Some msg" and "as_trace_result msg = Some result"
  shows "snd (ReceiveFetch default_id result m) = [SendAnalysis kind tlid traceID d]
    \<and> \<not> inFlight (trace_key traceID) (fst (ReceiveFetch default_id result m))"
proof -
  let ?m = "markResponseInModel (trace_key traceID) m"
  have "msg = TraceFetchSuccess \<lparr>gtdrpTlid = tlid, gtdrpTraceID = traceID\<rparr> (traceID, Inr d)"
    using assms(5-8) by (simp add: fetch_chain_def Let_def)
  then have r: "result = TraceSuccess \<lparr>gtdrpTlid = tlid, gtdrpTraceID = traceID\<rparr> (traceID, Inr d)"
    using assms(9) by simp
  have s: "getSelectedTraceID default_id ?m tlid = Some traceID"
    using assms(2) by (simp add: getSelectedTraceID_def getTraces_def markResponseInModel_def)
  note f = fetched_selected [OF s, of d]
  have u: "focused (updateTraces ?m ts) = Some tlid" "toplevels (updateTraces ?m ts) tlid = Some kind"
    "syncState (updateTraces ?m ts) = syncState m - {trace_key traceID}" for ts
    using assms(1,3) by (simp_all add: updateTraces_def markResponseInModel_def)
  show ?thesis using assms(4) f u
    by (auto simp: r UpdateTraces_def analyzeFocused_def Let_def requestAnalysis_def inFlight_def)
qed

theorem fetched_trace_analysed_witness:
  "let d = \<lparr>td_input = [(''request'', 1)], td_timestamp = ''now'', td_functionResults = []\<rparr> :: nat trace_data;
       m = model sample_client
   in snd (ReceiveFetch (\<lambda>_. ''d'') (TraceSuccess \<lparr>gtdrpTlid = ''h'', gtdrpTraceID = ''t2''\<rparr> (''t2'', Inr d)) m)
      = [SendAnalysis TLHandler ''h'' ''t2'' d]"
proof -
  let ?d = "\<lparr>td_input = [(''request'', 1)], td_timestamp = ''now'', td_functionResults = []\<rparr> :: nat trace_data"
  let ?c = "\<lparr>canvasName = [], csrfToken = [], origin = [], fc_prefix = []\<rparr>"
  let ?dec = "\<lambda>_ :: jsval. Inr (''t2'', Inr ?d) :: raised + nat trace"
  have m: "focused (model sample_client) = Some ''h''" "getSelectedTraceID (\<lambda>_. ''d'') (model sample_client) ''h'' = Some ''t2''"
    "toplevels (model sample_client) ''h'' = Some TLHandler"
    by code_simp+
  have "worker_fetch ?dec ?c (TraceFetch \<lparr>gtdrpTlid = ''h'', gtdrpTraceID = ''t2''\<rparr>) (Response 200 (Inr JNull) (Inr []))
      = Some (TraceFetchSuccess \<lparr>gtdrpTlid = ''h'', gtdrpTraceID = ''t2''\<rparr> (''t2'', Inr ?d))"
    by (simp add: fetch_chain_def Let_def)
  from fetched_trace_analysed [OF m _ refl _ _ this as_trace_result.simps(1)] show ?thesis by (simp add: Let_def)
qed

text \<open>A function result for a toplevel without traces is stored twice: the new trace has it, and the map
  adds it once more.\<close>

theorem missing_trace_doubles_result:
  assumes "traces m tlid = None"
  shows "traces (replaceFunctionResult tlid traceID r m) tlid
    = Some [(traceID, Inr \<lparr>td_input = [], td_timestamp = [], td_functionResults = [r, r]\<rparr>)]"
  using assms by (simp add: replaceFunctionResult_def)

theorem missing_trace_doubles_result_witness:
  "traces (replaceFunctionResult ''h'' ''t'' \<lparr>fr_fnName = ''f'', fr_callerID = ''1'', fr_argHash = [], fr_argHashVersion = 0,
       fr_value = 7\<rparr> (model (init_client :: nat client_system))) ''h''
   = Some [(''t'', Inr \<lparr>td_input = [], td_timestamp = [], td_functionResults =
       [\<lparr>fr_fnName = ''f'', fr_callerID = ''1'', fr_argHash = [], fr_argHashVersion = 0, fr_value = 7\<rparr>,
        \<lparr>fr_fnName = ''f'', fr_callerID = ''1'', fr_argHash = [], fr_argHashVersion = 0, fr_value = 7\<rparr>]\<rparr>)]"
  by (rule missing_trace_doubles_result) (simp add: init_client_def)

text \<open>A trace whose data was too large for the client is fetched again after another push of it,
  although its error is meant to be final.\<close>

theorem push_resets_overflow:
  assumes "traces m tlid = Some ((traceID, Inl MaximumCallStackError) # ts)"
    and "focused m = Some tlid" and "tlTraceIDs m tlid = None" and "toplevels m tlid = Some TLHandler"
    and "\<not> inFlight (trace_key traceID) m"
  shows "analyzeFocused default_id m = (m, [])
    \<and> snd (NewTracePush default_id traceID [tlid] m)
        = [Fetch (TraceFetch \<lparr>gtdrpTlid = tlid, gtdrpTraceID = traceID\<rparr>)]"
  using assms
  by (auto simp: analyzeFocused_def getSelectedTraceID_def selectedTraceID_def getTraces_def getTrace_def Let_def
      NewTracePush_def UpdateTraces_def updateTraces_def mergeTraces_def merge_handler_keep merge_one_def
      update_conflict_def requestTrace_def attempt_def inFlight_def)

theorem push_resets_overflow_witness:
  "let m = \<lparr>traces = [''h'' \<mapsto> [(''t'', Inl MaximumCallStackError :: trace_error + nat trace_data)]], tlTraceIDs = (\<lambda>_. None),
       syncState = {}, focused = Some ''h'', toplevels = [''h'' \<mapsto> TLHandler]\<rparr>
   in snd (NewTracePush (\<lambda>_. ''d'') ''t'' [''h''] m) = [Fetch (TraceFetch \<lparr>gtdrpTlid = ''h'', gtdrpTraceID = ''t''\<rparr>)]"
  unfolding Let_def
  by (rule push_resets_overflow [of _ _ _ "[]", THEN conjunct2]) (simp_all add: inFlight_def)

end
