(* ===== verification/FetchSystem.thy ===== *)
theory FetchSystem
  imports ClientTraces "HOL-Library.Multiset"
begin

text \<open>
  The trace fetches from end to end: the client of \<open>ClientTraces\<close>, the page's sender and the worker of
  \<open>FetcherQueue\<close>. The client's commands become messages of \<open>window.Dark.fetcher\<close>, the worker starts an
  HTTP call for each message it receives, the calls end in any order, and each answer reaches the
  client as an event, in whose handling it may fetch again. The contract that \<open>ClientTraces\<close> assumes of
  the fetcher (only a fetch under way is answered, and once) is proved here. Statistics, which take
  the same way, are left out.
\<close>

section \<open>State and steps\<close>

text \<open>What stays fixed. \<open>ft_request\<close> is the message of a fetch, read by the worker with \<open>ft_params\<close>: a
  structured clone is read back as what was sent. \<open>ft_detail\<close> is the detail of the event of an answer,
  which the client takes as it is (\<open>Obj.magic\<close>); \<open>ft_dec\<close> is the decoder of the trace data.\<close>

record 'v fetch_setup =
  ft_default :: "string \<Rightarrow> string"
  ft_request :: "trace_params \<Rightarrow> jsval"
  ft_params :: "jsval \<Rightarrow> trace_params option"
  ft_detail :: "'v trace_result \<Rightarrow> jsval"
  ft_context :: fetch_context
  ft_dec :: "jsval \<Rightarrow> raised + 'v trace"

definition clone_law :: "'v fetch_setup \<Rightarrow> bool" where
  "clone_law S \<longleftrightarrow> (\<forall>p. ft_params S (ft_request S p) = Some p)"

text \<open>\<open>taken\<close> counts the messages the worker has received, \<open>http\<close> are the calls under way, \<open>to_client\<close> the
  answers under way, \<open>unanswered\<close> the fetches for which the worker posts nothing, \<open>gave_up\<close> the outcomes
  of their HTTP calls. The \<open>pending\<close> fetches of
  \<open>cl\<close> are a record of the client's commands that nothing reads.\<close>

record 'v fetch_system =
  cl :: "'v client_system"
  fpage :: fetcher
  taken :: nat
  http :: "trace_params list"
  to_client :: "'v trace_result list"
  unanswered :: "trace_params list"
  gave_up :: "http_outcome list"

definition init_fetch_system :: "'v fetch_system" where
  "init_fetch_system = \<lparr>cl = init_client, fpage = init_fetcher, taken = 0, http = [], to_client = [], unanswered = [], gave_up = []\<rparr>"

definition new_fetches :: "'v fetch_setup \<Rightarrow> 'v client_event \<Rightarrow> 'v fetch_system \<Rightarrow> jsval list" where
  "new_fetches S e s = map (ft_request S) (fetch_params (snd (client_handle (ft_default S) e (model (cl s)))))"

definition client_does :: "'v fetch_setup \<Rightarrow> 'v client_event \<Rightarrow> 'v fetch_system \<Rightarrow> 'v fetch_system" where
  "client_does S e s = s\<lparr>cl := client_step (ft_default S) e (cl s),
     fpage := fold fetcher_fetch (new_fetches S e s) (fpage s)\<rparr>"

definition worker_receives :: "'v fetch_setup \<Rightarrow> 'v fetch_system \<Rightarrow> 'v fetch_system" where
  "worker_receives S s = s\<lparr>taken := Suc (taken s),
     http := http s @ (case ft_params S (fetcher_history (fpage s) ! taken s) of None \<Rightarrow> [] | Some p \<Rightarrow> [p])\<rparr>"

definition http_ends :: "'v fetch_setup \<Rightarrow> nat \<Rightarrow> http_outcome \<Rightarrow> 'v fetch_system \<Rightarrow> 'v fetch_system" where
  "http_ends S i outcome s =
     (let p = http s ! i;
          s1 = s\<lparr>http := take i (http s) @ drop (Suc i) (http s)\<rparr>
      in case worker_fetch (ft_dec S) (ft_context S) (TraceFetch p) outcome of
           None \<Rightarrow> s1\<lparr>unanswered := unanswered s @ [p], gave_up := gave_up s @ [outcome]\<rparr>
         | Some msg \<Rightarrow>
             s1\<lparr>to_client := to_client s @ (case as_trace_result msg of None \<Rightarrow> [] | Some r \<Rightarrow> [r])\<rparr>)"

definition answer_arrives :: "'v fetch_setup \<Rightarrow> 'v fetch_system \<Rightarrow> 'v fetch_system" where
  "answer_arrives S s =
     (case to_client s of
        [] \<Rightarrow> s
      | r # rest \<Rightarrow>
          s\<lparr>to_client := rest, cl := client_step (ft_default S) (Fetched r) (cl s),
            fpage := fetcher_answer (ft_detail S r) (new_fetches S (Fetched r) s) (fpage s)\<rparr>)"

fun own_event :: "'v client_event \<Rightarrow> bool" where
  "own_event (Fetched r) = False"
| "own_event e = True"

inductive fetch_steps :: "'v fetch_setup \<Rightarrow> 'v fetch_system \<Rightarrow> bool" for S :: "'v fetch_setup" where
  ft_start: "fetch_steps S init_fetch_system"
| ft_client: "fetch_steps S s \<Longrightarrow> own_event e \<Longrightarrow> client_enabled e (cl s) \<Longrightarrow> fetch_steps S (client_does S e s)"
| ft_timer: "fetch_steps S s \<Longrightarrow> fetch_steps S (s\<lparr>fpage := fetcher_timer (fpage s)\<rparr>)"
| ft_loaded: "fetch_steps S s \<Longrightarrow> fetcherWorker (fpage s) = None \<Longrightarrow> fetch_steps S (s\<lparr>fpage := fetcher_loaded (fpage s)\<rparr>)"
| ft_receive: "fetch_steps S s \<Longrightarrow> taken s < length (fetcher_history (fpage s)) \<Longrightarrow> fetch_steps S (worker_receives S s)"
| ft_http: "fetch_steps S s \<Longrightarrow> i < length (http s) \<Longrightarrow> fetch_steps S (http_ends S i outcome s)"
| ft_answer: "fetch_steps S s \<Longrightarrow> fetch_steps S (answer_arrives S s)"

section \<open>What they keep true together\<close>

text \<open>The messages of all fetches that have not been answered to the client.\<close>

definition under_way_msgs :: "'v fetch_setup \<Rightarrow> 'v fetch_system \<Rightarrow> jsval list" where
  "under_way_msgs S s = fetcher_timers (fpage s) @ drop (taken s) (fetcher_history (fpage s))
     @ map (ft_request S) (http s)
     @ map (\<lambda>r. ft_request S (fetched_params r)) (to_client s)
     @ map (ft_request S) (unanswered s)"

definition f_answered :: "fetcher \<Rightarrow> nat" where
  "f_answered f = (case fetcherWorker f of None \<Rightarrow> 0 | Some c \<Rightarrow> answered c)"

definition fetch_inv :: "'v fetch_setup \<Rightarrow> 'v fetch_system \<Rightarrow> bool" where
  "fetch_inv S s \<longleftrightarrow> client_steps (ft_default S) (cl s) \<and> fetcher_inv (fpage s)
     \<and> taken s \<le> length (fetcher_history (fpage s))
     \<and> f_answered (fpage s) + length (http s) + length (to_client s) + length (unanswered s) = taken s
     \<and> mset (map (ft_request S) (pending (cl s))) = mset (under_way_msgs S s)
     \<and> length (gave_up s) = length (unanswered s) \<and> list_all (silent (ft_dec S)) (gave_up s)"

text \<open>What the sender does with new fetches.\<close>

lemma fetch_one:
  assumes "fetcher_inv f" "k \<le> length (fetcher_history f)"
  shows "fetcher_inv (fetcher_fetch m f) \<and> f_answered (fetcher_fetch m f) = f_answered f
    \<and> k \<le> length (fetcher_history (fetcher_fetch m f))
    \<and> mset (fetcher_timers (fetcher_fetch m f)) + mset (drop k (fetcher_history (fetcher_fetch m f)))
      = mset (fetcher_timers f) + mset (drop k (fetcher_history f)) + {#m#}"
  using assms fetcher_exec_inv [OF assms(1), of "Submit m"]
  by (auto simp: fetcher_fetch_def fetcher_emit_def f_answered_def fetcher_history_def post_def split: option.splits)

lemma fetch_all:
  assumes "fetcher_inv f" "k \<le> length (fetcher_history f)"
  shows "fetcher_inv (fold fetcher_fetch ms f) \<and> f_answered (fold fetcher_fetch ms f) = f_answered f
    \<and> k \<le> length (fetcher_history (fold fetcher_fetch ms f))
    \<and> mset (fetcher_timers (fold fetcher_fetch ms f)) + mset (drop k (fetcher_history (fold fetcher_fetch ms f)))
      = mset (fetcher_timers f) + mset (drop k (fetcher_history f)) + mset ms"
  using assms
proof (induction ms arbitrary: f)
  case (Cons m ms)
  note f = fetch_one [OF Cons.prems, of m]
  then show ?case using Cons.IH [of "fetcher_fetch m f"] by simp
qed simp

lemma timer_moves:
  assumes "fetcher_inv f" "k \<le> length (fetcher_history f)"
  shows "fetcher_inv (fetcher_timer f) \<and> f_answered (fetcher_timer f) = f_answered f
    \<and> k \<le> length (fetcher_history (fetcher_timer f))
    \<and> mset (fetcher_timers (fetcher_timer f)) + mset (drop k (fetcher_history (fetcher_timer f)))
      = mset (fetcher_timers f) + mset (drop k (fetcher_history f))"
proof (cases "fetcher_timers f")
  case (Cons m ms)
  let ?f = "fetcher_emit (ConsoleLog [JStr ''Trying FetchWorker again'']) (f\<lparr>fetcher_timers := ms\<rparr>)"
  have h: "fetcher_history ?f = fetcher_history f" "f_answered ?f = f_answered f" "fetcher_timers ?f = ms"
    by (simp_all add: fetcher_emit_def fetcher_history_def f_answered_def)
  have i: "fetcher_inv ?f" using assms(1) by (simp add: fetcher_inv_def fetcher_emit_def split: option.splits)
  show ?thesis using fetch_one [of ?f k m, unfolded h, OF i assms(2)] Cons by (simp add: fetcher_timer_def)
qed (use assms in \<open>simp add: fetcher_timer_def\<close>)

lemma remove_taken:
  assumes "k < length xs"
  shows "mset (drop k xs) = {#xs ! k#} + mset (drop (Suc k) xs)"
  using Cons_nth_drop_Suc [OF assms] by (metis mset.simps(2) add_mset_add_single union_commute)

lemma remove_at:
  assumes "i < length xs"
  shows "mset (map f xs) = {#f (xs ! i)#} + mset (map f (take i xs @ drop (Suc i) xs))"
proof -
  have "map f xs = map f (take i xs) @ f (xs ! i) # map f (drop (Suc i) xs)"
    using id_take_nth_drop [OF assms] by (metis list.simps(9) map_append)
  then show ?thesis by simp
qed

lemma own_event_answers: "own_event e \<Longrightarrow> answered_fetch e = []"
  by (cases e) simp_all

lemma client_step_pending:
  "pending (client_step d e c) = fold remove1 (answered_fetch e) (pending c) @ fetch_params (snd (client_handle d e (model c)))"
  by (simp add: client_step_def case_prod_beta)

lemma client_does_inv:
  assumes i: "fetch_inv S s" and e: "own_event e" "client_enabled e (cl s)"
  shows "fetch_inv S (client_does S e s)"
proof -
  have f: "fetcher_inv (fpage s)" "taken s \<le> length (fetcher_history (fpage s))"
    and c: "client_steps (ft_default S) (client_step (ft_default S) e (cl s))"
    using i e(2) by (auto simp: fetch_inv_def intro: cl_step)
  then show ?thesis using i fetch_all [OF f, of "new_fetches S e s"]
    by (simp add: fetch_inv_def client_does_def under_way_msgs_def client_step_pending own_event_answers [OF e(1)]
        new_fetches_def)
qed

lemma timer_inv: "fetch_inv S s \<Longrightarrow> fetch_inv S (s\<lparr>fpage := fetcher_timer (fpage s)\<rparr>)"
  using timer_moves [of "fpage s" "taken s"] by (auto simp: fetch_inv_def under_way_msgs_def)

lemma loaded_inv:
  "fetch_inv S s \<Longrightarrow> fetcherWorker (fpage s) = None \<Longrightarrow> fetch_inv S (s\<lparr>fpage := fetcher_loaded (fpage s)\<rparr>)"
  by (simp add: fetch_inv_def under_way_msgs_def fetcher_loaded_def fetcher_inv_def fetcher_history_def
      f_answered_def channel_ok_def new_channel_def)

lemma under_way_request:
  assumes "fetch_inv S s" "m \<in> set (under_way_msgs S s)"
  obtains p where "p \<in> set (pending (cl s))" "m = ft_request S p"
proof -
  have "m \<in># mset (map (ft_request S) (pending (cl s)))" using assms by (simp add: fetch_inv_def)
  then show ?thesis using that by auto
qed

lemma receives_inv:
  assumes l: "clone_law S" and i: "fetch_inv S s" and t: "taken s < length (fetcher_history (fpage s))"
  shows "fetch_inv S (worker_receives S s)"
proof -
  let ?m = "fetcher_history (fpage s) ! taken s"
  have "?m \<in> set (drop (taken s) (fetcher_history (fpage s)))" using t by (simp flip: Cons_nth_drop_Suc)
  then have "?m \<in> set (under_way_msgs S s)" by (simp add: under_way_msgs_def)
  then obtain p where p: "?m = ft_request S p" by (rule under_way_request [OF i])
  then have q: "ft_params S ?m = Some p" using l by (simp add: clone_law_def)
  show ?thesis using i t remove_taken [OF t] unfolding p
    by (simp add: fetch_inv_def worker_receives_def q under_way_msgs_def)
qed

lemma ends_inv:
  assumes l: "clone_law S" and i: "fetch_inv S s" and h: "n < length (http s)"
  shows "fetch_inv S (http_ends S n outcome s)"
proof -
  let ?p = "http s ! n"
  have len: "length (take n (http s) @ drop (Suc n) (http s)) = length (http s) - 1" using h by simp
  note m = remove_at [OF h, of "ft_request S"]
  show ?thesis
  proof (cases "worker_fetch (ft_dec S) (ft_context S) (TraceFetch ?p) outcome")
    case None
    then have "silent (ft_dec S) outcome"
      by (rule silent_iff [THEN iffD1])
    then show ?thesis using i h m len None
      by (simp add: fetch_inv_def http_ends_def Let_def under_way_msgs_def)
  next
    case (Some msg)
    then have "answers_request msg = TraceFetch ?p"
      by (rule worker_fetch_about)
    then obtain r where r: "as_trace_result msg = Some r" "fetched_params r = ?p" by (cases msg) auto
    then show ?thesis using i h m len l Some
      by (simp add: fetch_inv_def http_ends_def Let_def under_way_msgs_def clone_law_def)
  qed
qed


lemma fetch_answer_eq:
  assumes "fetcher_inv f" "fetcherWorker f = Some c" "in_flight c \<noteq> []"
  shows "fetcher_answer data ms f = fold fetcher_fetch ms
    (fetcher_emit (DispatchEvent ''receiveFetch'' data) (f\<lparr>fetcherWorker := Some (answer c)\<rparr>))"
  using assms by (simp add: fetcher_answer_def fetcher_inv_def)

lemma balance:
  fixes X :: "'a multiset"
  assumes "P = add_mset m X" and "P = t + d + h + add_mset m r + u" and "t' + d' = t + d + n"
  shows "X + n = t' + d' + h + r + u"
proof -
  have "add_mset m X = add_mset m (t + d + h + r + u)" using assms(1,2) by simp
  then show ?thesis unfolding assms(3) by (simp add: ac_simps)
qed

lemma arrives_inv:
  assumes l: "clone_law S" and i: "fetch_inv S s"
  shows "fetch_inv S (answer_arrives S s)"
proof (cases "to_client s")
  case (Cons r rest)
  let ?p = "fetched_params r" and ?ms = "new_fetches S (Fetched r) s"
  have "ft_request S ?p \<in> set (under_way_msgs S s)" using Cons by (simp add: under_way_msgs_def)
  then obtain q where q: "q \<in> set (pending (cl s))" "ft_request S ?p = ft_request S q"
    by (rule under_way_request [OF i])
  have "ft_params S (ft_request S ?p) = ft_params S (ft_request S q)" using q(2) by simp
  then have e: "?p \<in> set (pending (cl s))" using q(1) l by (simp add: clone_law_def)
  have k: "f_answered (fpage s) < taken s" "taken s \<le> length (fetcher_history (fpage s))" "fetcher_inv (fpage s)"
    using i Cons by (auto simp: fetch_inv_def)
  then obtain c where c: "fetcherWorker (fpage s) = Some c" "in_flight c \<noteq> []"
    by (auto simp: f_answered_def fetcher_history_def in_flight_def split: option.splits)
  let ?f = "fetcher_emit (DispatchEvent ''receiveFetch'' (ft_detail S r)) ((fpage s)\<lparr>fetcherWorker := Some (answer c)\<rparr>)"
  have f: "fetcher_inv ?f" "f_answered ?f = Suc (f_answered (fpage s))" "fetcher_history ?f = fetcher_history (fpage s)"
    "fetcher_timers ?f = fetcher_timers (fpage s)"
    using k(3) c tl_drop by (auto simp: fetcher_inv_def fetcher_emit_def f_answered_def fetcher_history_def answer_def
        channel_ok_def in_flight_def)
  have s: "client_steps (ft_default S) (client_step (ft_default S) (Fetched r) (cl s))"
    using i e by (auto simp: fetch_inv_def intro: cl_step)
  have a: "answer_arrives S s = s\<lparr>to_client := rest, cl := client_step (ft_default S) (Fetched r) (cl s),
      fpage := fold fetcher_fetch ?ms ?f\<rparr>"
    by (simp add: answer_arrives_def Cons fetch_answer_eq [OF k(3) c])
  have m: "mset (map (ft_request S) (pending (cl s)))
      = add_mset (ft_request S ?p) (mset (map (ft_request S) (remove1 ?p (pending (cl s)))))"
    using e by (metis image_mset_add_mset mset_map mset_remove1 insert_DiffM set_mset_mset)
  let ?g = "fold fetcher_fetch ?ms ?f" and ?req = "\<lambda>r. ft_request S (fetched_params r)"
  note g = fetch_all [OF f(1), of "taken s" ?ms, unfolded f(3), OF k(2)]
  have u: "mset (map (ft_request S) (pending (cl s)))
      = mset (fetcher_timers (fpage s)) + mset (drop (taken s) (fetcher_history (fpage s)))
        + mset (map (ft_request S) (http s)) + add_mset (ft_request S ?p) (mset (map ?req rest))
        + mset (map (ft_request S) (unanswered s))"
    using i Cons by (simp add: fetch_inv_def under_way_msgs_def)
  have t: "mset (fetcher_timers ?g) + mset (drop (taken s) (fetcher_history ?g))
      = mset (fetcher_timers (fpage s)) + mset (drop (taken s) (fetcher_history (fpage s))) + mset ?ms"
    using g unfolding f(3,4) by simp
  note b = balance [OF m u t]
  have "mset (map (ft_request S) (pending (cl (answer_arrives S s)))) = mset (under_way_msgs S (answer_arrives S s))"
    using b by (simp add: a under_way_msgs_def client_step_pending new_fetches_def ac_simps)
  moreover have "f_answered ?g + length (http s) + length rest + length (unanswered s) = taken s"
    using i g f(2) Cons by (simp add: fetch_inv_def)
  ultimately show ?thesis using i s g Cons by (simp add: a fetch_inv_def)
qed (use i in \<open>simp add: answer_arrives_def\<close>)

lemma fetch_steps_inv:
  assumes "clone_law S"
  shows "fetch_steps S s \<Longrightarrow> fetch_inv S s"
proof (induction rule: fetch_steps.induct)
  case ft_start
  show ?case by (simp add: fetch_inv_def init_fetch_system_def cl_start init_fetcher_def fetcher_inv_def fetcher_history_def
      f_answered_def under_way_msgs_def) (simp add: init_client_def)
qed (auto intro: client_does_inv timer_inv loaded_inv receives_inv ends_inv arrives_inv assms)


section \<open>A concrete run\<close>

definition sample_fetch_setup :: "nat fetch_setup" where
  "sample_fetch_setup = \<lparr>ft_default = (\<lambda>_. ''d''),
     ft_request = (\<lambda>p. JArr [JStr (gtdrpTlid p), JStr (gtdrpTraceID p)]),
     ft_params = (\<lambda>v. case v of JArr vs \<Rightarrow> (case vs of
         [JStr t, JStr i] \<Rightarrow> Some \<lparr>gtdrpTlid = t, gtdrpTraceID = i\<rparr> | _ \<Rightarrow> None) | _ \<Rightarrow> None),
     ft_detail = (\<lambda>_. JNull), ft_context = \<lparr>canvasName = [], csrfToken = [], origin = [], fc_prefix = []\<rparr>,
     ft_dec = (\<lambda>v. case v of JStr i \<Rightarrow> Inr (i, Inr \<lparr>td_input = [], td_timestamp = [], td_functionResults = []\<rparr>)
                | _ \<Rightarrow> Inl RaisedOcaml)\<rparr>"

lemma sample_clone_law: "clone_law sample_fetch_setup"
  by (simp add: clone_law_def sample_fetch_setup_def)

text \<open>Two traces are fetched; the second answer arrives first, the first fetch ends with an unreadable 401.\<close>

datatype fetch_event = FtClient "nat client_event" | FtTimer | FtLoaded | FtReceive | FtHttp nat http_outcome | FtAnswer

fun fetch_event_enabled :: "fetch_event \<Rightarrow> nat fetch_system \<Rightarrow> bool" where
  "fetch_event_enabled (FtClient e) s = (own_event e)"
| "fetch_event_enabled FtLoaded s = (fetcherWorker (fpage s) = None)"
| "fetch_event_enabled FtReceive s = (taken s < length (fetcher_history (fpage s)))"
| "fetch_event_enabled (FtHttp i outcome) s = (i < length (http s))"
| "fetch_event_enabled _ s = True"

fun fetch_event_run :: "nat fetch_setup \<Rightarrow> fetch_event \<Rightarrow> nat fetch_system \<Rightarrow> nat fetch_system" where
  "fetch_event_run S (FtClient e) s = client_does S e s"
| "fetch_event_run S FtTimer s = s\<lparr>fpage := fetcher_timer (fpage s)\<rparr>"
| "fetch_event_run S FtLoaded s = s\<lparr>fpage := fetcher_loaded (fpage s)\<rparr>"
| "fetch_event_run S FtReceive s = worker_receives S s"
| "fetch_event_run S (FtHttp i outcome) s = http_ends S i outcome s"
| "fetch_event_run S FtAnswer s = answer_arrives S s"

lemma fetch_event_steps:
  "fetch_steps S s \<Longrightarrow> fetch_event_enabled e s \<Longrightarrow> fetch_steps S (fetch_event_run S e s)"
proof (cases e)
  case (FtClient ev)
  assume "fetch_steps S s" "fetch_event_enabled e s"
  then show ?thesis using FtClient by (cases ev) (auto intro: ft_client)
qed (auto intro: fetch_steps.intros)

fun fetch_run_ok :: "nat fetch_setup \<Rightarrow> fetch_event list \<Rightarrow> nat fetch_system \<Rightarrow> bool" where
  "fetch_run_ok S [] s = True"
| "fetch_run_ok S (e # es) s = (fetch_event_enabled e s \<and> fetch_run_ok S es (fetch_event_run S e s))"

lemma fetch_run_steps:
  "fetch_steps S s \<Longrightarrow> fetch_run_ok S es s \<Longrightarrow> fetch_steps S (fold (fetch_event_run S) es s)"
  by (induction es arbitrary: s) (auto intro: fetch_event_steps)

definition sample_fetch_events :: "fetch_event list" where
  "sample_fetch_events = [FtClient (Push ''t1'' [''h'']), FtClient (Refocus (Some ''h'') [''h'' \<mapsto> TLHandler]), FtLoaded,
     FtTimer, FtClient (Push ''t2'' [''h'']), FtReceive, FtReceive, FtHttp 1 (Response 200 (Inr (JStr ''t2'')) (Inr [])),
     FtAnswer, FtHttp 0 (Response 401 (Inr JNull) (Inl ''network''))]"

definition sample_fetch :: "nat fetch_system" where
  "sample_fetch = fold (fetch_event_run sample_fetch_setup) sample_fetch_events init_fetch_system"

lemma sample_fetch_ok: "fetch_run_ok sample_fetch_setup sample_fetch_events init_fetch_system"
  by code_simp

lemma sample_fetch_steps: "fetch_steps sample_fetch_setup sample_fetch"
  unfolding sample_fetch_def by (rule fetch_run_steps [OF ft_start sample_fetch_ok])

lemma sample_fetch_computed:
  "fetcher_timers (fpage sample_fetch) = []" "taken sample_fetch = length (fetcher_history (fpage sample_fetch))"
  "http sample_fetch = []" "to_client sample_fetch = []"
  "unanswered sample_fetch = [\<lparr>gtdrpTlid = ''h'', gtdrpTraceID = ''t1''\<rparr>]"
  by code_simp+

section \<open>Properties\<close>

lemma pending_mset:
  assumes "clone_law S" "mset (map (ft_request S) ps) = mset (map (ft_request S) qs)"
  shows "mset ps = mset qs"
proof -
  have "map (the \<circ> ft_params S) (map (ft_request S) xs) = xs" for xs
    using assms(1) by (simp add: clone_law_def map_idI)
  then have "image_mset (the \<circ> ft_params S) (mset (map (ft_request S) xs)) = mset xs" for xs
    by (metis mset_map)
  then show ?thesis using assms(2) by metis
qed

text \<open>C20: The fetcher keeps the contract the client relies on: in every state of the client, the page's sender
  and the worker together, with the HTTP calls ending in any order, the client's state is one it can
  reach with a fetcher that answers only fetches under way, each once; every answer on its way is for
  such a fetch; and the messages of the fetches it has not seen answered are exactly those on timers, on
  their way to the worker, in an HTTP call, on their way back, or given up.\<close>

theorem fetch_contract_refined:
  assumes "clone_law S" and "fetch_steps S s"
  shows "client_steps (ft_default S) (cl s)
    \<and> mset (map (ft_request S) (pending (cl s))) = mset (under_way_msgs S s)
    \<and> list_all (\<lambda>r. client_enabled (Fetched r) (cl s)) (to_client s)"
proof -
  have i: "fetch_inv S s" by (rule fetch_steps_inv [OF assms])
  have "fetched_params r \<in> set (pending (cl s))" if "r \<in> set (to_client s)" for r
  proof -
    have "ft_request S (fetched_params r) \<in> set (under_way_msgs S s)" using that by (simp add: under_way_msgs_def)
    then obtain q where "q \<in> set (pending (cl s))" "ft_request S (fetched_params r) = ft_request S q"
      by (rule under_way_request [OF i])
    then show ?thesis using assms(1) unfolding clone_law_def by (metis option.inject)
  qed
  then show ?thesis using i by (simp add: fetch_inv_def list_all_iff)
qed

theorem fetch_contract_refined_witness:
  "client_steps (\<lambda>_. ''d'') (cl sample_fetch)"
  using fetch_contract_refined [OF sample_clone_law sample_fetch_steps] by (simp add: sample_fetch_setup_def)

text \<open>C21: Every fetch is answered, or given up for good: once no timer, message, HTTP call or answer is left,
  the fetches the client still waits for are exactly those for which the worker posted nothing, each for a
  401 response whose body could not be read or for a body on which the decoder raised an exception of
  OCaml, and of these no further fetch is made.\<close>

theorem fetches_answered_or_given_up:
  assumes "clone_law S" and "fetch_steps S s"
    and "fetcher_timers (fpage s) = []" and "taken s = length (fetcher_history (fpage s))"
    and "http s = []" and "to_client s = []"
  shows "mset (pending (cl s)) = mset (unanswered s)
    \<and> list_all2 (\<lambda>p outcome. silent (ft_dec S) outcome) (unanswered s) (gave_up s)
    \<and> list_all (\<lambda>p. requestTrace False (model (cl s)) (gtdrpTlid p) (gtdrpTraceID p) = (model (cl s), [])) (unanswered s)"
proof -
  have i: "fetch_inv S s" by (rule fetch_steps_inv [OF assms(1,2)])
  then have "mset (map (ft_request S) (pending (cl s))) = mset (map (ft_request S) (unanswered s))"
    using assms(3-6) by (simp add: fetch_inv_def under_way_msgs_def)
  then have m: "mset (pending (cl s)) = mset (unanswered s)" by (rule pending_mset [OF assms(1)])
  have "sync_ok (model (cl s)) (pending (cl s))" using i client_sync by (auto simp: fetch_inv_def)
  then show ?thesis using m mset_eq_setD [OF m] i
    by (auto simp: sync_ok_def list_all_iff requestTrace_def attempt_def Let_def list_all2_conv_all_nth fetch_inv_def)
qed

theorem fetches_answered_or_given_up_witness:
  "mset (pending (cl sample_fetch)) = {#\<lparr>gtdrpTlid = ''h'', gtdrpTraceID = ''t1''\<rparr>#}"
  using fetches_answered_or_given_up [OF sample_clone_law sample_fetch_steps sample_fetch_computed(1-4)]
  by (simp add: sample_fetch_computed)

end
