(* ===== verification/Fluid.thy ===== *)
theory Fluid
  imports Dark_Prelude
begin

text \<open>
  The expressions of the editor, \<open>libshared/FluidExpression.ml\<close> and \<open>FluidPattern.ml\<close>, and what the
  client asks of them to run a function: \<open>find\<close>, \<open>findParent\<close> and \<open>ancestors\<close>, and of
  \<open>client/src/fluid/AST.ml\<close> the arguments of a call and the position of a parameter, pipes taken into
  account. Expressions are addressed by their ids; the editor keeps the ids of a tree distinct
  (\<open>distinct_ids\<close>).
\<close>

section \<open>Expressions\<close>

datatype sendToRail = Rail | NoRail

datatype fluid_pattern =
    FPVariable string string string
  | FPConstructor string string string "fluid_pattern list"
  | FPInteger string string string
  | FPBool string string bool
  | FPString string string string
  | FPFloat string string string string
  | FPNull string string
  | FPBlank string string

datatype expr =
    EInteger string string
  | EBool string bool
  | EString string string
  | EFloat string string string
  | ENull string
  | EBlank string
  | ELet string string expr expr
  | EIf string expr expr expr
  | EBinOp string string expr expr sendToRail
  | ELambda string "(string \<times> string) list" expr
  | EFieldAccess string expr string
  | EVariable string string
  | EFnCall string string "expr list" sendToRail
  | EPartial string string expr
  | ERightPartial string string expr
  | ELeftPartial string string expr
  | EList string "expr list"
  | ERecord string "(string \<times> expr) list"
  | EPipe string "expr list"
  | EConstructor string string "expr list"
  | EMatch string expr "(fluid_pattern \<times> expr) list"
  | EPipeTarget string
  | EFeatureFlag string string expr expr expr

fun toID :: "expr \<Rightarrow> string" where
  "toID (EInteger i _) = i"
| "toID (EBool i _) = i"
| "toID (EString i _) = i"
| "toID (EFloat i _ _) = i"
| "toID (ENull i) = i"
| "toID (EBlank i) = i"
| "toID (ELet i _ _ _) = i"
| "toID (EIf i _ _ _) = i"
| "toID (EBinOp i _ _ _ _) = i"
| "toID (ELambda i _ _) = i"
| "toID (EFieldAccess i _ _) = i"
| "toID (EVariable i _) = i"
| "toID (EFnCall i _ _ _) = i"
| "toID (EPartial i _ _) = i"
| "toID (ERightPartial i _ _) = i"
| "toID (ELeftPartial i _ _) = i"
| "toID (EList i _) = i"
| "toID (ERecord i _) = i"
| "toID (EPipe i _) = i"
| "toID (EConstructor i _ _) = i"
| "toID (EMatch i _ _) = i"
| "toID (EPipeTarget i) = i"
| "toID (EFeatureFlag i _ _ _ _) = i"

fun children :: "expr \<Rightarrow> expr list" where
  "children (EPartial _ _ e) = [e]"
| "children (ERightPartial _ _ e) = [e]"
| "children (ELeftPartial _ _ e) = [e]"
| "children (ELambda _ _ e) = [e]"
| "children (EFieldAccess _ e _) = [e]"
| "children (EBinOp _ _ c0 c1 _) = [c0, c1]"
| "children (ELet _ _ c0 c1) = [c0, c1]"
| "children (EFeatureFlag _ _ c0 c1 c2) = [c0, c1, c2]"
| "children (EIf _ c0 c1 c2) = [c0, c1, c2]"
| "children (EFnCall _ _ exprs _) = exprs"
| "children (EList _ exprs) = exprs"
| "children (EConstructor _ _ exprs) = exprs"
| "children (EPipe _ exprs) = exprs"
| "children (ERecord _ pairs) = map snd pairs"
| "children (EMatch _ matchExpr cases) = matchExpr # map snd cases"
| "children _ = []"

text \<open>\<open>List.findMap\<close> and \<open>Option.orElseLazy\<close>.\<close>

fun findMap :: "('a \<Rightarrow> 'b option) \<Rightarrow> 'a list \<Rightarrow> 'b option" where
  "findMap f [] = None"
| "findMap f (x # l) = (case f x of None \<Rightarrow> findMap f l | Some r \<Rightarrow> Some r)"

lemma findMap_cong [fundef_cong]: "xs = ys \<Longrightarrow> (\<And>x. x \<in> set ys \<Longrightarrow> f x = g x) \<Longrightarrow> findMap f xs = findMap g ys"
  by (induction ys arbitrary: xs) (auto split: option.split)

definition orElse :: "'a option \<Rightarrow> 'a option \<Rightarrow> 'a option" where
  "orElse a b = (case a of None \<Rightarrow> b | Some x \<Rightarrow> Some x)"

text \<open>The smaller size of a child carries every recursion over expressions.\<close>

lemma size_elem [simp]: "x \<in> set xs \<Longrightarrow> size x < Suc (size_list size xs)"
  by (induction xs) auto

lemma size_pair [simp]: "(a, b) \<in> set xs \<Longrightarrow> size b < Suc (size_list (size_prod (\<lambda>_. 0) size) xs)"
  by (induction xs) auto

lemma size_pair_add [simp]: "(a, b) \<in> set xs \<Longrightarrow> size b < Suc (size_list (size_prod (\<lambda>_. 0) size) xs + k)"
  using size_pair [of a b xs] by (simp add: less_Suc_eq_le)

lemma children_smaller: "c \<in> set (children e) \<Longrightarrow> size c < size e"
  by (cases e) (auto simp: less_SucI)

lemma expr_induct:
  assumes "\<And>e. (\<And>c. c \<in> set (children e) \<Longrightarrow> P c) \<Longrightarrow> P e"
  shows "P e"
  using assms children_smaller by (induction e rule: measure_induct_rule [of size]) blast

section \<open>find, findParent, ancestors\<close>

function expr_find :: "string \<Rightarrow> expr \<Rightarrow> expr option" where
  "expr_find target e =
     (if toID e = target then Some e
      else case e of
        ELet _ _ rhs next \<Rightarrow> orElse (expr_find target rhs) (expr_find target next)
      | EIf _ cond ifexpr elseexpr \<Rightarrow>
          orElse (orElse (expr_find target cond) (expr_find target ifexpr)) (expr_find target elseexpr)
      | EBinOp _ _ lexpr rexpr _ \<Rightarrow> orElse (expr_find target lexpr) (expr_find target rexpr)
      | EFieldAccess _ obj _ \<Rightarrow> expr_find target obj
      | ELambda _ _ body \<Rightarrow> expr_find target body
      | ERecord _ fields \<Rightarrow> findMap (expr_find target) (map snd fields)
      | EMatch _ m pairs \<Rightarrow> orElse (expr_find target m) (findMap (expr_find target) (map snd pairs))
      | EFnCall _ _ exprs _ \<Rightarrow> findMap (expr_find target) exprs
      | EList _ exprs \<Rightarrow> findMap (expr_find target) exprs
      | EConstructor _ _ exprs \<Rightarrow> findMap (expr_find target) exprs
      | EPipe _ exprs \<Rightarrow> findMap (expr_find target) exprs
      | EPartial _ _ old \<Rightarrow> expr_find target old
      | ERightPartial _ _ old \<Rightarrow> expr_find target old
      | ELeftPartial _ _ old \<Rightarrow> expr_find target old
      | EFeatureFlag _ _ cond casea caseb \<Rightarrow>
          orElse (orElse (expr_find target cond) (expr_find target casea)) (expr_find target caseb)
      | _ \<Rightarrow> None)"
  by pat_completeness auto
termination by (relation "measure (\<lambda>(target, e). size e)") auto

declare expr_find.simps [simp del]

function findParent' :: "expr option \<Rightarrow> string \<Rightarrow> expr \<Rightarrow> expr option" where
  "findParent' parent target e =
     (if toID e = target then parent else findMap (findParent' (Some e) target) (children e))"
  by pat_completeness auto
termination by (relation "measure (\<lambda>(p, target, e). size e)") (auto intro!: children_smaller)

declare findParent'.simps [simp del]

definition findParent :: "string \<Rightarrow> expr \<Rightarrow> expr option" where
  "findParent target e = findParent' None target e"

text \<open>The ancestors of an expression, the nearest first. In the cases of \<open>EList\<close> and \<open>ERecord\<close> the code adds
  \<open>expr\<close>, the argument of the outer function, where the other cases add \<open>exp\<close>.\<close>

function rec_ancestors :: "expr \<Rightarrow> string \<Rightarrow> expr list \<Rightarrow> expr \<Rightarrow> expr list" where
  "rec_ancestors outer tofind walk e =
     (if toID e = tofind then walk
      else case e of
        EList _ exprs \<Rightarrow> concat (map (rec_ancestors outer tofind (outer # walk)) exprs)
      | ERecord _ pairs \<Rightarrow> concat (map (rec_ancestors outer tofind (outer # walk)) (map snd pairs))
      | _ \<Rightarrow> concat (map (rec_ancestors outer tofind (e # walk)) (children e)))"
  by pat_completeness auto
termination by (relation "measure (\<lambda>(r, t, w, e). size e)") auto

declare rec_ancestors.simps [simp del]

definition ancestors :: "string \<Rightarrow> expr \<Rightarrow> expr list" where
  "ancestors i outer = rec_ancestors outer i [] outer"

section \<open>Subexpressions\<close>

text \<open>The specification: the subexpressions of a tree, a node before its children.\<close>

function preorder :: "expr \<Rightarrow> expr list" where
  "preorder e = e # concat (map preorder (children e))"
  by pat_completeness auto
termination by (relation "measure size") (auto intro!: children_smaller)

declare preorder.simps [simp del]

definition distinct_ids :: "expr \<Rightarrow> bool" where
  "distinct_ids e \<longleftrightarrow> distinct (map toID (preorder e))"

abbreviation ids :: "expr \<Rightarrow> string set" where
  "ids e \<equiv> toID ` set (preorder e)"

lemma findMap_None: "findMap f xs = None \<longleftrightarrow> (\<forall>x \<in> set xs. f x = None)"
  by (induction xs) (auto split: option.split)

lemma findMap_Some: "findMap f xs = Some r \<Longrightarrow> \<exists>x \<in> set xs. f x = Some r"
  by (induction xs) (auto split: option.splits)

lemma findMap_two [simp]: "findMap f [a, b] = orElse (f a) (f b)"
  by (simp add: orElse_def split: option.split)

lemma findMap_three [simp]: "findMap f [a, b, c] = orElse (orElse (f a) (f b)) (f c)"
  by (simp add: orElse_def split: option.split)

lemma findMap_Cons: "findMap f (a # xs) = orElse (f a) (findMap f xs)"
  by (simp add: orElse_def)

lemma find_children [code]:
  "expr_find target e = (if toID e = target then Some e else findMap (expr_find target) (children e))"
  by (subst expr_find.simps)
    (simp add: orElse_def del: findMap_two findMap_three split: expr.split option.split)

lemma find_append: "List.find P (xs @ ys) = orElse (List.find P xs) (List.find P ys)"
  by (induction xs) (simp_all add: orElse_def)

lemma find_concat: "List.find P (concat xss) = findMap (List.find P) xss"
  by (induction xss) (simp_all add: find_append orElse_def)

lemma findMap_map: "findMap f (map g xs) = findMap (\<lambda>x. f (g x)) xs"
  by (induction xs) (simp_all cong: option.case_cong)

lemma find_preorder: "expr_find target e = List.find (\<lambda>x. toID x = target) (preorder e)"
proof (induction e rule: expr_induct)
  case (1 e)
  have "findMap (expr_find target) (children e) = findMap (\<lambda>c. List.find (\<lambda>x. toID x = target) (preorder c)) (children e)"
    using 1 by (rule findMap_cong [OF refl])
  then show ?case by (simp add: find_children [of target e] preorder.simps [of e] find_concat findMap_map)
qed

lemma preorder_self [simp]: "e \<in> set (preorder e)"
  by (subst preorder.simps) simp

lemma preorder_iff: "x \<in> set (preorder e) \<longleftrightarrow> x = e \<or> (\<exists>c \<in> set (children e). x \<in> set (preorder c))"
  by (subst preorder.simps) auto

lemma ids_iff: "t \<in> ids e \<longleftrightarrow> t = toID e \<or> (\<exists>c \<in> set (children e). t \<in> ids c)"
  by (subst preorder.simps) auto

lemma preorder_trans: "x \<in> set (preorder y) \<Longrightarrow> y \<in> set (preorder e) \<Longrightarrow> x \<in> set (preorder e)"
proof (induction e rule: expr_induct)
  case (1 e)
  then show ?case using preorder_iff [of y e] preorder_iff [of x e] by auto
qed

lemma preorder_size: "x \<in> set (preorder e) \<Longrightarrow> size x \<le> size e"
proof (induction e rule: expr_induct)
  case (1 e)
  then show ?case using preorder_iff [of x e] children_smaller [of _ e] by fastforce
qed

lemma child_preorder: "c \<in> set (children p) \<Longrightarrow> p \<in> set (preorder e) \<Longrightarrow> c \<in> set (preorder e)"
  using preorder_trans [of c p e] preorder_iff [of c p] preorder_self [of c] by blast

lemma distinct_trees:
  "distinct (concat (map (\<lambda>c. map toID (preorder c)) cs)) \<Longrightarrow> distinct (map toID cs)
    \<and> (\<forall>c \<in> set cs. \<forall>d \<in> set cs. \<forall>i. i \<in> ids c \<longrightarrow> i \<in> ids d \<longrightarrow> c = d)"
proof (induction cs)
  case (Cons a cs)
  have a: "i \<notin> ids c" if "c \<in> set cs" "i \<in> ids a" for c i using Cons.prems that by auto
  have i: "toID c \<in> ids c" for c by simp
  have "toID a \<notin> toID ` set cs" using a i by (metis image_iff)
  moreover have "\<forall>c \<in> set (a # cs). \<forall>d \<in> set (a # cs). \<forall>i. i \<in> ids c \<longrightarrow> i \<in> ids d \<longrightarrow> c = d"
  proof (intro ballI allI impI)
    fix c d i assume "c \<in> set (a # cs)" "d \<in> set (a # cs)" and m: "i \<in> ids c" "i \<in> ids d"
    then consider "c = a" "d = a" | "c = a" "d \<in> set cs" | "c \<in> set cs" "d = a" | "c \<in> set cs" "d \<in> set cs" by auto
    then show "c = d" using a m Cons by cases (simp | blast)+
  qed
  ultimately show ?case using Cons by simp
qed simp

lemma distinct_children:
  assumes "distinct_ids e"
  shows "distinct (map toID (children e))" and "c \<in> set (children e) \<Longrightarrow> distinct_ids c"
    and "c \<in> set (children e) \<Longrightarrow> toID e \<notin> ids c"
    and "c \<in> set (children e) \<Longrightarrow> d \<in> set (children e) \<Longrightarrow> i \<in> ids c \<Longrightarrow> i \<in> ids d \<Longrightarrow> c = d"
proof -
  have d: "distinct (toID e # concat (map (\<lambda>c. map toID (preorder c)) (children e)))"
    using assms unfolding distinct_ids_def by (subst (asm) preorder.simps) (simp add: map_concat comp_def)
  then show "c \<in> set (children e) \<Longrightarrow> distinct_ids c" and "c \<in> set (children e) \<Longrightarrow> toID e \<notin> ids c"
    by (auto simp: distinct_concat_iff distinct_ids_def)
  have p: "distinct (map toID (children e))
    \<and> (\<forall>c \<in> set (children e). \<forall>d \<in> set (children e). \<forall>i. i \<in> ids c \<longrightarrow> i \<in> ids d \<longrightarrow> c = d)"
    using d by (intro distinct_trees) simp
  then show "distinct (map toID (children e))" by blast
  show "c \<in> set (children e) \<Longrightarrow> d \<in> set (children e) \<Longrightarrow> i \<in> ids c \<Longrightarrow> i \<in> ids d \<Longrightarrow> c = d" using p by blast
qed

lemma find_Some: "expr_find target e = Some x \<Longrightarrow> x \<in> set (preorder e) \<and> toID x = target"
  unfolding find_preorder by (auto simp: find_Some_iff)

lemma find_None: "expr_find target e = None \<longleftrightarrow> target \<notin> ids e"
  unfolding find_preorder by (auto simp: find_None_iff)

lemma distinct_ids_inj: "distinct_ids e \<Longrightarrow> x \<in> set (preorder e) \<Longrightarrow> y \<in> set (preorder e) \<Longrightarrow> toID x = toID y \<Longrightarrow> x = y"
  unfolding distinct_ids_def distinct_map by (auto dest: inj_onD)

lemma find_distinct: "distinct_ids e \<Longrightarrow> expr_find target e = Some x \<longleftrightarrow> x \<in> set (preorder e) \<and> toID x = target"
  using find_Some [of target e] find_None [of target e] distinct_ids_inj [of e]
  by (cases "expr_find target e") auto

lemma distinct_sub: "distinct_ids e \<Longrightarrow> x \<in> set (preorder e) \<Longrightarrow> distinct_ids x"
proof (induction e rule: expr_induct)
  case (1 e)
  then show ?case using distinct_children(2) [OF 1(2)] preorder_iff [of x e] by blast
qed

text \<open>The parent of a node.\<close>

definition is_parent :: "expr \<Rightarrow> string \<Rightarrow> expr \<Rightarrow> bool" where
  "is_parent p target e \<longleftrightarrow> p \<in> set (preorder e) \<and> target \<in> toID ` set (children p)"

lemma is_parent_cases:
  "is_parent p target e \<longleftrightarrow> p = e \<and> target \<in> toID ` set (children e) \<or> (\<exists>c \<in> set (children e). is_parent p target c)"
  unfolding is_parent_def using preorder_iff [of p e] by blast

lemma is_parent_ids: "is_parent p target e \<Longrightarrow> target \<in> ids e"
  unfolding is_parent_def using child_preorder [of _ p e] by blast

lemma parent_unique:
  assumes "distinct_ids e" "is_parent p target e" "is_parent q target e"
  shows "p = q"
  using assms
proof (induction e rule: expr_induct)
  case (1 e)
  note d = distinct_children [OF 1(2)]
  have own: "x = e" if x: "is_parent x target e" and "c \<in> set (children e)" "toID c = target" for x c
  proof (rule ccontr)
    assume "x \<noteq> e"
    then obtain c' where c': "c' \<in> set (children e)" "is_parent x target c'" using x is_parent_cases [of x target e] by blast
    have "target \<in> ids c" using that(3) preorder_self [of c] by blast
    then have "c' = c" using d(4) [OF c'(1) that(2) is_parent_ids [OF c'(2)]] by blast
    then have "is_parent x (toID c) c" using c'(2) that(3) by simp
    then obtain y where y: "x \<in> set (preorder c)" "y \<in> set (children x)" "toID y = toID c"
      unfolding is_parent_def by force
    have "y \<in> set (preorder c)" using child_preorder y by blast
    then have "y = c" using distinct_ids_inj [OF d(2) [OF that(2)]] y(3) by auto
    then have "size c < size x" using children_smaller y(2) by simp
    then show False using preorder_size [OF y(1)] by simp
  qed
  show ?case
  proof (cases "target \<in> toID ` set (children e)")
    case True
    then obtain c where c: "c \<in> set (children e)" "toID c = target" by auto
    show ?thesis using own [OF 1(3) c] own [OF 1(4) c] by simp
  next
    case False
    then obtain c c' where c: "c \<in> set (children e)" "is_parent p target c" "c' \<in> set (children e)" "is_parent q target c'"
      using 1(3,4) is_parent_cases by metis
    have "c' = c" using d(4) [OF c(3) c(1) is_parent_ids [OF c(4)] is_parent_ids [OF c(2)]] .
    then show ?thesis using 1(1) [OF c(1) d(2) [OF c(1)] c(2)] c(4) by simp
  qed
qed

lemma findParent'_Some: "findParent' par t e = Some p \<Longrightarrow> toID e = t \<and> par = Some p \<or> is_parent p t e"
proof (induction e arbitrary: par rule: expr_induct)
  case (1 e)
  show ?case
  proof (cases "toID e = t")
    case False
    then have "findMap (findParent' (Some e) t) (children e) = Some p"
      using 1(2) by (simp add: findParent'.simps [of par])
    then obtain c where c: "c \<in> set (children e)" "findParent' (Some e) t c = Some p" using findMap_Some by metis
    from 1(1) [OF this] show ?thesis using c(1) by (subst is_parent_cases) auto
  qed (use 1(2) in \<open>simp add: findParent'.simps [of par]\<close>)
qed

lemma findParent'_found: "t \<in> ids e \<Longrightarrow> findParent' (Some q) t e \<noteq> None"
proof (induction e arbitrary: q rule: expr_induct)
  case (1 e)
  show ?case
  proof (cases "toID e = t")
    case False
    then obtain c where "c \<in> set (children e)" "t \<in> ids c" using 1(2) preorder_iff [of _ e] by auto
    with 1(1) [OF this, of e] have "findMap (findParent' (Some e) t) (children e) \<noteq> None"
      by (metis findMap_None)
    then show ?thesis using False by (simp add: findParent'.simps [of _ _ e])
  qed (simp add: findParent'.simps [of _ _ e])
qed

lemma findParent_iff:
  assumes "distinct_ids e"
  shows "findParent t e = Some p \<longleftrightarrow> is_parent p t e"
proof
  assume "findParent t e = Some p"
  then show "is_parent p t e" unfolding findParent_def using findParent'_Some [of None t e p] by simp
next
  assume p: "is_parent p t e"
  then obtain c where c: "c \<in> set (children e)" "t \<in> ids c"
    using is_parent_cases [of p t e] is_parent_ids preorder_self by (metis image_iff)
  then have t: "toID e \<noteq> t" using distinct_children(3) [OF assms c(1)] by blast
  have "findMap (findParent' (Some e) t) (children e) \<noteq> None"
    using findParent'_found [OF c(2), of e] c(1) by (metis findMap_None)
  then obtain q where q: "findParent t e = Some q"
    using t by (auto simp: findParent_def findParent'.simps [of None])
  then have "is_parent q t e" unfolding findParent_def using findParent'_Some [of None t e q] by simp
  then show "findParent t e = Some p" using parent_unique [OF assms _ p] q by blast
qed

text \<open>The specification of the ancestors: the chain of parents up to the root.\<close>

fun parent_chain :: "expr \<Rightarrow> string \<Rightarrow> expr list \<Rightarrow> bool" where
  "parent_chain e t [] \<longleftrightarrow> t = toID e"
| "parent_chain e t (a # p) \<longleftrightarrow> findParent t e = Some a \<and> parent_chain e (toID a) p"

text \<open>What \<open>ancestors\<close> returns for an ancestor.\<close>

definition reported :: "expr \<Rightarrow> expr \<Rightarrow> expr" where
  "reported outer e = (case e of EList _ _ \<Rightarrow> outer | ERecord _ _ \<Rightarrow> outer | _ \<Rightarrow> e)"

lemma rec_ancestors_reported:
  "rec_ancestors outer t w e =
     (if toID e = t then w else concat (map (rec_ancestors outer t (reported outer e # w)) (children e)))"
  by (subst rec_ancestors.simps) (simp add: reported_def split: expr.split)

lemma parent_chain_child:
  assumes "distinct_ids e" "c \<in> set (children e)"
  shows "parent_chain c t p \<Longrightarrow> parent_chain e t (p @ [e])"
proof (induction p arbitrary: t)
  case Nil
  then show ?case using assms by (simp add: findParent_iff is_parent_def)
next
  case (Cons a p)
  have "is_parent a t c" using Cons.prems findParent_iff [OF distinct_children(2) [OF assms]] by simp
  then have "is_parent a t e" using is_parent_cases [of a t e] assms(2) by blast
  then show ?case using Cons findParent_iff [OF assms(1)] by simp
qed

lemma concat_one:
  assumes "distinct cs" "c \<in> set cs" "\<And>d. d \<in> set cs \<Longrightarrow> d \<noteq> c \<Longrightarrow> f d = []"
  shows "concat (map f cs) = f c"
proof -
  obtain xs ys where cs: "cs = xs @ c # ys" using assms(2) by (metis split_list)
  then have "\<forall>x \<in> set (xs @ ys). f x = []" using assms(1,3) by auto
  then have "concat (map f xs) = []" "concat (map f ys) = []" unfolding concat_eq_Nil_conv by auto
  then show ?thesis using cs by (simp del: concat_eq_Nil_conv)
qed

lemma rec_ancestors_chain:
  assumes "distinct_ids e"
  shows "(t \<notin> ids e \<longrightarrow> rec_ancestors outer t w e = [])
    \<and> (t \<in> ids e \<longrightarrow> (\<exists>p. parent_chain e t p \<and> rec_ancestors outer t w e = map (reported outer) p @ w))"
  using assms
proof (induction e arbitrary: w rule: expr_induct)
  case (1 e)
  note d = distinct_children [OF 1(2)]
  let ?f = "rec_ancestors outer t (reported outer e # w)"
  have out: "?f c = []" if "c \<in> set (children e)" "t \<notin> ids c" for c
    using 1(1) [OF that(1) d(2) [OF that(1)]] that(2) by blast
  consider "toID e = t" | c where "toID e \<noteq> t" "c \<in> set (children e)" "t \<in> ids c"
    | "toID e \<noteq> t" "\<forall>c \<in> set (children e). t \<notin> ids c" by blast
  then show ?case
  proof cases
    case 1
    then have "parent_chain e t [] \<and> rec_ancestors outer t w e = map (reported outer) [] @ w"
      by (simp add: rec_ancestors_reported [of outer t w e])
    moreover have "t \<in> ids e" using 1 unfolding ids_iff [of t e] by simp
    ultimately show ?thesis by blast
  next
    case 2
    obtain p where p: "parent_chain c t p" "?f c = map (reported outer) p @ reported outer e # w"
      using 1(1) [OF 2(2) d(2) [OF 2(2)], of "reported outer e # w"] 2(3) by blast
    have "?f d = []" if "d \<in> set (children e)" "d \<noteq> c" for d
      using out [OF that(1)] d(4) [OF that(1) 2(2) _ 2(3)] that(2) by blast
    then have "concat (map ?f (children e)) = ?f c"
      using concat_one [of "children e" c ?f] d(1) 2(2) by (simp add: distinct_map)
    then have r: "rec_ancestors outer t w e = map (reported outer) (p @ [e]) @ w"
      using 2(1) p(2) by (simp add: rec_ancestors_reported [of outer t w e])
    have "t \<in> ids e" using 2 unfolding ids_iff [of t e] by blast
    then show ?thesis using r parent_chain_child [OF 1(2) 2(2) p(1)] by blast
  next
    case 3
    then have "t \<notin> ids e" unfolding ids_iff [of t e] by simp
    moreover have "rec_ancestors outer t w e = []"
      using 3 out by (simp add: rec_ancestors_reported [of outer t w e])
    ultimately show ?thesis by blast
  qed
qed

section \<open>Pipes, arguments and parameters\<close>

text \<open>\<open>List.elemIndex\<close>, \<open>List.findIndex\<close> and \<open>List.getAt\<close>, which is \<open>None\<close> out of range: list functions
  of Tablecloth, as documented.\<close>

fun findIndex :: "('a \<Rightarrow> bool) \<Rightarrow> 'a list \<Rightarrow> int option" where
  "findIndex P [] = None"
| "findIndex P (x # xs) = (if P x then Some 0 else map_option (\<lambda>i. i + 1) (findIndex P xs))"

definition elemIndex :: "'a \<Rightarrow> 'a list \<Rightarrow> int option" where
  "elemIndex v xs = findIndex (\<lambda>x. x = v) xs"

definition getAt :: "int \<Rightarrow> 'a list \<Rightarrow> 'a option" where
  "getAt i xs = (if 0 \<le> i \<and> i < int (length xs) then Some (xs ! nat i) else None)"

definition listPrevious :: "'a \<Rightarrow> 'a list \<Rightarrow> 'a option" where
  "listPrevious v l = Option.bind (map_option (\<lambda>x. x - 1) (elemIndex v l)) (\<lambda>i. getAt i l)"

definition listNext :: "'a \<Rightarrow> 'a list \<Rightarrow> 'a option" where
  "listNext v l = Option.bind (map_option (\<lambda>x. x + 1) (elemIndex v l)) (\<lambda>i. getAt i l)"

definition pipePrevious :: "string \<Rightarrow> expr \<Rightarrow> expr option" where
  "pipePrevious i ast =
     (case findParent i ast of
        Some (EPipe _ exprs) \<Rightarrow> Option.bind (List.find (\<lambda>e. toID e = i) exprs) (\<lambda>value. listPrevious value exprs)
      | _ \<Rightarrow> None)"

definition pipeNext :: "string \<Rightarrow> expr \<Rightarrow> expr option" where
  "pipeNext i ast =
     (case findParent i ast of
        Some (EPipe _ exprs) \<Rightarrow> Option.bind (List.find (\<lambda>e. toID e = i) exprs) (\<lambda>value. listNext value exprs)
      | _ \<Rightarrow> None)"

definition default_args :: "expr option \<Rightarrow> expr list" where
  "default_args caller =
     (case caller of Some (EFnCall _ _ args _) \<Rightarrow> args | Some (EBinOp _ _ arg0 arg1 _) \<Rightarrow> [arg0, arg1] | _ \<Rightarrow> [])"

definition getArguments :: "string \<Rightarrow> expr \<Rightarrow> expr list" where
  "getArguments i ast =
     (case (pipePrevious i ast, default_args (expr_find i ast)) of
        (Some previous, EPipeTarget _ # rest) \<Rightarrow> previous # rest
      | (_, defaultArgs) \<Rightarrow> defaultArgs)"

definition getParamIndex :: "string \<Rightarrow> expr \<Rightarrow> (string \<times> int) option" where
  "getParamIndex i ast =
     (case orElse (pipeNext i ast) (findParent i ast) of
        Some (EFnCall fnID name _ _) \<Rightarrow>
          map_option (\<lambda>index. (name, index)) (findIndex (\<lambda>e. toID e = i) (getArguments fnID ast))
      | Some (EBinOp fnID name _ _ _) \<Rightarrow>
          map_option (\<lambda>index. (name, index)) (findIndex (\<lambda>e. toID e = i) (getArguments fnID ast))
      | _ \<Rightarrow> None)"

lemma findIndex_nth:
  "n < length xs \<Longrightarrow> P (xs ! n) \<Longrightarrow> (\<And>m. m < n \<Longrightarrow> \<not> P (xs ! m)) \<Longrightarrow> findIndex P xs = Some (int n)"
proof (induction xs arbitrary: n)
  case (Cons x xs)
  show ?case
  proof (cases n)
    case 0
    then show ?thesis using Cons.prems(2) by simp
  next
    case (Suc k)
    have "findIndex P xs = Some (int k)"
      using Cons.prems Suc by (intro Cons.IH) fastforce+
    then show ?thesis using Cons.prems(3) [of 0] Suc by simp
  qed
qed simp

lemma findIndex_distinct:
  assumes "distinct (map f xs)" "n < length xs"
  shows "findIndex (\<lambda>x. f x = f (xs ! n)) xs = Some (int n)"
  using assms by (intro findIndex_nth) (auto simp: distinct_conv_nth)

lemma elemIndex_distinct: "distinct xs \<Longrightarrow> n < length xs \<Longrightarrow> elemIndex (xs ! n) xs = Some (int n)"
  unfolding elemIndex_def using findIndex_distinct [of "\<lambda>x. x" xs n] by simp

lemma findIndex_Some: "findIndex P xs = Some i \<Longrightarrow> \<exists>n < length xs. i = int n \<and> P (xs ! n)"
proof (induction xs arbitrary: i)
  case (Cons x xs)
  show ?case
  proof (cases "P x")
    case False
    then obtain j where "findIndex P xs = Some j" "i = j + 1" using Cons.prems by auto
    then obtain n where "n < length xs" "i = int (Suc n)" "P (xs ! n)" using Cons.IH by auto
    then show ?thesis by (intro exI [of _ "Suc n"]) simp
  qed (use Cons.prems in auto)
qed simp

lemma listNext_nth: "distinct xs \<Longrightarrow> Suc n < length xs \<Longrightarrow> listNext (xs ! n) xs = Some (xs ! Suc n)"
  by (simp add: listNext_def elemIndex_distinct getAt_def nat_add_distrib)

lemma listPrevious_nth:
  assumes "listPrevious v xs = Some u"
  shows "\<exists>n. Suc n < length xs \<and> xs ! n = u \<and> xs ! Suc n = v"
proof -
  obtain i where i: "findIndex (\<lambda>x. x = v) xs = Some i" "getAt (i - 1) xs = Some u"
    using assms by (auto simp: listPrevious_def elemIndex_def bind_eq_Some_conv)
  obtain k where k: "k < length xs" "i = int k" "xs ! k = v" using findIndex_Some [OF i(1)] by auto
  have "0 < k" using i(2) k(2) by (auto simp: getAt_def split: if_splits)
  then obtain n where "k = Suc n" by (cases k) auto
  then show ?thesis using i(2) k by (intro exI [of _ n]) (auto simp: getAt_def split: if_splits)
qed

lemma find_by_id:
  assumes "distinct (map toID es)" "e \<in> set es"
  shows "List.find (\<lambda>x. toID x = toID e) es = Some e"
  using assms by (induction es) auto

lemma pipe_children: "is_parent (EPipe k exprs) i ast \<Longrightarrow> distinct_ids ast \<Longrightarrow> distinct (map toID exprs)"
  using distinct_children(1) [of "EPipe k exprs"] distinct_sub [of ast "EPipe k exprs"]
  by (simp add: is_parent_def)

text \<open>Where the first argument of a piped call comes from.\<close>

lemma pipePrevious_Some:
  assumes "distinct_ids ast" "pipePrevious i ast = Some u"
  shows "\<exists>k exprs n. is_parent (EPipe k exprs) i ast \<and> Suc n < length exprs \<and> exprs ! n = u \<and> toID (exprs ! Suc n) = i"
proof -
  obtain k exprs v where p: "findParent i ast = Some (EPipe k exprs)" and v: "List.find (\<lambda>e. toID e = i) exprs = Some v"
      "listPrevious v exprs = Some u"
    using assms(2) by (auto simp: pipePrevious_def bind_eq_Some_conv split: option.splits expr.splits)
  obtain n where "Suc n < length exprs" "exprs ! n = u" "exprs ! Suc n = v" using listPrevious_nth [OF v(2)] by blast
  moreover have "toID v = i" using v(1) by (auto simp: find_Some_iff)
  ultimately show ?thesis using p findParent_iff [OF assms(1)] by blast
qed

lemma pipeNext_nth:
  assumes "distinct_ids ast" "EPipe k exprs \<in> set (preorder ast)" "Suc n < length exprs"
  shows "pipeNext (toID (exprs ! n)) ast = Some (exprs ! Suc n)"
proof -
  have p: "is_parent (EPipe k exprs) (toID (exprs ! n)) ast" using assms(2,3) by (simp add: is_parent_def)
  note d = pipe_children [OF p assms(1)]
  have "List.find (\<lambda>e. toID e = toID (exprs ! n)) exprs = Some (exprs ! n)"
    using find_by_id [OF d] assms(3) by simp
  moreover have "distinct exprs" using d by (simp add: distinct_map)
  moreover have "findParent (toID (exprs ! n)) ast = Some (EPipe k exprs)" using p findParent_iff [OF assms(1)] by blast
  ultimately show ?thesis using assms(3) by (simp add: pipeNext_def listNext_nth)
qed

lemma getArguments_shape:
  "getArguments i ast = default_args (expr_find i ast)
   \<or> (\<exists>u t rest. pipePrevious i ast = Some u \<and> default_args (expr_find i ast) = EPipeTarget t # rest
        \<and> getArguments i ast = u # rest)"
  by (auto simp: getArguments_def split: option.split list.split expr.split)

definition calls :: "expr \<Rightarrow> string \<Rightarrow> bool" where
  "calls e name \<longleftrightarrow> (case e of EFnCall _ n _ _ \<Rightarrow> n = name | EBinOp _ n _ _ _ \<Rightarrow> n = name | _ \<Rightarrow> False)"

lemma calls_args: "calls e name \<Longrightarrow> default_args (Some e) = children e"
  by (cases e) (auto simp: calls_def default_args_def)

text \<open>The arguments of a call are expressions with distinct ids.\<close>

lemma getArguments_distinct:
  assumes "distinct_ids ast" "expr_find i ast = Some call" "calls call name"
  shows "distinct (map toID (getArguments i ast))"
proof -
  have c: "call \<in> set (preorder ast)" "toID call = i" using find_Some assms(2) by blast+
  have d: "distinct (map toID (children call))" using distinct_children(1) distinct_sub [OF assms(1) c(1)] by blast
  consider "getArguments i ast = children call" | u t rest where "pipePrevious i ast = Some u"
      "children call = EPipeTarget t # rest" "getArguments i ast = u # rest"
    using getArguments_shape [of i ast] calls_args [OF assms(3)] assms(2) by auto
  then show ?thesis
  proof cases
    case 2
    obtain k exprs n where p: "is_parent (EPipe k exprs) i ast" "Suc n < length exprs" "exprs ! n = u"
      using pipePrevious_Some [OF assms(1) 2(1)] by blast
    have "is_parent (EPipe k exprs) (toID u) ast" using p by (auto simp: is_parent_def)
    then have "\<not> is_parent call (toID u) ast"
      using parent_unique [OF assms(1)] assms(3) by (fastforce simp: calls_def)
    then have "toID u \<notin> toID ` set rest" using c(1) 2(2) by (auto simp: is_parent_def)
    then show ?thesis using d 2 by simp
  qed (use d in simp)
qed

lemma parentNext_of_argument:
  assumes "distinct_ids ast" "expr_find i ast = Some call" "calls call name" "n < length (getArguments i ast)"
  shows "orElse (pipeNext (toID (getArguments i ast ! n)) ast) (findParent (toID (getArguments i ast ! n)) ast) = Some call"
proof -
  have c: "call \<in> set (preorder ast)" "toID call = i" using find_Some assms(2) by blast+
  have own: "orElse (pipeNext (toID a) ast) (findParent (toID a) ast) = Some call" if "a \<in> set (children call)" for a
  proof -
    have "findParent (toID a) ast = Some call" using that c(1) findParent_iff [OF assms(1)] by (simp add: is_parent_def)
    then show ?thesis using assms(3) by (auto simp: orElse_def pipeNext_def calls_def split: expr.splits)
  qed
  consider "getArguments i ast = children call" | u t rest where "pipePrevious i ast = Some u"
      "children call = EPipeTarget t # rest" "getArguments i ast = u # rest"
    using getArguments_shape [of i ast] calls_args [OF assms(3)] assms(2) by auto
  then show ?thesis
  proof cases
    case 1
    then show ?thesis using own assms(4) by simp
  next
    case 2
    show ?thesis
    proof (cases n)
      case 0
      obtain k exprs m where p: "is_parent (EPipe k exprs) i ast" "Suc m < length exprs" "exprs ! m = u" "toID (exprs ! Suc m) = i"
        using pipePrevious_Some [OF assms(1) 2(1)] by blast
      have pi: "EPipe k exprs \<in> set (preorder ast)" using p(1) by (simp add: is_parent_def)
      have "exprs ! Suc m \<in> set (preorder ast)" using child_preorder [OF _ pi, of "exprs ! Suc m"] p(2) by simp
      then have "exprs ! Suc m = call" using distinct_ids_inj [OF assms(1) _ c(1)] p(4) c(2) by simp
      then show ?thesis using pipeNext_nth [OF assms(1) pi p(2)] p(3) 2(3) 0 by (simp add: orElse_def)
    next
      case (Suc m)
      then show ?thesis using own [of "rest ! m"] 2 assms(4) by simp
    qed
  qed
qed

section \<open>Properties\<close>

text \<open>In a tree with distinct ids \<open>find\<close> returns the one expression with the id, wherever it is, and
  \<open>findParent\<close> the one expression that has it as a child; for an id that does not occur, and for the
  root, there is none.\<close>

theorem find_and_parent:
  assumes "distinct_ids ast"
  shows "(expr_find i ast = Some e \<longleftrightarrow> e \<in> set (preorder ast) \<and> toID e = i)
    \<and> (findParent i ast = Some p \<longleftrightarrow> p \<in> set (preorder ast) \<and> (\<exists>c. c \<in> set (children p) \<and> toID c = i))"
  using find_distinct [OF assms] findParent_iff [OF assms] by (auto simp: is_parent_def)

text \<open>\<open>let l = [v, 2] in f x\<close>, and \<open>1 |> f 2 |> g\<close>.\<close>

definition sample_let :: expr where
  "sample_let = ELet ''1'' ''l'' (EList ''2'' [EVariable ''3'' ''v'', EInteger ''4'' ''2'']) (EFnCall ''5'' ''f'' [EVariable ''6'' ''x''] NoRail)"

definition sample_pipe :: expr where
  "sample_pipe = EPipe ''1'' [EInteger ''2'' ''1'', EFnCall ''3'' ''f'' [EPipeTarget ''4'', EInteger ''5'' ''2''] NoRail,
     EFnCall ''6'' ''g'' [EPipeTarget ''7''] NoRail]"

lemma sample_distinct: "distinct_ids sample_let" "distinct_ids sample_pipe"
  by (simp_all add: distinct_ids_def sample_let_def sample_pipe_def preorder.simps)

theorem find_and_parent_witness:
  "expr_find ''3'' sample_let = Some (EVariable ''3'' ''v'')
   \<and> findParent ''3'' sample_let = Some (EList ''2'' [EVariable ''3'' ''v'', EInteger ''4'' ''2''])"
  using find_and_parent [OF sample_distinct(1), of "''3''" "EVariable ''3'' ''v''" "EList ''2'' [EVariable ''3'' ''v'', EInteger ''4'' ''2'']"]
  by (auto simp: sample_let_def preorder.simps intro: toID.simps)

text \<open>C38: \<open>ancestors\<close> returns the chain of parents from the expression up to the root, but for its lists and
  records: in place of each of these it returns the root.\<close>

theorem ancestors_spec:
  assumes "distinct_ids ast" and "expr_find i ast = Some e"
  shows "\<exists>p. parent_chain ast i p
    \<and> ancestors i ast = map (\<lambda>a. case a of EList _ _ \<Rightarrow> ast | ERecord _ _ \<Rightarrow> ast | _ \<Rightarrow> a) p"
proof -
  have "i \<in> ids ast" using find_Some [OF assms(2)] by blast
  then obtain p where "parent_chain ast i p" "ancestors i ast = map (reported ast) p"
    unfolding ancestors_def using rec_ancestors_chain [OF assms(1), of i ast "[]"] by auto
  then show ?thesis unfolding reported_def by blast
qed

theorem ancestors_spec_witness:
  "ancestors ''3'' sample_let = [sample_let, sample_let]
   \<and> (\<exists>p. parent_chain sample_let ''3'' p \<and> length p = length (ancestors ''3'' sample_let))"
proof -
  have "expr_find ''3'' sample_let = Some (EVariable ''3'' ''v'')" by code_simp
  from ancestors_spec [OF sample_distinct(1) this] obtain p where p: "parent_chain sample_let ''3'' p"
    "ancestors ''3'' sample_let = map (\<lambda>a. case a of EList _ _ \<Rightarrow> sample_let | ERecord _ _ \<Rightarrow> sample_let | _ \<Rightarrow> a) p" by blast
  have "length p = length (ancestors ''3'' sample_let)" unfolding p(2) by simp
  moreover have "ancestors ''3'' sample_let = [sample_let, sample_let]" by code_simp
  ultimately show ?thesis using p(1) by blast
qed

text \<open>C16: The arguments of a call and the parameter positions are inverse, through pipes too: every
  expression that \<open>getArguments\<close> returns for a call is found by \<open>getParamIndex\<close> as the argument of that
  call, at its place; and there are as many as the call has places.\<close>

theorem argument_positions:
  assumes "distinct_ids ast" and "expr_find i ast = Some call" and "calls call name"
  shows "length (getArguments i ast) = length (children call)
    \<and> (\<forall>n < length (children call). getParamIndex (toID (getArguments i ast ! n)) ast = Some (name, int n))"
proof -
  have l: "length (getArguments i ast) = length (children call)"
    using getArguments_shape [of i ast] calls_args [OF assms(3)] assms(2) by auto
  have i: "toID call = i" using find_Some [OF assms(2)] by blast
  have "getParamIndex (toID (getArguments i ast ! n)) ast = Some (name, int n)" if "n < length (getArguments i ast)" for n
    unfolding getParamIndex_def parentNext_of_argument [OF assms that]
    using findIndex_distinct [OF getArguments_distinct [OF assms] that] assms(3) i
    by (cases call) (auto simp: calls_def)
  then show ?thesis using l by simp
qed

theorem argument_positions_witness:
  "getArguments ''3'' sample_pipe = [EInteger ''2'' ''1'', EInteger ''5'' ''2'']
   \<and> getParamIndex ''2'' sample_pipe = Some (''f'', 0) \<and> getParamIndex ''5'' sample_pipe = Some (''f'', 1)"
proof -
  let ?call = "EFnCall ''3'' ''f'' [EPipeTarget ''4'', EInteger ''5'' ''2''] NoRail"
  have f: "expr_find ''3'' sample_pipe = Some ?call" by code_simp
  have g: "getArguments ''3'' sample_pipe = [EInteger ''2'' ''1'', EInteger ''5'' ''2'']" by code_simp
  have "calls ?call ''f''" by (simp add: calls_def)
  from argument_positions [OF sample_distinct(2) f this]
  have n: "\<forall>n < 2. getParamIndex (toID (getArguments ''3'' sample_pipe ! n)) sample_pipe = Some (''f'', int n)" by simp
  from n [rule_format, of 0] n [rule_format, of 1] show ?thesis by (simp add: g)
qed

end
