(* ===== verification/FluidScope.thy ===== *)
theory FluidScope
  imports Fluid
begin

text \<open>
  Variables in the editor, \<open>client/src/fluid/AST.ml\<close>: the symbol table of every expression
  (\<open>variablesIn\<close>, from which the client offers the names in scope with their live values), the uses of a
  name and the free variables of an expression.
\<close>

section \<open>Symbol tables\<close>

type_synonym sym_set = "string \<rightharpoonup> string"

text \<open>The variables a pattern binds, with the ids of their places.\<close>

fun variablesInPattern :: "fluid_pattern \<Rightarrow> (string \<times> string) list" where
  "variablesInPattern (FPVariable _ patternID v) = [(patternID, v)]"
| "variablesInPattern (FPConstructor _ _ _ inner) = concat (map variablesInPattern inner)"
| "variablesInPattern _ = []"

definition bind_all :: "(string \<times> string) list \<Rightarrow> sym_set \<Rightarrow> sym_set" where
  "bind_all vars st = foldl (\<lambda>d (i, varname). d(varname \<mapsto> i)) st vars"

text \<open>The recursive calls of \<open>sym_exec\<close>, with the tables they get, in the order of the code.\<close>

fun scoped :: "sym_set \<Rightarrow> expr \<Rightarrow> (sym_set \<times> expr) list" where
  "scoped st (ELet _ lhs rhs body) = [(st, rhs), (if lhs \<noteq> [] then st(lhs \<mapsto> toID rhs) else st, body)]"
| "scoped st (EIf _ cond ifbody elsebody) = [(st, cond), (st, ifbody), (st, elsebody)]"
| "scoped st (EFeatureFlag _ _ cond elsebody ifbody) = [(st, cond), (st, ifbody), (st, elsebody)]"
| "scoped st (ELambda _ vars body) = [(bind_all vars st, body)]"
| "scoped st (EMatch _ matchExpr cases) =
     (st, matchExpr) # map (\<lambda>(p, caseExpr). (bind_all (variablesInPattern p) st, caseExpr)) cases"
| "scoped st e = map (\<lambda>c. (st, c)) (children e)"

lemma scoped_children: "set (map snd (scoped st e)) = set (children e)"
  by (cases e) (simp_all add: case_prod_beta image_image insert_commute)

lemma scoped_smaller: "(st', c) \<in> set (scoped st e) \<Longrightarrow> size c < size e"
  using scoped_children [of st e] children_smaller [of c e] by force

text \<open>The calls of \<open>trace\<close>.\<close>

function sym_exec :: "sym_set \<Rightarrow> expr \<Rightarrow> (string \<times> sym_set) list" where
  "sym_exec st e = concat (map (\<lambda>(st', c). sym_exec st' c) (scoped st e)) @ [(toID e, st)]"
  by pat_completeness auto
termination by (relation "measure (\<lambda>(st, e). size e)") (auto dest: scoped_smaller)

declare sym_exec.simps [simp del]

definition variablesIn :: "expr \<Rightarrow> string \<rightharpoonup> sym_set" where
  "variablesIn ast = map_of (rev (sym_exec (\<lambda>_. None) ast))"

section \<open>Uses and free variables\<close>

fun variableNames :: "fluid_pattern \<Rightarrow> string list" where
  "variableNames (FPVariable _ _ name) = [name]"
| "variableNames (FPConstructor _ _ _ patterns) = concat (map variableNames patterns)"
| "variableNames _ = []"

definition isDefinitionOf :: "string \<Rightarrow> expr \<Rightarrow> bool" where
  "isDefinitionOf var e =
     (case e of
        ELet _ lhs _ _ \<Rightarrow> lhs = var \<and> lhs \<noteq> []
      | ELambda _ vars _ \<Rightarrow> list_ex (\<lambda>v. v = var \<and> v \<noteq> []) (map snd vars)
      | EMatch _ _ cases \<Rightarrow> list_ex (\<lambda>p. var \<in> set (variableNames p)) (map fst cases)
      | _ \<Rightarrow> False)"

text \<open>In the case of \<open>EMatch\<close> the code returns the branches themselves, without going into them.\<close>

function uses :: "string \<Rightarrow> expr \<Rightarrow> expr list" where
  "uses var e =
     (if isDefinitionOf var e then []
      else case e of
        EVariable _ potential \<Rightarrow> if potential = var then [e] else []
      | EMatch _ matchExpr cases \<Rightarrow> uses var matchExpr @ map snd cases
      | _ \<Rightarrow> concat (map (uses var) (children e)))"
  by pat_completeness auto
termination by (relation "measure (\<lambda>(v, e). size e)") auto

declare uses.simps [simp del]

text \<open>\<open>E.filterMap\<close> walks the tree from the node to its children; \<open>uniqueBy\<close> keeps the first of each name.\<close>

definition bound_uses :: "expr \<Rightarrow> expr list" where
  "bound_uses e =
     (case e of
        ELet _ lhs _ body \<Rightarrow> uses lhs body
      | ELambda _ vars body \<Rightarrow> concat (map (\<lambda>v. uses v body) (filter (\<lambda>v. v \<noteq> []) (map snd vars)))
      | EMatch _ _ cases \<Rightarrow> concat (concat (map (\<lambda>(pattern, body). map (\<lambda>v. uses v body) (variableNames pattern)) cases))
      | _ \<Rightarrow> [])"

fun uniqueByName :: "(string \<times> string) list \<Rightarrow> (string \<times> string) list" where
  "uniqueByName [] = []"
| "uniqueByName (p # ps) = p # filter (\<lambda>q. snd q \<noteq> snd p) (uniqueByName ps)"

definition freeVariables :: "expr \<Rightarrow> (string \<times> string) list" where
  "freeVariables ast =
     (let definedAndUsed = set (map toID (concat (map bound_uses (preorder ast))))
      in uniqueByName (List.map_filter (\<lambda>e. case e of
            EVariable i name \<Rightarrow> (if i \<in> definedAndUsed then None else Some (i, name)) | _ \<Rightarrow> None) (preorder ast)))"

section \<open>The specification\<close>

text \<open>The free occurrences of variables, with the usual scopes: the body of a \<open>let\<close>, the body of a lambda,
  the branch of a pattern.\<close>

function free_occurrences :: "expr \<Rightarrow> (string \<times> string) set" where
  "free_occurrences e =
     (case e of
        EVariable i x \<Rightarrow> {(i, x)}
      | ELet _ lhs rhs body \<Rightarrow> free_occurrences rhs \<union> {p \<in> free_occurrences body. lhs = [] \<or> snd p \<noteq> lhs}
      | ELambda _ vars body \<Rightarrow> {p \<in> free_occurrences body. snd p \<notin> snd ` set vars}
      | EMatch _ m cases \<Rightarrow> free_occurrences m
          \<union> (\<Union>c \<in> set cases. {p \<in> free_occurrences (snd c). snd p \<notin> set (variableNames (fst c))})
      | _ \<Rightarrow> (\<Union>c \<in> set (children e). free_occurrences c))"
  by pat_completeness auto
termination by (relation "measure size") auto

declare free_occurrences.simps [simp del]

lemma pattern_names: "map snd (variablesInPattern p) = variableNames p"
  by (induction p rule: variablesInPattern.induct) (simp_all add: map_concat comp_def cong: map_cong)

lemma bind_all_dom: "dom (bind_all vars st) = dom st \<union> snd ` set vars"
  unfolding bind_all_def by (induction vars arbitrary: st) auto

lemma scoped_child: "x \<in> set (scoped st e) \<Longrightarrow> snd x \<in> set (children e)"
  using scoped_children [of st e] by auto

lemma child_scoped: "c \<in> set (children e) \<Longrightarrow> \<exists>st'. (st', c) \<in> set (scoped st e)"
  using scoped_children [of st e] by force

lemma sym_exec_iff:
  "(i, s) \<in> set (sym_exec st e) \<longleftrightarrow> i = toID e \<and> s = st \<or> (\<exists>st' c. (st', c) \<in> set (scoped st e) \<and> (i, s) \<in> set (sym_exec st' c))"
  by (subst sym_exec.simps) auto

lemma sym_exec_ids: "(\<exists>s. (i, s) \<in> set (sym_exec st e)) \<longleftrightarrow> i \<in> ids e"
proof (induction e arbitrary: st rule: expr_induct)
  case (1 e)
  have "(\<exists>st' c. (st', c) \<in> set (scoped st e) \<and> (\<exists>s. (i, s) \<in> set (sym_exec st' c))) \<longleftrightarrow> (\<exists>c \<in> set (children e). i \<in> ids c)"
  proof
    assume "\<exists>st' c. (st', c) \<in> set (scoped st e) \<and> (\<exists>s. (i, s) \<in> set (sym_exec st' c))"
    then obtain st' c where c: "(st', c) \<in> set (scoped st e)" "\<exists>s. (i, s) \<in> set (sym_exec st' c)" by blast
    have "c \<in> set (children e)" using scoped_child [OF c(1)] by simp
    then show "\<exists>c \<in> set (children e). i \<in> ids c" using 1 c(2) by blast
  next
    assume "\<exists>c \<in> set (children e). i \<in> ids c"
    then obtain c where c: "c \<in> set (children e)" "i \<in> ids c" by blast
    obtain st' where "(st', c) \<in> set (scoped st e)" using child_scoped [OF c(1)] by blast
    moreover have "\<exists>s. (i, s) \<in> set (sym_exec st' c)" using 1 [OF c(1)] c(2) by blast
    ultimately show "\<exists>st' c. (st', c) \<in> set (scoped st e) \<and> (\<exists>s. (i, s) \<in> set (sym_exec st' c))" by blast
  qed
  then show ?case unfolding sym_exec_iff [of i _ st e] ids_iff [of i e] by blast
qed

lemma free_ids: "(i, x) \<in> free_occurrences e \<Longrightarrow> i \<in> ids e"
proof (induction e rule: expr_induct)
  case (1 e)
  have "(\<exists>x. e = EVariable i x) \<or> (\<exists>c \<in> set (children e). (i, x) \<in> free_occurrences c)"
    using 1(2) by (subst (asm) free_occurrences.simps) (auto split: expr.splits)
  then show ?case using 1(1) ids_iff [of i e] by auto
qed

definition plain_node :: "expr \<Rightarrow> bool" where
  "plain_node e = (case e of EVariable _ _ \<Rightarrow> False | ELet _ _ _ _ \<Rightarrow> False | ELambda _ _ _ \<Rightarrow> False
     | EMatch _ _ _ \<Rightarrow> False | _ \<Rightarrow> True)"

lemma free_plain: "plain_node e \<Longrightarrow> free_occurrences e = (\<Union>c \<in> set (children e). free_occurrences c)"
  by (subst free_occurrences.simps) (auto simp: plain_node_def split: expr.splits)

lemma scoped_plain: "plain_node e \<Longrightarrow> (st', c) \<in> set (scoped st e) \<Longrightarrow> st' = st"
  by (cases e) (auto simp: plain_node_def)

text \<open>One step down: an occurrence below a child is free above exactly if it is free there and the child's
  table has nothing for it that was not there before.\<close>

lemma free_child:
  assumes "distinct_ids e" "(st', c) \<in> set (scoped st e)" "i \<in> ids c"
  shows "(i, x) \<in> free_occurrences e \<and> st x = None \<longleftrightarrow> (i, x) \<in> free_occurrences c \<and> st' x = None"
proof -
  have c: "c \<in> set (children e)" using scoped_child [OF assms(2)] by simp
  have only: "c' = c" if "c' \<in> set (children e)" "(i, x) \<in> free_occurrences c'" for c'
    using distinct_children(4) [OF assms(1) that(1) c free_ids [OF that(2)] assms(3)] .
  have dist: "distinct (map toID (children e))" by (rule distinct_children(1) [OF assms(1)])
  show ?thesis
  proof (cases "plain_node e")
    case True
    then show ?thesis using free_plain [OF True] scoped_plain [OF True assms(2)] c only by blast
  next
    case special: False
  show ?thesis
  proof (cases e)
    case (ELet k lhs rhs body)
    have f: "(i, x) \<in> free_occurrences e \<longleftrightarrow> (i, x) \<in> free_occurrences rhs
        \<or> (i, x) \<in> free_occurrences body \<and> (lhs = [] \<or> x \<noteq> lhs)"
      unfolding ELet by (subst free_occurrences.simps) auto
    have n: "rhs \<noteq> body" using dist ELet by auto
    consider "st' = st" "c = rhs" | "c = body" "st' = (if lhs \<noteq> [] then st(lhs \<mapsto> toID rhs) else st)"
      using assms(2) ELet by auto
    then show ?thesis
    proof cases
      case 1
      then show ?thesis using f n only [of body] ELet by auto
    next
      case 2
      then show ?thesis using f n only [of rhs] ELet by auto
    qed
  next
    case (ELambda k vars body)
    have "(i, x) \<in> free_occurrences e \<longleftrightarrow> (i, x) \<in> free_occurrences body \<and> x \<notin> snd ` set vars"
      unfolding ELambda by (subst free_occurrences.simps) auto
    then show ?thesis using assms(2) bind_all_dom [of vars st] ELambda by (auto simp: domIff)
  next
    case (EMatch k m cases)
    have same: "q = q'" if "(q, d) \<in> set cases" "(q', d) \<in> set cases" for q q' d
    proof -
      have "inj_on (toID \<circ> snd) (set cases)" using dist EMatch by (simp add: distinct_map)
      from inj_onD [OF this _ that] show ?thesis by simp
    qed
    have b: "bind_all (variablesInPattern q) st x = None \<longleftrightarrow> st x = None \<and> x \<notin> set (variableNames q)" for q
      using bind_all_dom [of "variablesInPattern q" st] pattern_names [of q] by (auto simp: domIff simp flip: set_map)
    have f: "(i, x) \<in> free_occurrences e \<longleftrightarrow> (i, x) \<in> free_occurrences m
        \<or> (\<exists>q d. (q, d) \<in> set cases \<and> (i, x) \<in> free_occurrences d \<and> x \<notin> set (variableNames q))"
      unfolding EMatch by (subst free_occurrences.simps) (simp, force)
    consider "st' = st" "c = m" | q where "(q, c) \<in> set cases" "st' = bind_all (variablesInPattern q) st"
      using assms(2) EMatch by auto
    then show ?thesis
    proof cases
      case 1
      have "(i, x) \<notin> free_occurrences d" if "(q, d) \<in> set cases" for q d
        using that only [of d] dist EMatch 1(2) by force
      then show ?thesis using 1 f by (auto split: prod.splits)
    next
      case (2 q)
      have "m \<noteq> c" using 2(1) dist EMatch by force
      then have "(i, x) \<notin> free_occurrences m" using only [of m] EMatch by auto
      moreover have "d = c \<and> q' = q" if "(q', d) \<in> set cases" "(i, x) \<in> free_occurrences d" for q' d
      proof -
        have "d \<in> set (children e)" using that(1) EMatch by force
        then have "d = c" using only that(2) by blast
        then show ?thesis using same [OF that(1)] 2(1) by blast
      qed
      ultimately show ?thesis using 2 f b [of q] by auto
    qed
  qed (use special assms(2) in \<open>simp_all add: plain_node_def\<close>)
  qed
qed

lemma table_free:
  assumes "distinct_ids e" "EVariable i x \<in> set (preorder e)" "(i, s) \<in> set (sym_exec st e)"
  shows "(i, x) \<in> free_occurrences e \<and> st x = None \<longleftrightarrow> s x = None"
  using assms
proof (induction e arbitrary: st rule: expr_induct)
  case (1 e)
  note d = distinct_children [OF 1(2)]
  show ?case
  proof (cases "e = EVariable i x")
    case True
    then show ?thesis using 1(4) by (auto simp: sym_exec_iff [of _ _ st] free_occurrences.simps [of "EVariable i x"])
  next
    case False
    then obtain c where c: "c \<in> set (children e)" "EVariable i x \<in> set (preorder c)"
      using 1(3) preorder_iff [of "EVariable i x" e] by auto
    then have ic: "i \<in> ids c" by force
    have "i \<noteq> toID e" using d(3) [OF c(1)] ic by blast
    then obtain st' c' where c': "(st', c') \<in> set (scoped st e)" "(i, s) \<in> set (sym_exec st' c')"
      using 1(4) sym_exec_iff [of i s st e] by blast
    have ch: "c' \<in> set (children e)" using scoped_child [OF c'(1)] by simp
    have "i \<in> ids c'" using sym_exec_ids [of i st' c'] c'(2) by blast
    then have "c' = c" using d(4) [OF ch c(1) _ ic] by blast
    then show ?thesis using 1(1) [OF c(1) d(2) [OF c(1)] c(2)] c'(2) free_child [OF 1(2) c'(1)] ic by blast
  qed
qed

section \<open>Properties\<close>

text \<open>C17: The symbol tables are the scopes of the language: at every occurrence of a variable in a tree with
  distinct ids the table has the name exactly if the occurrence is bound, by a \<open>let\<close>, a lambda or a
  pattern around it.\<close>

theorem table_has_bound_names:
  assumes "distinct_ids ast" and "EVariable i x \<in> set (preorder ast)"
  shows "\<exists>st. variablesIn ast i = Some st \<and> (x \<in> dom st \<longleftrightarrow> (i, x) \<notin> free_occurrences ast)"
proof -
  have "i \<in> ids ast" using assms(2) by force
  then obtain s where "(i, s) \<in> set (sym_exec (\<lambda>_. None) ast)" using sym_exec_ids [of i "\<lambda>_. None" ast] by blast
  then obtain st where st: "variablesIn ast i = Some st"
    unfolding variablesIn_def by (metis map_of_eq_None_iff image_eqI fst_conv set_rev not_Some_eq)
  then have "(i, st) \<in> set (sym_exec (\<lambda>_. None) ast)" unfolding variablesIn_def by (metis map_of_SomeD set_rev)
  from table_free [OF assms this] st show ?thesis by (auto simp: domIff)
qed

text \<open>\<open>let x = x in match y with z -> \y -> z x y\<close>, each variable with its own id.\<close>

definition sample_scopes :: expr where
  "sample_scopes = ELet ''1'' ''x'' (EVariable ''2'' ''x'') (EMatch ''3'' (EVariable ''4'' ''y'')
     [(FPVariable ''3'' ''5'' ''z'', ELambda ''6'' [(''7'', ''y'')] (EList ''8'' [EVariable ''9'' ''z'', EVariable ''10'' ''x'', EVariable ''11'' ''y'']))])"

theorem table_has_bound_names_witness:
  "variablesIn sample_scopes ''10'' \<noteq> None \<and> (''10'', ''x'') \<notin> free_occurrences sample_scopes
   \<and> (\<exists>st. variablesIn sample_scopes ''2'' = Some st \<and> st ''x'' = None)"
proof -
  have d: "distinct_ids sample_scopes" by (simp add: distinct_ids_def sample_scopes_def preorder.simps)
  have v: "EVariable ''10'' ''x'' \<in> set (preorder sample_scopes)" "EVariable ''2'' ''x'' \<in> set (preorder sample_scopes)"
    by (simp_all add: sample_scopes_def preorder.simps)
  have f: "(''10'', ''x'') \<notin> free_occurrences sample_scopes" "(''2'', ''x'') \<in> free_occurrences sample_scopes"
    by (simp_all add: sample_scopes_def free_occurrences.simps)
  show ?thesis using table_has_bound_names [OF d v(1)] table_has_bound_names [OF d v(2)] f by (auto simp: domIff)
qed

text \<open>\<open>freeVariables\<close> loses a free variable: in \<open>let x = 1 in match x with _ -> v\<close> the branch counts as a
  use of \<open>x\<close>, so \<open>v\<close> is taken for bound. And in \<open>let x = 1 in let x = x in x\<close>, where nothing is free, the
  first \<open>x\<close> of the inner \<open>let\<close> is reported, for \<open>uses\<close> does not enter a definition of the same name.\<close>

lemma free_variable_lost:
  defines "e \<equiv> ELet ''1'' ''x'' (EInteger ''2'' ''1'') (EMatch ''3'' (EVariable ''4'' ''x'') [(FPBlank ''3'' ''5'', EVariable ''6'' ''v'')])"
  shows "freeVariables e = [] \<and> free_occurrences e = {(''6'', ''v'')}"
  by (simp add: e_def freeVariables_def bound_uses_def preorder.simps uses.simps isDefinitionOf_def List.map_filter_def
      free_occurrences.simps) auto

lemma bound_variable_reported:
  defines "e \<equiv> ELet ''1'' ''x'' (EInteger ''2'' ''1'') (ELet ''3'' ''x'' (EVariable ''4'' ''x'') (EVariable ''5'' ''x''))"
  shows "freeVariables e = [(''4'', ''x'')] \<and> free_occurrences e = {}"
  by (simp add: e_def freeVariables_def bound_uses_def preorder.simps uses.simps isDefinitionOf_def List.map_filter_def
      free_occurrences.simps)

end
