(* ===== verification/LiveValues.thy ===== *)
theory LiveValues
  imports Fluid
begin

text \<open>
  The values of the language in the client and what the editor shows of an analysis: the store of the
  results of a trace (\<open>client/src/core/Types.ml\<close>), the live value of an expression and the arguments of a
  call (\<open>client/src/analysis/Analysis.ml\<close>), whether a call can be run (\<open>ViewFnExecution.ml\<close>) and the
  text beside the caret (\<open>lvResultForId\<close> of \<open>fluid/FluidView.ml\<close>).
\<close>

section \<open>Values\<close>

datatype dval_source = SourceNone | SourceId string string

text \<open>The constructor \<open>Response\<close> of \<open>dhttp\<close> is \<open>HttpResponse\<close> here; finite floats are rationals.\<close>

datatype dhttp = Redirect string | HttpResponse int "(string \<times> string) list"

datatype dval =
    DInt int
  | DFloat rat
  | DBool bool
  | DNull
  | DCharacter string
  | DStr string
  | DList "dval list"
  | DObj "(string \<times> dval) list"
  | DIncomplete dval_source
  | DError dval_source string
  | DBlock "(string \<times> dval) list" "(string \<times> string) list" expr
  | DErrorRail dval
  | DResp dhttp dval
  | DDB string
  | DDate string
  | DPassword string
  | DUuid string
  | DOption optionT
  | DResult resultT
  | DBytes string
and optionT = OptJust dval | OptNothing
and resultT = ResOk dval | ResError dval

section \<open>The results of an analysis\<close>

datatype 'r loadable =
    LoadableSuccess 'r
  | LoadableNotInitialized
  | LoadableLoading "'r option"
  | LoadableError string

datatype executionResult = ExecutedResult dval | NonExecutedResult dval

type_synonym result_store = "string \<rightharpoonup> executionResult"
type_synonym analysis_store = "result_store loadable"

definition getLiveValueLoadable :: "analysis_store \<Rightarrow> string \<Rightarrow> executionResult loadable" where
  "getLiveValueLoadable analysisStore i =
     (case analysisStore of
        LoadableSuccess dvals \<Rightarrow> (case dvals i of Some dv \<Rightarrow> LoadableSuccess dv | None \<Rightarrow> LoadableNotInitialized)
      | LoadableNotInitialized \<Rightarrow> LoadableNotInitialized
      | LoadableLoading oldDvals \<Rightarrow>
          (case Option.bind oldDvals (\<lambda>dvals. dvals i) of Some dv \<Rightarrow> LoadableSuccess dv | None \<Rightarrow> LoadableLoading None)
      | LoadableError error \<Rightarrow> LoadableError error)"

definition getLiveValue' :: "analysis_store \<Rightarrow> string \<Rightarrow> dval option" where
  "getLiveValue' analysisStore i =
     (case analysisStore of
        LoadableSuccess dvals \<Rightarrow>
          (case dvals i of
             Some (ExecutedResult dv) \<Rightarrow> Some dv
           | Some (NonExecutedResult dv) \<Rightarrow> Some dv
           | None \<Rightarrow> None)
      | _ \<Rightarrow> None)"

section \<open>Running a call\<close>

datatype permission = Read | ReadWrite

text \<open>The constructor \<open>Unsafe\<close> of \<open>previewSafety\<close> is \<open>PreviewUnsafe\<close> here.\<close>

datatype previewSafety = Safe | PreviewUnsafe
datatype fnOrigin = UserFunction | PackageManager | Builtin

record function_ =
  fnName :: string
  fnPreviewSafety :: previewSafety
  fnOrigin :: fnOrigin

text \<open>The type \<open>fnExecutionStatus\<close>, whose name is that of the function below too.\<close>

datatype execution_status = Unsafe | IncompleteArgs | Ready | Executing | Replayable | NoPermission

record exec_props =
  ep_store :: analysis_store
  ep_ast :: expr
  ep_executing :: "string list"
  ep_permission :: "permission option"
  ep_tlid :: string

definition isComplete :: "exec_props \<Rightarrow> string \<Rightarrow> bool" where
  "isComplete p i =
     (case getLiveValue' (ep_store p) i of
        None \<Rightarrow> False
      | Some (DError _ _) \<Rightarrow> False
      | Some (DIncomplete _) \<Rightarrow> False
      | Some _ \<Rightarrow> True)"

definition fnIsComplete :: "exec_props \<Rightarrow> string \<Rightarrow> bool" where
  "fnIsComplete p i =
     (case getLiveValue' (ep_store p) i of
        Some (DIncomplete (SourceId srcTlid srcId)) \<Rightarrow> (srcTlid, srcId) \<noteq> (ep_tlid p, i)
      | Some (DError (SourceId srcTlid srcId) _) \<Rightarrow> (srcTlid, srcId) \<noteq> (ep_tlid p, i)
      | _ \<Rightarrow> True)"

definition fnExecutionStatus :: "exec_props \<Rightarrow> function_ \<Rightarrow> string \<Rightarrow> string list \<Rightarrow> execution_status" where
  "fnExecutionStatus p fn i args =
     (if ep_permission p \<noteq> Some ReadWrite then NoPermission
      else if fnName fn = ''Password::check'' \<or> fnName fn = ''Password::hash'' then Unsafe
      else if \<not> list_all (isComplete p) args then IncompleteArgs
      else if i \<in> set (ep_executing p) then Executing
      else if fnIsComplete p i then Replayable
      else Ready)"

definition executionError :: "execution_status \<Rightarrow> string" where
  "executionError status =
     (case status of
        Unsafe \<Rightarrow> ''Cannot run interactively for security reasons''
      | IncompleteArgs \<Rightarrow> ''Cannot run: some parameters are incomplete''
      | Ready \<Rightarrow> ''Click Play to execute function''
      | Executing \<Rightarrow> ''Function is executing''
      | Replayable \<Rightarrow> ''Click to execute function again''
      | NoPermission \<Rightarrow> ''You do not have permission to execute this function'')"

text \<open>The messages \<open>ExecuteFunctionButton\<close> that a click sends.\<close>

definition executionEvents :: "execution_status \<Rightarrow> string \<Rightarrow> string \<Rightarrow> string \<Rightarrow> (string \<times> string \<times> string) list" where
  "executionEvents status tlid i name =
     (case status of
        Ready \<Rightarrow> [(tlid, i, name)]
      | Replayable \<Rightarrow> [(tlid, i, name)]
      | _ \<Rightarrow> [])"

text \<open>The button of a call with its click messages, or no button.\<close>

definition fnExecutionButton ::
  "exec_props \<Rightarrow> function_ \<Rightarrow> string \<Rightarrow> string list \<Rightarrow> (execution_status \<times> (string \<times> string \<times> string) list) option" where
  "fnExecutionButton p fn i args =
     (let status = fnExecutionStatus p fn i args
      in if fnPreviewSafety fn = Safe \<and> fnOrigin fn \<noteq> UserFunction then None
         else Some (status, executionEvents status (ep_tlid p) i (fnName fn)))"

section \<open>What is shown at the caret\<close>

record view_props =
  vp_exec :: exec_props
  vp_functions :: "function_ list"

datatype lvResult =
    WithMessage string
  | WithDval dval bool
  | WithMessageAndDval string dval bool
  | WithSource string string dval lvResult
  | Loading

definition fnLoading :: "view_props \<Rightarrow> string \<Rightarrow> string option" where
  "fnLoading vp i =
     (let ast = ep_ast (vp_exec vp);
          called = (case expr_find i ast of
              Some (EFnCall _ name _ _) \<Rightarrow> List.find (\<lambda>f. fnName f = name) (vp_functions vp)
            | Some (EBinOp _ name _ _ _) \<Rightarrow> List.find (\<lambda>f. fnName f = name) (vp_functions vp)
            | _ \<Rightarrow> None)
      in case called of
           None \<Rightarrow> None
         | Some fn \<Rightarrow>
             (if fnPreviewSafety fn = Safe then None
              else Some (executionError (fnExecutionStatus (vp_exec vp) fn i (map toID (getArguments i ast))))))"

text \<open>The source of an incomplete value or an error that was made elsewhere.\<close>

definition other_source :: "view_props \<Rightarrow> string \<Rightarrow> dval \<Rightarrow> (string \<times> string) option" where
  "other_source vp i dv =
     (case dv of
        DIncomplete (SourceId srcTlid srcID) \<Rightarrow>
          (if srcID \<noteq> i \<or> srcTlid \<noteq> ep_tlid (vp_exec vp) then Some (srcTlid, srcID) else None)
      | DError (SourceId srcTlid srcID) _ \<Rightarrow>
          (if srcID \<noteq> i \<or> srcTlid \<noteq> ep_tlid (vp_exec vp) then Some (srcTlid, srcID) else None)
      | _ \<Rightarrow> None)"

definition is_incomplete :: "dval \<Rightarrow> bool" where
  "is_incomplete dv = (case dv of DIncomplete _ \<Rightarrow> True | _ \<Rightarrow> False)"

definition can_copy :: "dval \<Rightarrow> bool" where
  "can_copy dv = (case dv of DIncomplete _ \<Rightarrow> False | DError _ _ \<Rightarrow> False | _ \<Rightarrow> True)"

function lvResultForId :: "bool \<Rightarrow> view_props \<Rightarrow> string \<Rightarrow> lvResult" where
  "lvResultForId recurred vp i =
     (case getLiveValueLoadable (ep_store (vp_exec vp)) i of
        LoadableSuccess (ExecutedResult dv) \<Rightarrow>
          (case (if is_incomplete dv then fnLoading vp i else None) of
             Some msg \<Rightarrow> WithMessage msg
           | None \<Rightarrow>
               (case other_source vp i dv of
                  Some (srcTlid, srcID) \<Rightarrow>
                    (if recurred then WithDval dv False
                     else WithSource srcTlid srcID dv (lvResultForId True vp srcID))
                | None \<Rightarrow> WithDval dv (can_copy dv)))
      | LoadableNotInitialized \<Rightarrow> Loading
      | LoadableLoading _ \<Rightarrow> Loading
      | LoadableSuccess (NonExecutedResult dv) \<Rightarrow>
          WithMessageAndDval ''This code was not executed in this trace'' dv (can_copy dv)
      | LoadableError err \<Rightarrow> WithMessage (''Error loading live value: '' @ err))"
  by pat_completeness auto
termination by (relation "measure (\<lambda>(recurred, vp, i). if recurred then 0 else 1)") auto

declare lvResultForId.simps [simp del]

section \<open>Lemmas\<close>

lemma events_iff: "executionEvents status t i name = [] \<longleftrightarrow> status \<notin> {Ready, Replayable}"
  by (cases status) (simp_all add: executionEvents_def)

lemma executing_no_events:
  "i \<in> set (ep_executing p) \<Longrightarrow> executionEvents (fnExecutionStatus p fn i args) t i name = []"
  by (simp add: events_iff fnExecutionStatus_def)

lemma button_events:
  "fnExecutionButton p fn i args = Some (status, evs) \<Longrightarrow> ev \<in> set evs
    \<Longrightarrow> ev = (ep_tlid p, i, fnName fn) \<and> i \<notin> set (ep_executing p) \<and> ep_permission p = Some ReadWrite
      \<and> list_all (isComplete p) args"
  by (auto simp: fnExecutionButton_def Let_def executionEvents_def fnExecutionStatus_def
      split: if_splits execution_status.splits)

section \<open>Properties\<close>

text \<open>A call can be run by its button exactly when the user may write, the function is not one of the
  two that are never run, every argument has a proper value and the call is not running; then a
  first run is offered, rather than another one, exactly if the value of the call is an incomplete
  value or an error that this very call made.\<close>

theorem button_runs_iff:
  assumes "fnPreviewSafety fn = PreviewUnsafe \<or> fnOrigin fn = UserFunction"
  shows "\<exists>status. fnExecutionButton p fn i args = Some (status, executionEvents status (ep_tlid p) i (fnName fn))
    \<and> (executionEvents status (ep_tlid p) i (fnName fn) \<noteq> [] \<longleftrightarrow>
        ep_permission p = Some ReadWrite \<and> fnName fn \<notin> {''Password::check'', ''Password::hash''}
        \<and> (\<forall>a \<in> set args. \<exists>v. getLiveValue' (ep_store p) a = Some v \<and> can_copy v)
        \<and> i \<notin> set (ep_executing p))
    \<and> (executionEvents status (ep_tlid p) i (fnName fn) \<noteq> [] \<longrightarrow>
        (status = Ready \<longleftrightarrow> (\<exists>v. getLiveValue' (ep_store p) i = Some v
          \<and> (v = DIncomplete (SourceId (ep_tlid p) i) \<or> (\<exists>str. v = DError (SourceId (ep_tlid p) i) str)))))"
proof -
  have c: "isComplete p a \<longleftrightarrow> (\<exists>v. getLiveValue' (ep_store p) a = Some v \<and> can_copy v)" for a
    by (auto simp: isComplete_def can_copy_def split: option.split dval.split)
  have f: "fnIsComplete p i \<longleftrightarrow> \<not> (\<exists>v. getLiveValue' (ep_store p) i = Some v
      \<and> (v = DIncomplete (SourceId (ep_tlid p) i) \<or> (\<exists>str. v = DError (SourceId (ep_tlid p) i) str)))"
    by (auto simp: fnIsComplete_def split: option.split dval.split dval_source.split)
  show ?thesis using assms
    by (auto simp: fnExecutionButton_def Let_def events_iff fnExecutionStatus_def list_all_iff c f)
qed

text \<open>\<open>f 1 x\<close>, with the value of \<open>x\<close> an error made by the call \<open>9\<close>.\<close>

definition sample_props :: exec_props where
  "sample_props = \<lparr>ep_store = LoadableSuccess [''2'' \<mapsto> ExecutedResult (DInt 1), ''3'' \<mapsto> ExecutedResult (DError (SourceId ''t'' ''9'') ''e''),
       ''1'' \<mapsto> ExecutedResult (DIncomplete (SourceId ''t'' ''1''))],
     ep_ast = EFnCall ''1'' ''f'' [EInteger ''2'' ''1'', EVariable ''3'' ''x''] NoRail, ep_executing = [],
     ep_permission = Some ReadWrite, ep_tlid = ''t''\<rparr>"

definition sample_fn :: function_ where
  "sample_fn = \<lparr>fnName = ''f'', fnPreviewSafety = PreviewUnsafe, fnOrigin = Builtin\<rparr>"

theorem button_runs_iff_witness:
  "fnExecutionButton sample_props sample_fn ''1'' [''2''] = Some (Ready, [(''t'', ''1'', ''f'')])
   \<and> (\<exists>status. fnExecutionButton sample_props sample_fn ''1'' [''2'', ''3''] = Some (status, []))"
proof -
  have u: "fnPreviewSafety sample_fn = PreviewUnsafe \<or> fnOrigin sample_fn = UserFunction" by (simp add: sample_fn_def)
  have "fnExecutionButton sample_props sample_fn ''1'' [''2''] = Some (Ready, [(''t'', ''1'', ''f'')])" by code_simp
  then show ?thesis using button_runs_iff [OF u, of sample_props "''1''" "[''2'', ''3'']"]
    by (auto simp: getLiveValue'_def sample_props_def can_copy_def)
qed

text \<open>What is shown for an expression ends after one step to a source: the result for the source never
  has a source of its own, a source is shown only for an incomplete value or an error whose origin is
  another place, and it is that origin.\<close>

theorem live_value_source:
  assumes "lvResultForId False vp i = WithSource srcTlid srcID v res"
  shows "getLiveValueLoadable (ep_store (vp_exec vp)) i = LoadableSuccess (ExecutedResult v)
    \<and> (srcTlid, srcID) \<noteq> (ep_tlid (vp_exec vp), i)
    \<and> (v = DIncomplete (SourceId srcTlid srcID) \<or> (\<exists>str. v = DError (SourceId srcTlid srcID) str))
    \<and> res = lvResultForId True vp srcID \<and> (\<nexists>t s w r. res = WithSource t s w r)"
proof -
  have r: "lvResultForId True vp j \<noteq> WithSource t s w r" for j t s w r
    by (subst lvResultForId.simps) (auto split: loadable.split executionResult.split option.split)
  show ?thesis using assms r
    by (subst (asm) lvResultForId.simps)
      (auto simp: other_source_def split: loadable.splits executionResult.splits option.splits dval.splits dval_source.splits if_splits)
qed

theorem live_value_source_witness:
  "lvResultForId False \<lparr>vp_exec = sample_props, vp_functions = []\<rparr> ''3''
     = WithSource ''t'' ''9'' (DError (SourceId ''t'' ''9'') ''e'') Loading
   \<and> lvResultForId True \<lparr>vp_exec = sample_props, vp_functions = []\<rparr> ''9'' = Loading"
proof -
  have "lvResultForId False \<lparr>vp_exec = sample_props, vp_functions = []\<rparr> ''3''
      = WithSource ''t'' ''9'' (DError (SourceId ''t'' ''9'') ''e'') Loading" by code_simp
  with live_value_source [OF this] show ?thesis by simp
qed

end
