(* ===== verification/ApiErrors.thy ===== *)
theory ApiErrors
  imports Dark_Prelude "HOL-Library.Tree"
begin

text \<open>
  The errors of the server's API: \<open>client/src/api/APIError.ml\<close> and the case \<open>HandleAPIError\<close> of
  \<open>updateMod\<close> in \<open>Main.ml\<close>, which decides whether the page is reloaded, whether the error is sent to
  Rollbar and whether the user sees it. The HTTP errors are those of the library the client uses; the
  headers of a response are a \<open>Map\<close> of OCaml's standard library, a binary search tree.
\<close>

section \<open>Errors\<close>

datatype response_body =
    NoResponse
  | StringResponse string
  | ArrayBufferResponse
  | BlobResponse
  | DocumentResponse
  | JsonResponse
  | TextResponse string
  | RawResponse string

record http_response =
  rsp_url :: string
  rsp_code :: int
  rsp_message :: string
  rsp_headers :: "(string \<times> string) tree"
  rsp_body :: response_body

datatype http_error =
    BadUrl string
  | Timeout
  | NetworkError
  | BadStatus http_response
  | BadPayload string http_response
  | Aborted

datatype importance = IgnorableError | ImportantError

record api_error =
  ae_context :: string
  originalError :: http_error
  ae_reload :: bool
  ae_importance :: importance

section \<open>APIError.ml\<close>

text \<open>\<open>Map.find_first_opt\<close> of the standard library: it takes the search path of a monotonically
  increasing predicate.\<close>

fun find_first_opt_aux :: "'k \<times> 'd \<Rightarrow> ('k \<Rightarrow> bool) \<Rightarrow> ('k \<times> 'd) tree \<Rightarrow> ('k \<times> 'd) option" where
  "find_first_opt_aux vd f Leaf = Some vd"
| "find_first_opt_aux vd f (Node l (v, d) r) =
     (if f v then find_first_opt_aux (v, d) f l else find_first_opt_aux vd f r)"

fun find_first_opt :: "('k \<Rightarrow> bool) \<Rightarrow> ('k \<times> 'd) tree \<Rightarrow> ('k \<times> 'd) option" where
  "find_first_opt f Leaf = None"
| "find_first_opt f (Node l (v, d) r) = (if f v then find_first_opt_aux (v, d) f l else find_first_opt f r)"

text \<open>\<open>toLowerCase\<close> on Latin-1.\<close>

definition lower_char :: "char \<Rightarrow> char" where
  "lower_char c =
     (let n = of_char c :: nat
      in if 65 \<le> n \<and> n \<le> 90 \<or> 192 \<le> n \<and> n \<le> 222 \<and> n \<noteq> 215 then char_of (n + 32) else c)"

definition server_version :: string where
  "server_version = ''x-darklang-server-version''"

definition names_version :: "string \<Rightarrow> bool" where
  "names_version key \<longleftrightarrow> map lower_char key = server_version"

definition serverVersionOf :: "api_error \<Rightarrow> string option" where
  "serverVersionOf e =
     (case originalError e of
        BadStatus response \<Rightarrow> map_option snd (find_first_opt names_version (rsp_headers response))
      | BadPayload _ response \<Rightarrow> map_option snd (find_first_opt names_version (rsp_headers response))
      | _ \<Rightarrow> None)"

definition urlOf :: "api_error \<Rightarrow> string option" where
  "urlOf e =
     (case originalError e of
        BadUrl url \<Rightarrow> Some url
      | BadStatus response \<Rightarrow> Some (rsp_url response)
      | BadPayload _ response \<Rightarrow> Some (rsp_url response)
      | _ \<Rightarrow> None)"

definition shouldDisplayToUser :: "api_error \<Rightarrow> bool" where
  "shouldDisplayToUser e =
     (case originalError e of
        BadUrl _ \<Rightarrow> True
      | BadPayload _ _ \<Rightarrow> True
      | BadStatus response \<Rightarrow> if rsp_code response = 502 then ae_importance e = ImportantError else True
      | _ \<Rightarrow> ae_importance e = ImportantError)"

definition shouldRollbar :: "api_error \<Rightarrow> bool" where
  "shouldRollbar e =
     (case originalError e of
        BadUrl _ \<Rightarrow> True
      | Timeout \<Rightarrow> True
      | BadPayload _ _ \<Rightarrow> True
      | NetworkError \<Rightarrow> False
      | BadStatus response \<Rightarrow> rsp_code response \<noteq> 401
      | Aborted \<Rightarrow> False)"

definition isBadAuth :: "api_error \<Rightarrow> bool" where
  "isBadAuth e =
     (if ae_reload e then True
      else case originalError e of BadStatus response \<Rightarrow> rsp_code response = 401 | _ \<Rightarrow> False)"

text \<open>The server's description of an exception; \<open>sx_decode\<close> is \<open>decodeString\<close> with the decoder
  \<open>exception_\<close>, \<open>sx_dict\<close> shows a dictionary.\<close>

record server_exception =
  short :: string
  long :: "string option"
  exceptionTipe :: string
  actual :: "string option"
  actualType :: "string option"
  expected :: "string option"
  exn_result :: "string option"
  resultType :: "string option"
  exn_info :: "(string \<times> string) list"
  workarounds :: "string list"

record exception_lib =
  sx_decode :: "string \<Rightarrow> server_exception option"
  sx_dict :: "(string \<times> string) list \<Rightarrow> string"

definition maybe :: "string \<Rightarrow> string option \<Rightarrow> string" where
  "maybe name m = (case m of Some s \<Rightarrow> '', '' @ name @ '': '' @ s | None \<Rightarrow> [])"

definition body_text :: "response_body \<Rightarrow> string" where
  "body_text body =
     (case body of
        NoResponse \<Rightarrow> ''todo-noresponse''
      | StringResponse str \<Rightarrow> str
      | ArrayBufferResponse \<Rightarrow> ''todo-arratbufferresponse''
      | BlobResponse \<Rightarrow> ''todo-blobresponse''
      | DocumentResponse \<Rightarrow> ''todo-document-response''
      | JsonResponse \<Rightarrow> ''todo-jsonresponse''
      | TextResponse str \<Rightarrow> str
      | RawResponse str \<Rightarrow> str)"

definition parseResponse :: "exception_lib \<Rightarrow> response_body \<Rightarrow> string" where
  "parseResponse L body =
     (case sx_decode L (body_text body) of
        None \<Rightarrow> body_text body
      | Some x \<Rightarrow>
          '' ('' @ exceptionTipe x @ ''): '' @ short x @ maybe ''message'' (long x)
          @ maybe ''actual value'' (actual x) @ maybe ''actual type'' (actualType x)
          @ maybe ''result'' (exn_result x) @ maybe ''result type'' (resultType x) @ maybe ''expected'' (expected x)
          @ (if exn_info x = [] then [] else '', info: '' @ sx_dict L (exn_info x))
          @ (if workarounds x = [] then [] else '', workarounds: ['' @ concat (workarounds x) @ '']''))"

definition api_msg :: "exception_lib \<Rightarrow> api_error \<Rightarrow> string" where
  "api_msg L e =
     (let (withoutContext, context) =
        (case originalError e of
           BadUrl str \<Rightarrow> (''Bad url: '' @ str, ae_context e)
         | Timeout \<Rightarrow> (''Timeout'', ae_context e)
         | NetworkError \<Rightarrow>
             if ae_context e = ''TriggerSendInviteCallback''
             then (''Network error - Please contact Dark'', ae_context e)
             else (''Network error - is the server running?'', ae_context e)
         | BadStatus response \<Rightarrow>
             if rsp_code response = 502 \<and> ae_context e = ''AddOps''
             then (''We'' @ [CHR 0x27] @ ''re sorry, but we were unable to save your most recent edit. Please refresh and try again.'', [])
             else (''Bad status: '' @ rsp_message response @ '' - '' @ parseResponse L (rsp_body response), ae_context e)
         | BadPayload str _ \<Rightarrow> (''Bad payload : '' @ str, ae_context e)
         | Aborted \<Rightarrow> (''Request Aborted'', ae_context e))
      in if context = [] then withoutContext else withoutContext @ '' ('' @ context @ '')'')"

section \<open>HandleAPIError\<close>

text \<open>The fields of the model that it reads and writes; times are milliseconds.\<close>

record error_model =
  buildHash :: string
  lastReload :: "rat option"
  shown_error :: "string option"
  usingNgrok :: bool

datatype error_command = ReloadPage | SendAPIError api_error

definition shouldReload :: "rat \<Rightarrow> api_error \<Rightarrow> error_model \<Rightarrow> bool" where
  "shouldReload now e m =
     (let buildHashMismatch = (case serverVersionOf e of Some hash \<Rightarrow> hash \<noteq> buildHash m | None \<Rightarrow> False);
          reloadAllowed = (case lastReload m of Some time \<Rightarrow> time + 60000 > now | None \<Rightarrow> True)
      in isBadAuth e \<or> (buildHashMismatch \<and> reloadAllowed))"

definition ignored :: "exception_lib \<Rightarrow> api_error \<Rightarrow> error_model \<Rightarrow> bool" where
  "ignored L e m \<longleftrightarrow> sublist ''(client): Already at latest redo'' (api_msg L e) \<or> usingNgrok m"

definition HandleAPIError ::
  "exception_lib \<Rightarrow> rat \<Rightarrow> api_error \<Rightarrow> error_model \<Rightarrow> error_model \<times> error_command list" where
  "HandleAPIError L now e m =
     (let reload = shouldReload now e m;
          cmd = (if reload then [ReloadPage]
                 else if \<not> ignored L e m \<and> shouldRollbar e then [SendAPIError e]
                 else [])
      in (m\<lparr>shown_error := (if shouldDisplayToUser e \<and> \<not> ignored L e m then Some (api_msg L e) else shown_error m),
            lastReload := (if reload then Some now else lastReload m)\<rparr>, cmd))"

section \<open>The header of the server's version\<close>

text \<open>The bindings on the way to the greatest key.\<close>

fun right_spine :: "'a tree \<Rightarrow> 'a list" where
  "right_spine Leaf = []"
| "right_spine (Node l a r) = a # right_spine r"

lemma aux_none: "\<forall>kd \<in> set_tree t. \<not> f (fst kd) \<Longrightarrow> find_first_opt_aux vd f t = Some vd"
  by (induction vd f t rule: find_first_opt_aux.induct) auto

lemma right_spine_sub: "set (right_spine t) \<subseteq> set_tree t"
  by (induction t) auto

lemma find_first_none: "\<forall>kd \<in> set_tree t. \<not> f (fst kd) \<Longrightarrow> find_first_opt f t = None"
  by (induction f t rule: find_first_opt.induct) auto

text \<open>A binding that is the only one with the predicate is found exactly on the right spine.\<close>

lemma find_first_single:
  assumes "filter (\<lambda>kd. f (fst kd)) (inorder t) = [(k, d)]"
  shows "find_first_opt f t = (if (k, d) \<in> set (right_spine t) then Some (k, d) else None)"
  using assms
proof (induction f t rule: find_first_opt.induct)
  case (2 f l v d' r)
  let ?sel = "filter (\<lambda>kd. f (fst kd))"
  have none: "\<forall>kd \<in> set_tree t. \<not> f (fst kd)" if "?sel (inorder t) = []" for t
    using that by (auto simp: filter_empty_conv)
  have "(k, d) \<in> set (?sel (inorder (Node l (v, d') r)))" unfolding 2(2) by simp
  then have fk: "f k" by (simp only: set_filter mem_Collect_eq fst_conv)
  show ?case
  proof (cases "f v")
    case True
    then have l: "?sel (inorder l) = []" "v = k" "d' = d" using 2(2) by (auto simp: append_eq_Cons_conv)
    then show ?thesis using True aux_none [OF none [OF l(1)]] by simp
  next
    case False
    then have e: "?sel (inorder l) @ ?sel (inorder r) = [(k, d)]" and n: "v \<noteq> k" using 2(2) fk by auto
    show ?thesis
    proof (cases "?sel (inorder l)")
      case Nil
      then show ?thesis using 2(1) [OF False] e n False by simp
    next
      case (Cons a as)
      then have r: "\<forall>kd \<in> set_tree r. \<not> f (fst kd)" using e by (intro none) simp
      then have "(k, d) \<notin> set (right_spine r)" using fk right_spine_sub [of r] by force
      then show ?thesis using find_first_none [OF r] n False by simp
    qed
  qed
qed simp

section \<open>Errors in a row\<close>

text \<open>A time that is saved with the settings and loaded again: it is written as a text without milliseconds
  (\<open>Js.Date.toString\<close>).\<close>

definition saved_time :: "rat \<Rightarrow> rat" where
  "saved_time time = 1000 * of_int \<lfloor>time / 1000\<rfloor>"

text \<open>The model of the page after a reload: \<open>lastReload\<close> is among the settings that are saved before; no error is
  shown.\<close>

definition after_reload :: "error_model \<Rightarrow> error_model" where
  "after_reload m = m\<lparr>lastReload := map_option saved_time (lastReload m), shown_error := None\<rparr>"

text \<open>The errors of a session with the times at which they are handled. A reload does not end it: the
  next error is handled by the reloaded page, a page that has been told to reload being taken to
  handle none before it is gone.\<close>

fun handle_errors ::
  "exception_lib \<Rightarrow> (rat \<times> api_error) list \<Rightarrow> error_model \<Rightarrow> error_model \<times> error_command list list" where
  "handle_errors L [] m = (m, [])"
| "handle_errors L ((now, e) # es) m =
     (let (m1, cmds) = HandleAPIError L now e m;
          (m2, rest) = handle_errors L es (if ReloadPage \<in> set cmds then after_reload m1 else m1)
      in (m2, cmds # rest))"

lemma handled_length: "length (snd (handle_errors L es m)) = length es"
  by (induction es arbitrary: m) (auto simp: case_prod_beta Let_def)

text \<open>The server answers as another version, and the error is not one of authentication.\<close>

definition outdated :: "string \<Rightarrow> api_error \<Rightarrow> bool" where
  "outdated hash e \<longleftrightarrow> (\<exists>h. serverVersionOf e = Some h \<and> h \<noteq> hash) \<and> \<not> isBadAuth e"

lemma handle_model:
  "buildHash (fst (HandleAPIError L now e m)) = buildHash m"
  "lastReload (fst (HandleAPIError L now e m)) = (if shouldReload now e m then Some now else lastReload m)"
  "ReloadPage \<in> set (snd (HandleAPIError L now e m)) \<longleftrightarrow> shouldReload now e m"
  "shouldReload now e m \<Longrightarrow> snd (HandleAPIError L now e m) = [ReloadPage]"
  by (simp_all add: HandleAPIError_def Let_def)

lemma outdated_reload:
  "outdated (buildHash m) e \<Longrightarrow> lastReload m = Some t \<Longrightarrow> shouldReload now e m \<longleftrightarrow> now < t + 60000"
  by (auto simp: outdated_def shouldReload_def)

text \<open>Every error is handled within a minute of the last reload, as the page remembers it.\<close>

fun within_minute :: "rat \<Rightarrow> rat list \<Rightarrow> bool" where
  "within_minute t [] = True"
| "within_minute t (now # later) = (now < t + 60000 \<and> within_minute (saved_time now) later)"

lemma saved_time_bounds: "saved_time t \<le> t" "t < saved_time t + 1000"
proof -
  have "of_int \<lfloor>t / 1000\<rfloor> \<le> t / 1000" "t / 1000 < of_int \<lfloor>t / 1000\<rfloor> + 1" by linarith+
  then show "saved_time t \<le> t" "t < saved_time t + 1000" by (simp_all add: saved_time_def field_simps)
qed

lemma within_59_seconds: "now < t + 60000 \<Longrightarrow> successively (\<lambda>a b. b \<le> a + 59000) (now # later) \<Longrightarrow> within_minute t (now # later)"
proof (induction later arbitrary: t now)
  case (Cons b later)
  have "now < saved_time now + 1000" by (rule saved_time_bounds)
  then have "b < saved_time now + 60000" using Cons.prems(2) by simp
  then show ?case using Cons by simp
qed simp

lemma late_errors:
  assumes "lastReload m = Some t" "\<forall>ne \<in> set es. outdated (buildHash m) (snd ne) \<and> t + 60000 \<le> fst ne"
  shows "\<forall>cmds \<in> set (snd (handle_errors L es m)). ReloadPage \<notin> set cmds"
  using assms
proof (induction es arbitrary: m)
  case (Cons ne es)
  obtain now e where ne: "ne = (now, e)" by force
  let ?m = "fst (HandleAPIError L now e m)"
  have n: "\<not> shouldReload now e m" using Cons.prems outdated_reload [of m e t now] by (simp add: ne)
  have "lastReload ?m = Some t" "buildHash ?m = buildHash m" using n Cons.prems(1) by (simp_all add: handle_model)
  then have "\<forall>cmds \<in> set (snd (handle_errors L es ?m)). ReloadPage \<notin> set cmds"
    using Cons.prems(2) by (intro Cons.IH) simp_all
  then show ?case using n by (auto simp: ne case_prod_beta Let_def handle_model)
qed simp

lemma close_errors:
  assumes "lastReload m = Some t" "\<forall>ne \<in> set es. outdated (buildHash m) (snd ne)"
    and "within_minute t (map fst es)"
  shows "\<forall>cmds \<in> set (snd (handle_errors L es m)). cmds = [ReloadPage]"
  using assms
proof (induction es arbitrary: m t)
  case (Cons ne es)
  obtain now e where ne: "ne = (now, e)" by force
  let ?m = "after_reload (fst (HandleAPIError L now e m))"
  have n: "shouldReload now e m" using Cons.prems outdated_reload [of m e t now] by (simp add: ne)
  have "lastReload ?m = Some (saved_time now)" "buildHash ?m = buildHash m"
    using n by (simp_all add: handle_model after_reload_def)
  then have "\<forall>cmds \<in> set (snd (handle_errors L es ?m)). cmds = [ReloadPage]"
    using Cons.prems(2,3) by (intro Cons.IH [of _ "saved_time now"]) (simp_all add: ne)
  then show ?case using n by (auto simp: ne case_prod_beta Let_def handle_model)
qed simp

section \<open>Properties\<close>

text \<open>Of several headers, the one with the server's version is found exactly if it lies on the way to
  the greatest key of the map: \<open>find_first_opt\<close> searches with a predicate that is not monotone, and a
  header in a left subtree is missed whatever its value.\<close>

theorem version_header_found_iff:
  assumes "originalError e = BadStatus r \<or> originalError e = BadPayload m r"
    and "filter (\<lambda>kd. names_version (fst kd)) (inorder (rsp_headers r)) = [(key, hash)]"
  shows "serverVersionOf e = (if (key, hash) \<in> set (right_spine (rsp_headers r)) then Some hash else None)"
  using assms(1) find_first_single [OF assms(2)] by (auto simp: serverVersionOf_def)

definition sample_headers :: "(string \<times> string) tree" where
  "sample_headers = Node (Node Leaf (''x-darklang-server-version'', ''new'') Leaf)
     (''x-frame-options'', ''DENY'') Leaf"

definition sample_response :: "(string \<times> string) tree \<Rightarrow> http_response" where
  "sample_response h = \<lparr>rsp_url = [], rsp_code = 500, rsp_message = [], rsp_headers = h, rsp_body = NoResponse\<rparr>"

definition sample_error :: "(string \<times> string) tree \<Rightarrow> api_error" where
  "sample_error h = \<lparr>ae_context = [], originalError = BadStatus (sample_response h), ae_reload = False,
     ae_importance = IgnorableError\<rparr>"

lemma sample_names: "names_version ''x-darklang-server-version''" "\<not> names_version ''x-frame-options''"
  by (code_simp)+

theorem version_header_found_iff_witness:
  "inorder sample_headers = [(''x-darklang-server-version'', ''new''), (''x-frame-options'', ''DENY'')]
   \<and> serverVersionOf (sample_error sample_headers) = None"
proof -
  have "filter (\<lambda>kd. names_version (fst kd)) (inorder (rsp_headers (sample_response sample_headers)))
      = [(''x-darklang-server-version'', ''new'')]"
    by (simp add: sample_response_def sample_headers_def sample_names)
  from version_header_found_iff [OF _ this, of "sample_error sample_headers"] show ?thesis
    by (simp add: sample_error_def sample_response_def sample_headers_def)
qed

text \<open>C18: While the server answers as another version than the page's, also after its reloads, errors of which
  each is handled within 60 seconds of the last reload, as the page remembers it (a reload saves its
  time without the milliseconds), all reload the page, while none does that comes 60 seconds or more
  after the last reload: the interval that is meant to keep reloads apart is the only one in which
  they happen.\<close>

theorem version_reload_window:
  assumes "lastReload m = Some t" and "\<And>now e. (now, e) \<in> set es \<Longrightarrow> outdated (buildHash m) e"
  shows "(within_minute t (map fst es) \<longrightarrow> snd (handle_errors L es m) = map (\<lambda>_. [ReloadPage]) es)
    \<and> ((\<forall>now \<in> set (map fst es). t + 60000 \<le> now)
      \<longrightarrow> (\<forall>cmds \<in> set (snd (handle_errors L es m)). ReloadPage \<notin> set cmds))"
proof -
  have l: "length (snd (handle_errors L es m)) = length es"
    by (rule handled_length)
  have o: "\<forall>ne \<in> set es. outdated (buildHash m) (snd ne)" using assms(2) by auto
  have "snd (handle_errors L es m) = map (\<lambda>_. [ReloadPage]) es" if w: "within_minute t (map fst es)"
  proof (rule nth_equalityI)
    show "snd (handle_errors L es m) ! i = map (\<lambda>_. [ReloadPage]) es ! i" if "i < length (snd (handle_errors L es m))" for i
      using close_errors [OF assms(1) o w, of L] that l nth_mem by fastforce
  qed (use l in simp)
  then show ?thesis using late_errors [OF assms(1)] o by auto
qed

theorem version_reload_window_witness:
  "let h = Node Leaf (''x-darklang-server-version'', ''new'') Leaf; e = sample_error h;
       L = \<lparr>sx_decode = (\<lambda>_. None), sx_dict = (\<lambda>_. [])\<rparr>;
       m = \<lparr>buildHash = ''old'', lastReload = Some 0, shown_error = None, usingNgrok = False\<rparr>
   in snd (handle_errors L [(999, e), (59999, e), (118999, e)] m) = [[ReloadPage], [ReloadPage], [ReloadPage]]
      \<and> ReloadPage \<notin> set (concat (snd (handle_errors L [(60000, e), (3600000, e)] m)))"
proof -
  let ?e = "sample_error (Node Leaf (''x-darklang-server-version'', ''new'') Leaf)"
  let ?L = "\<lparr>sx_decode = (\<lambda>_. None), sx_dict = (\<lambda>_. [])\<rparr>"
  let ?m = "\<lparr>buildHash = ''old'', lastReload = Some 0, shown_error = None, usingNgrok = False\<rparr>"
  have o: "outdated ''old'' ?e"
    by (simp add: outdated_def serverVersionOf_def sample_error_def sample_response_def sample_names isBadAuth_def)
  have w: "within_minute 0 [999, 59999, 118999]" by code_simp
  show ?thesis
    using version_reload_window [of ?m 0 "[(999, ?e), (59999, ?e), (118999, ?e)]" ?L]
      version_reload_window [of ?m 0 "[(60000, ?e), (3600000, ?e)]" ?L] o w
    by (auto simp: Let_def simp del: within_minute.simps)
qed

end
