(* ===== verification/FunctionExecution.thy ===== *)
theory FunctionExecution
  imports ClientTraces LiveValues ApiErrors
begin

text \<open>
  Running a function from the editor: the click of a call's button or of a function's run button, the
  call of the API, its answer and the analyses that follow, with the handlers of \<open>Main.ml\<close> for
  \<open>ExecuteFunctionButton\<close>, \<open>ExecuteFunctionFromWithin\<close>, \<open>ExecuteFunctionAPICallback\<close> and
  \<open>ReceiveAnalysis\<close>, on top of the traces of \<open>ClientTraces\<close>, the values of \<open>LiveValues\<close> and the errors of
  \<open>ApiErrors\<close>. A click acts on the view on the screen, which may be older than the model: it is made
  anew only when the browser renders, and then only if the key of its cache (\<open>canvas/View.ml\<close>,
  \<open>util/ViewCache.ml\<close>) has changed or the cursor is in it; the key knows nothing of running functions,
  analyses or permissions.
\<close>

section \<open>The model\<close>

text \<open>Names that are still blank are \<open>None\<close>.\<close>

record user_function =
  ufmName :: "string option"
  ufmParameters :: "string option list"

text \<open>\<open>asts\<close> are the expressions of the toplevels that have one, \<open>ufs\<close> the functions among them.\<close>

record exec_client =
  base :: "dval client"
  asts :: "string \<Rightarrow> expr"
  ufs :: "string \<Rightarrow> user_function"
  analyses :: "string \<rightharpoonup> analysis_store"
  executingFunctions :: "(string \<times> string) list"
  user_permission :: "permission option"
  errors :: error_model

record exec_params =
  efpTLID :: string
  efpTraceID :: string
  efpCallerID :: string
  efpFnName :: string
  efpArgs :: "dval list"

datatype exec_command = ClientCmd "dval command" | ExecuteCall exec_params | ErrorCmd error_command

datatype analysis_error = AnalysisExecutionError string string | AnalysisParseError string

type_synonym analysis_result = "analysis_error + (string \<times> result_store)"

definition getAST :: "exec_client \<Rightarrow> string \<Rightarrow> expr option" where
  "getAST m tlid =
     (case toplevels (base m) tlid of
        Some TLHandler \<Rightarrow> Some (asts m tlid)
      | Some TLFunc \<Rightarrow> Some (asts m tlid)
      | Some TLPmFunc \<Rightarrow> Some (asts m tlid)
      | _ \<Rightarrow> None)"

definition getStoredAnalysis :: "exec_client \<Rightarrow> string \<Rightarrow> analysis_store" where
  "getStoredAnalysis m traceID = (case analyses m traceID of None \<Rightarrow> LoadableNotInitialized | Some s \<Rightarrow> s)"

definition record_analysis :: "(string \<rightharpoonup> analysis_store) \<Rightarrow> string \<Rightarrow> analysis_store \<Rightarrow> (string \<rightharpoonup> analysis_store)" where
  "record_analysis old i result = old(i \<mapsto> result)"

definition getLiveValue :: "exec_client \<Rightarrow> string \<Rightarrow> string \<Rightarrow> dval option" where
  "getLiveValue m i traceID = getLiveValue' (getStoredAnalysis m traceID) i"

text \<open>\<open>Analysis.getArguments\<close>.\<close>

definition live_arguments :: "exec_client \<Rightarrow> string \<Rightarrow> string \<Rightarrow> string \<Rightarrow> dval list option" where
  "live_arguments m tlid callerID traceID =
     (case getAST m tlid of
        Some ast \<Rightarrow>
          (let argIDs = map toID (getArguments callerID ast);
               dvals = List.map_filter (\<lambda>i. getLiveValue m i traceID) argIDs
           in if length dvals = length argIDs then Some dvals else None)
      | None \<Rightarrow> None)"

definition selectedTrace :: "(string \<Rightarrow> string) \<Rightarrow> dval client \<Rightarrow> string \<Rightarrow> dval trace option" where
  "selectedTrace default_id m tlid =
     Option.bind (getSelectedTraceID default_id m tlid)
       (\<lambda>traceID. List.find (\<lambda>t. fst t = traceID) (getTraces default_id m tlid))"

section \<open>The buttons\<close>

definition exec_props_of :: "(string \<Rightarrow> string) \<Rightarrow> exec_client \<Rightarrow> string \<Rightarrow> exec_props" where
  "exec_props_of default_id m tlid =
     \<lparr>ep_store = (case getSelectedTraceID default_id (base m) tlid of
          None \<Rightarrow> LoadableNotInitialized | Some traceID \<Rightarrow> getStoredAnalysis m traceID),
      ep_ast = (case getAST m tlid of None \<Rightarrow> EBlank [] | Some ast \<Rightarrow> ast),
      ep_executing = map snd (filter (\<lambda>c. fst c = tlid) (executingFunctions m)),
      ep_permission = user_permission m,
      ep_tlid = tlid\<rparr>"

definition call_button ::
  "(string \<Rightarrow> string) \<Rightarrow> exec_client \<Rightarrow> function_ \<Rightarrow> string \<Rightarrow> string
     \<Rightarrow> (execution_status \<times> (string \<times> string \<times> string) list) option" where
  "call_button default_id m fn tlid i =
     (let p = exec_props_of default_id m tlid
      in fnExecutionButton p fn i (map toID (getArguments i (ep_ast p))))"

definition inputToArgs :: "user_function \<Rightarrow> (string \<times> dval) list \<Rightarrow> dval list" where
  "inputToArgs f input =
     map (\<lambda>p. case p of
            Some name \<Rightarrow> (case map_of input name of Some v \<Rightarrow> v | None \<Rightarrow> DIncomplete SourceNone)
          | None \<Rightarrow> DIncomplete SourceNone) (ufmParameters f)"

datatype exeFunction = CanExecute string "dval list" | CannotExecute string | IsExecuting

text \<open>The status of a function's run button.\<close>

definition exeStatus :: "(string \<Rightarrow> string) \<Rightarrow> exec_client \<Rightarrow> string \<Rightarrow> exeFunction" where
  "exeStatus default_id m tlid =
     (if list_ex (\<lambda>c. fst c = tlid) (executingFunctions m) then IsExecuting
      else
        (case selectedTrace default_id (base m) tlid of
           Some (traceID, Inr td) \<Rightarrow>
             (let args = inputToArgs (ufs m tlid) (td_input td)
              in if list_ex is_incomplete args then CannotExecute ''Cannot run function with incomplete arguments''
                 else if list_ex (\<lambda>dv. case dv of DError _ _ \<Rightarrow> True | _ \<Rightarrow> False) args
                 then CannotExecute ''Cannot run function with arguments that has an error''
                 else CanExecute traceID args)
         | _ \<Rightarrow> CannotExecute ''Cannot run function with no trace data''))"

text \<open>The message of its click, for a function with a name.\<close>

definition run_button :: "(string \<Rightarrow> string) \<Rightarrow> exec_client \<Rightarrow> string \<Rightarrow> exec_params option" where
  "run_button default_id m tlid =
     (case (ufmName (ufs m tlid), exeStatus default_id m tlid) of
        (Some name, CanExecute traceID args) \<Rightarrow>
          Some \<lparr>efpTLID = tlid, efpTraceID = traceID, efpCallerID = toID (asts m tlid), efpFnName = name, efpArgs = args\<rparr>
      | _ \<Rightarrow> None)"

text \<open>The buttons of a toplevel that send a message.\<close>

definition call_offered :: "(string \<Rightarrow> string) \<Rightarrow> exec_client \<Rightarrow> function_ \<Rightarrow> string \<Rightarrow> string \<Rightarrow> bool" where
  "call_offered default_id m fn tlid i =
     (case call_button default_id m fn tlid i of None \<Rightarrow> False | Some (status, evs) \<Rightarrow> (tlid, i, fnName fn) \<in> set evs)"

definition run_offered :: "(string \<Rightarrow> string) \<Rightarrow> exec_client \<Rightarrow> string \<Rightarrow> exec_params option" where
  "run_offered default_id m tlid =
     (if toplevels (base m) tlid = Some TLFunc then run_button default_id m tlid else None)"

section \<open>The cached views\<close>

text \<open>The view of a toplevel: the model it was made from, which decides the buttons of its calls (their
  messages are made of what the click names), and the message of its run button.\<close>

record tl_view =
  v_of :: exec_client
  v_run :: "exec_params option"

definition view_toplevel :: "(string \<Rightarrow> string) \<Rightarrow> exec_client \<Rightarrow> string \<Rightarrow> tl_view" where
  "view_toplevel default_id m tlid = \<lparr>v_of = m, v_run = run_offered default_id m tlid\<rparr>"

text \<open>The run button's handler has the key \<open>run-fun-\<close> with the ids of the function and of the trace. The virtual
  DOM may take a handler with the same key as before for the same and keep the old one.\<close>

definition kept_handler :: "tl_view \<Rightarrow> tl_view \<Rightarrow> tl_view" where
  "kept_handler old new =
     (case (v_run old, v_run new) of
        (Some p, Some q) \<Rightarrow> if efpTLID p = efpTLID q \<and> efpTraceID p = efpTraceID q then new\<lparr>v_run := Some p\<rparr> else new
      | _ \<Rightarrow> new)"

text \<open>\<open>tlCacheKey\<close> for handlers, functions and package functions. \<open>rest\<close> stands for what the model here has not: the
  identifier hovered over, the avatars, the handler's properties, the menu, the worker's schedule and two
  settings of the editor.\<close>

record view_key =
  vk_tl :: "tl_kind option \<times> expr \<times> user_function"
  vk_traceID :: "string option"
  vk_tracesLoaded :: "bool list"
  vk_rest :: string

definition tlCacheKey :: "(string \<Rightarrow> string) \<Rightarrow> string \<Rightarrow> exec_client \<Rightarrow> string \<Rightarrow> view_key option" where
  "tlCacheKey default_id rest m tlid =
     (if focused (base m) = Some tlid then None
      else
        (let tracesLoaded = map (\<lambda>t. case snd t of Inr _ \<Rightarrow> True | Inl MaximumCallStackError \<Rightarrow> True | _ \<Rightarrow> False)
               (getTraces default_id (base m) tlid)
         in Some \<lparr>vk_tl = (toplevels (base m) tlid, asts m tlid, ufs m tlid),
              vk_traceID = getSelectedTraceID default_id (base m) tlid,
              vk_tracesLoaded = tracesLoaded, vk_rest = rest\<rparr>))"

text \<open>\<open>ViewCache.cache2m\<close>, with the key and the view of the last time.\<close>

definition cache2m ::
  "('a \<Rightarrow> 'b \<Rightarrow> 'k option) \<Rightarrow> ('a \<Rightarrow> 'b \<Rightarrow> 'v) \<Rightarrow> 'a \<Rightarrow> 'b \<Rightarrow> ('k option \<times> 'v) option \<Rightarrow> 'k option \<times> 'v" where
  "cache2m keyFn expensiveFn arg1 arg2 cached =
     (case (keyFn arg1 arg2, cached) of
        (Some k, Some (Some k', v)) \<Rightarrow> (Some k, if k = k' then v else expensiveFn arg1 arg2)
      | (k, _) \<Rightarrow> (k, expensiveFn arg1 arg2))"

section \<open>The handlers\<close>

definition lift_client ::
  "(dval client \<Rightarrow> dval client \<times> dval command list) \<Rightarrow> exec_client \<Rightarrow> exec_client \<times> exec_command list" where
  "lift_client f m = (let (b, cmds) = f (base m) in (m\<lparr>base := b\<rparr>, map ClientCmd cmds))"

definition set_error :: "string \<Rightarrow> exec_client \<Rightarrow> exec_client" where
  "set_error str m = m\<lparr>errors := (errors m)\<lparr>shown_error := Some str\<rparr>\<rparr>"

definition UpdateAnalysis :: "string \<Rightarrow> result_store \<Rightarrow> exec_client \<Rightarrow> exec_client" where
  "UpdateAnalysis traceID dvals m = m\<lparr>analyses := record_analysis (analyses m) traceID (LoadableSuccess dvals)\<rparr>"

definition ReceiveAnalysis :: "analysis_result \<Rightarrow> exec_client \<Rightarrow> exec_client" where
  "ReceiveAnalysis result m =
     (case result of
        Inr (i, analysisResults) \<Rightarrow> UpdateAnalysis i analysisResults m
      | Inl (AnalysisExecutionError _ str) \<Rightarrow> set_error str m
      | Inl (AnalysisParseError str) \<Rightarrow> set_error str m)"

definition ExecutingFunctionBegan :: "string \<Rightarrow> string \<Rightarrow> exec_client \<Rightarrow> exec_client" where
  "ExecutingFunctionBegan tlid i m = m\<lparr>executingFunctions := executingFunctions m @ [(tlid, i)]\<rparr>"

definition ExecutingFunctionComplete :: "(string \<times> string) list \<Rightarrow> exec_client \<Rightarrow> exec_client" where
  "ExecutingFunctionComplete targets m =
     m\<lparr>executingFunctions := filter (\<lambda>target. target \<notin> set targets) (executingFunctions m)\<rparr>"

definition ExecutingFunctionAPICall ::
  "(string \<Rightarrow> string) \<Rightarrow> string \<Rightarrow> string \<Rightarrow> string \<Rightarrow> exec_client \<Rightarrow> exec_client \<times> exec_command list" where
  "ExecutingFunctionAPICall default_id tlid i name m =
     (let not_loaded = (ExecutingFunctionComplete [(tlid, i)] (set_error ''Traces are not loaded for this handler'' m), [])
      in case toplevels (base m) tlid of
           Some _ \<Rightarrow>
             (case Option.bind (getSelectedTraceID default_id (base m) tlid) (getTrace default_id (base m) tlid) of
                Some (traceID, _) \<Rightarrow>
                  (case live_arguments m tlid i traceID of
                     Some args \<Rightarrow>
                       (m, [ExecuteCall \<lparr>efpTLID = tlid, efpTraceID = traceID, efpCallerID = i, efpFnName = name, efpArgs = args\<rparr>])
                   | None \<Rightarrow> not_loaded)
              | None \<Rightarrow> not_loaded)
         | None \<Rightarrow> (ExecutingFunctionComplete [(tlid, i)] m, []))"

text \<open>The third modification of the handler, \<open>Select\<close>, moves the caret: a \<open>Refocus\<close> of its own.\<close>

definition ExecuteFunctionButton ::
  "(string \<Rightarrow> string) \<Rightarrow> string \<Rightarrow> string \<Rightarrow> string \<Rightarrow> exec_client \<Rightarrow> exec_client \<times> exec_command list" where
  "ExecuteFunctionButton default_id tlid i name m =
     ExecutingFunctionAPICall default_id tlid i name (ExecutingFunctionBegan tlid i m)"

definition ExecuteFunctionFromWithin :: "exec_params \<Rightarrow> exec_client \<Rightarrow> exec_client \<times> exec_command list" where
  "ExecuteFunctionFromWithin p m = (ExecutingFunctionBegan (efpTLID p) (efpCallerID p) m, [ExecuteCall p])"

text \<open>The two cases of \<open>ExecuteFunctionAPICallback\<close>; the unlocked databases are not in this model.\<close>

definition execute_callback_ok ::
  "(string \<Rightarrow> string) \<Rightarrow> exec_params \<Rightarrow> dval \<times> string \<times> int \<times> string list \<Rightarrow> exec_client \<Rightarrow> exec_client \<times> exec_command list" where
  "execute_callback_ok default_id params ans m =
     (case ans of (dval, hash, hashVersion, tlids) \<Rightarrow>
       (let (m1, c1) = lift_client (UpdateTraceFunctionResult default_id (efpTLID params) (efpTraceID params)
               \<lparr>fr_fnName = efpFnName params, fr_callerID = efpCallerID params, fr_argHash = hash,
                fr_argHashVersion = hashVersion, fr_value = dval\<rparr>) m;
            m2 = ExecutingFunctionComplete [(efpTLID params, efpCallerID params)] m1;
            (m3, c3) = lift_client (OverrideTraces default_id
               (map_of (map (\<lambda>tlid. (tlid, [(efpTraceID params, Inl NoneYet)])) tlids))) m2
        in (m3, c1 @ c3)))"

definition execute_callback_error ::
  "exception_lib \<Rightarrow> rat \<Rightarrow> http_error \<Rightarrow> exec_client \<Rightarrow> exec_client \<times> exec_command list" where
  "execute_callback_error L now err m =
     (let (e, cmds) = HandleAPIError L now
            \<lparr>ae_context = ''ExecuteFunction'', originalError = err, ae_reload = False, ae_importance = ImportantError\<rparr> (errors m)
      in (m\<lparr>errors := e\<rparr>, map ErrorCmd cmds))"

section \<open>Steps\<close>

text \<open>
  The client with the calls under way. \<open>failed\<close> (the calls that ended in an error) and \<open>analysed\<close> (the
  results of analyses) are records that nothing reads; after a reload of the page the client starts
  anew and no callback of the old page runs. \<open>Edit\<close> is any change of the program and of the rights of
  the user. \<open>screen\<close> has the views of the toplevels on the screen: \<open>Render\<close> is a rendering of one of them,
  \<open>Hide\<close> takes it off the screen. \<open>stale_clicks\<close> records the calls started with a button that the view of
  the model at the click no longer has.
\<close>

record exec_system =
  cm :: exec_client
  calls :: "exec_params list"
  failed :: "(string \<times> string) list"
  analysed :: "(string \<times> result_store) list"
  screen :: "string \<Rightarrow> (view_key option \<times> tl_view) option"
  stale_clicks :: "(string \<times> string) list"

datatype exec_event =
    ClickCall function_ string string
  | ClickRun string
  | CallOk nat "dval \<times> string \<times> int \<times> string list"
  | CallFailed nat rat http_error
  | Analysed analysis_result
  | ClientEvent "dval client_event"
  | Edit "string \<Rightarrow> expr" "string \<Rightarrow> user_function" "permission option"
  | Render string string bool
  | Hide string

definition call_key :: "exec_params \<Rightarrow> string \<times> string" where
  "call_key p = (efpTLID p, efpCallerID p)"

fun new_calls :: "exec_command list \<Rightarrow> exec_params list" where
  "new_calls [] = []"
| "new_calls (ExecuteCall p # cmds) = p # new_calls cmds"
| "new_calls (c # cmds) = new_calls cmds"

definition reloads :: "exec_command list \<Rightarrow> bool" where
  "reloads cmds \<longleftrightarrow> ErrorCmd ReloadPage \<in> set cmds"

text \<open>Of the traces only the selection is saved and loaded again.\<close>

definition reloaded :: "exec_client \<Rightarrow> exec_client" where
  "reloaded m = m\<lparr>base := (model init_client)\<lparr>tlTraceIDs := tlTraceIDs (base m)\<rparr>, analyses := (\<lambda>_. None), executingFunctions := [],
     errors := after_reload (errors m)\<rparr>"

text \<open>A rendering of the view of a toplevel, as \<open>viewTL\<close> does it; \<open>keep\<close> is whether the virtual DOM keeps the old
  handler.\<close>

definition viewTL :: "(string \<Rightarrow> string) \<Rightarrow> string \<Rightarrow> bool \<Rightarrow> exec_system \<Rightarrow> string \<Rightarrow> view_key option \<times> tl_view" where
  "viewTL d rest keep s tlid =
     cache2m (tlCacheKey d rest)
       (\<lambda>m tlid. case screen s tlid of
          Some (_, old) \<Rightarrow> if keep then kept_handler old (view_toplevel d m tlid) else view_toplevel d m tlid
        | None \<Rightarrow> view_toplevel d m tlid)
       (cm s) tlid (screen s tlid)"

fun exec_enabled :: "(string \<Rightarrow> string) \<Rightarrow> exec_event \<Rightarrow> exec_system \<Rightarrow> bool" where
  "exec_enabled d (ClickCall fn tlid i) s =
     (case screen s tlid of None \<Rightarrow> False | Some (_, v) \<Rightarrow> call_offered d (v_of v) fn tlid i)"
| "exec_enabled d (ClickRun tlid) s =
     (case screen s tlid of None \<Rightarrow> False | Some (_, v) \<Rightarrow> v_run v \<noteq> None)"
| "exec_enabled d (CallOk n ans) s = (n < length (calls s))"
| "exec_enabled d (CallFailed n now err) s = (n < length (calls s))"
| "exec_enabled d (Render tlid rest keep) s = (getAST (cm s) tlid \<noteq> None)"
| "exec_enabled d _ s = True"

definition after_click :: "(string \<times> string) list \<Rightarrow> exec_client \<times> exec_command list \<Rightarrow> exec_system \<Rightarrow> exec_system" where
  "after_click stale r s =
     s\<lparr>cm := fst r, calls := calls s @ new_calls (snd r), stale_clicks := stale_clicks s @ stale\<rparr>"

definition without :: "nat \<Rightarrow> 'a list \<Rightarrow> 'a list" where
  "without n xs = take n xs @ drop (Suc n) xs"

fun exec_run :: "(string \<Rightarrow> string) \<Rightarrow> exception_lib \<Rightarrow> exec_event \<Rightarrow> exec_system \<Rightarrow> exec_system" where
  "exec_run d L (ClickCall fn tlid i) s =
     after_click (if call_offered d (cm s) fn tlid i then [] else [(tlid, i)])
       (ExecuteFunctionButton d tlid i (fnName fn) (cm s)) s"
| "exec_run d L (ClickRun tlid) s =
     (case Option.bind (screen s tlid) (\<lambda>v. v_run (snd v)) of
        None \<Rightarrow> s
      | Some p \<Rightarrow>
          after_click (if run_offered d (cm s) tlid = None then [call_key p] else [])
            (ExecuteFunctionFromWithin p (cm s)) s)"
| "exec_run d L (CallOk n ans) s =
     s\<lparr>cm := fst (execute_callback_ok d (calls s ! n) ans (cm s)), calls := without n (calls s)\<rparr>"
| "exec_run d L (CallFailed n now err) s =
     (let (m, cmds) = execute_callback_error L now err (cm s)
      in if reloads cmds then \<lparr>cm = reloaded m, calls = [], failed = [], analysed = [], screen = (\<lambda>_. None), stale_clicks = []\<rparr>
         else s\<lparr>cm := m, calls := without n (calls s), failed := failed s @ [call_key (calls s ! n)]\<rparr>)"
| "exec_run d L (Analysed result) s =
     s\<lparr>cm := ReceiveAnalysis result (cm s),
       analysed := analysed s @ (case result of Inr r \<Rightarrow> [r] | Inl _ \<Rightarrow> [])\<rparr>"
| "exec_run d L (ClientEvent e) s = s\<lparr>cm := fst (lift_client (client_handle d e) (cm s))\<rparr>"
| "exec_run d L (Edit es fs perm) s = s\<lparr>cm := (cm s)\<lparr>asts := es, ufs := fs, user_permission := perm\<rparr>\<rparr>"
| "exec_run d L (Render tlid rest keep) s = s\<lparr>screen := (screen s)(tlid \<mapsto> viewTL d rest keep s tlid)\<rparr>"
| "exec_run d L (Hide tlid) s = s\<lparr>screen := (screen s)(tlid := None)\<rparr>"

definition init_exec :: "error_model \<Rightarrow> exec_system" where
  "init_exec em = \<lparr>cm = \<lparr>base = model init_client, asts = (\<lambda>_. EBlank []), ufs = (\<lambda>_. \<lparr>ufmName = None, ufmParameters = []\<rparr>),
     analyses = (\<lambda>_. None), executingFunctions = [], user_permission = None, errors = em\<rparr>,
     calls = [], failed = [], analysed = [], screen = (\<lambda>_. None), stale_clicks = []\<rparr>"

inductive exec_steps :: "(string \<Rightarrow> string) \<Rightarrow> exception_lib \<Rightarrow> exec_system \<Rightarrow> bool" for d :: "string \<Rightarrow> string" and L :: exception_lib where
  ex_start: "exec_steps d L (init_exec em)"
| ex_step: "exec_steps d L s \<Longrightarrow> exec_enabled d e s \<Longrightarrow> exec_steps d L (exec_run d L e s)"

section \<open>Every running function is accounted for\<close>

lemma lift_client_simps [simp]:
  "base (fst (lift_client f m)) = fst (f (base m))"
  "asts (fst (lift_client f m)) = asts m"
  "analyses (fst (lift_client f m)) = analyses m"
  "executingFunctions (fst (lift_client f m)) = executingFunctions m"
  "snd (lift_client f m) = map ClientCmd (snd (f (base m)))"
  by (simp_all add: lift_client_def case_prod_beta Let_def)

lemma complete_simps [simp]:
  "base (ExecutingFunctionComplete ts m) = base m"
  "analyses (ExecutingFunctionComplete ts m) = analyses m"
  "executingFunctions (ExecutingFunctionComplete ts m) = filter (\<lambda>c. c \<notin> set ts) (executingFunctions m)"
  by (simp_all add: ExecutingFunctionComplete_def)

lemma began_simps [simp]:
  "base (ExecutingFunctionBegan t i m) = base m"
  "analyses (ExecutingFunctionBegan t i m) = analyses m"
  "executingFunctions (ExecutingFunctionBegan t i m) = executingFunctions m @ [(t, i)]"
  by (simp_all add: ExecutingFunctionBegan_def)

lemma set_error_simps [simp]:
  "base (set_error str m) = base m" "analyses (set_error str m) = analyses m"
  "executingFunctions (set_error str m) = executingFunctions m"
  by (simp_all add: set_error_def)

lemma receive_simps [simp]:
  "base (ReceiveAnalysis r m) = base m" "executingFunctions (ReceiveAnalysis r m) = executingFunctions m"
  by (auto simp: ReceiveAnalysis_def UpdateAnalysis_def split: sum.split prod.split analysis_error.split)

lemma callback_ok_simps [simp]:
  "executingFunctions (fst (execute_callback_ok d p a m)) = filter (\<lambda>c. c \<noteq> call_key p) (executingFunctions m)"
  "analyses (fst (execute_callback_ok d p a m)) = analyses m"
  by (cases a; simp add: execute_callback_ok_def call_key_def case_prod_beta Let_def)+

lemma callback_error_simps [simp]:
  "executingFunctions (fst (execute_callback_error L now err m)) = executingFunctions m"
  "analyses (fst (execute_callback_error L now err m)) = analyses m"
  by (simp_all add: execute_callback_error_def case_prod_beta Let_def)

text \<open>The call of the API either goes out, or the mark of the call is removed at once.\<close>

lemma api_call_cases:
  "(\<exists>p. ExecutingFunctionAPICall d t i name m = (m, [ExecuteCall p]) \<and> call_key p = (t, i))
   \<or> (\<exists>m'. ExecutingFunctionAPICall d t i name m = (m', []) \<and> analyses m' = analyses m
        \<and> executingFunctions m' = filter (\<lambda>c. c \<noteq> (t, i)) (executingFunctions m))"
  by (auto simp: ExecutingFunctionAPICall_def Let_def call_key_def split: option.split)

text \<open>Every mark belongs to a call under way or to one that failed; and for a call that was started only with
  buttons the model's view had, they are counted exactly.\<close>

definition marks :: "exec_system \<Rightarrow> string \<times> string \<Rightarrow> nat" where
  "marks s k = count_list (executingFunctions (cm s)) k"

definition owed :: "exec_system \<Rightarrow> string \<times> string \<Rightarrow> nat" where
  "owed s k = count_list (map call_key (calls s)) k + count_list (failed s) k"

definition accounted :: "exec_system \<Rightarrow> bool" where
  "accounted s \<longleftrightarrow> set (executingFunctions (cm s)) \<subseteq> set (map call_key (calls s)) \<union> set (failed s)
    \<and> (\<forall>k. k \<notin> set (stale_clicks s) \<longrightarrow> marks s k \<le> 1 \<and> marks s k = owed s k)"

definition screen_ok :: "exec_system \<Rightarrow> bool" where
  "screen_ok s \<longleftrightarrow> (\<forall>t k v p. screen s t = Some (k, v) \<longrightarrow> v_run v = Some p \<longrightarrow> efpTLID p = t)"

lemma button_not_executing:
  assumes "call_offered d m fn t i"
  shows "(t, i) \<notin> set (executingFunctions m)"
proof -
  let ?p = "exec_props_of d m t"
  obtain status evs where b: "fnExecutionButton ?p fn i (map toID (getArguments i (ep_ast ?p))) = Some (status, evs)"
      "(t, i, fnName fn) \<in> set evs"
    using assms by (auto simp: call_offered_def call_button_def Let_def split: option.splits)
  have "i \<notin> set (ep_executing ?p)" using button_events [OF b] by simp
  then show ?thesis by (force simp: exec_props_of_def)
qed

lemma run_offered_free:
  "run_offered d m t = Some p \<Longrightarrow> efpTLID p = t"
  "run_offered d m t = Some p \<Longrightarrow> (t, i) \<notin> set (executingFunctions m)"
  by (fastforce simp: run_offered_def run_button_def exeStatus_def list_ex_iff Let_def
      split: option.splits exeFunction.splits if_splits)+

lemma accountedI:
  assumes "set (executingFunctions (cm s)) \<subseteq> set (map call_key (calls s)) \<union> set (failed s)"
    and "\<And>k. k \<notin> set (stale_clicks s) \<Longrightarrow> marks s k \<le> 1 \<and> marks s k = owed s k"
  shows "accounted s"
  unfolding accounted_def using assms by blast

lemma accounted_count: "accounted s \<Longrightarrow> k \<notin> set (stale_clicks s) \<Longrightarrow> marks s k \<le> 1 \<and> marks s k = owed s k"
  unfolding accounted_def by blast

lemma accounted_cong:
  "accounted s \<Longrightarrow> executingFunctions (cm s') = executingFunctions (cm s) \<Longrightarrow> calls s' = calls s \<Longrightarrow> failed s' = failed s
    \<Longrightarrow> stale_clicks s' = stale_clicks s \<Longrightarrow> accounted s'"
  unfolding accounted_def marks_def owed_def by metis

lemma count_list_filter_not: "count_list (filter (\<lambda>c. c \<noteq> k) xs) j = (if j = k then 0 else count_list xs j)"
  by (induction xs) auto

lemma without_split: "n < length xs \<Longrightarrow> xs = take n xs @ xs ! n # drop (Suc n) xs"
  by (rule id_take_nth_drop)

lemma without_count:
  assumes "n < length (calls s)"
  shows "count_list (map call_key (calls s)) k
    = (if k = call_key (calls s ! n) then 1 else 0) + count_list (map call_key (without n (calls s))) k"
  by (subst without_split [OF assms]) (simp add: without_def del: append_take_drop_id)

lemma without_set:
  assumes "n < length (calls s)"
  shows "set (map call_key (calls s)) = insert (call_key (calls s ! n)) (set (map call_key (without n (calls s))))"
  by (subst without_split [OF assms]) (simp add: without_def del: append_take_drop_id)

text \<open>A click: the call goes out with a new mark, or no call goes out and the marks of its key are removed.\<close>

lemma click_accounted:
  assumes a: "accounted s" and k: "stale = [] \<and> k \<notin> set (executingFunctions (cm s)) \<or> stale = [k]"
    and r: "(\<exists>p. new_calls (snd r) = [p] \<and> call_key p = k \<and> executingFunctions (fst r) = executingFunctions (cm s) @ [k])
      \<or> (new_calls (snd r) = [] \<and> executingFunctions (fst r) = filter (\<lambda>c. c \<noteq> k) (executingFunctions (cm s)))"
  shows "accounted (after_click stale r s)"
proof (rule accountedI)
  let ?s = "after_click stale r s"
  show "set (executingFunctions (cm ?s)) \<subseteq> set (map call_key (calls ?s)) \<union> set (failed ?s)"
    using r a by (auto simp: after_click_def accounted_def)
  fix j
  assume "j \<notin> set (stale_clicks ?s)"
  then have j: "marks s j \<le> 1" "marks s j = owed s j" and n: "j = k \<Longrightarrow> marks s j = 0"
    using accounted_count [OF a, of j] k by (auto simp: after_click_def marks_def count_list_0_iff)
  from r show "marks ?s j \<le> 1 \<and> marks ?s j = owed ?s j"
  proof (elim disjE exE conjE)
    fix p
    assume "new_calls (snd r) = [p]" "call_key p = k" "executingFunctions (fst r) = executingFunctions (cm s) @ [k]"
    then have "marks ?s j = marks s j + (if j = k then 1 else 0)" "owed ?s j = owed s j + (if j = k then 1 else 0)"
      by (simp_all add: marks_def owed_def after_click_def)
    then show ?thesis using j n by (cases "j = k") simp_all
  next
    assume "new_calls (snd r) = []" "executingFunctions (fst r) = filter (\<lambda>c. c \<noteq> k) (executingFunctions (cm s))"
    then have "marks ?s j = (if j = k then 0 else marks s j)" "owed ?s j = owed s j"
      by (simp_all add: marks_def owed_def after_click_def count_list_filter_not)
    then show ?thesis using j n by (cases "j = k") simp_all
  qed
qed

lemma ok_accounted:
  assumes a: "accounted s" and n: "n < length (calls s)"
    and m: "executingFunctions m = filter (\<lambda>c. c \<noteq> call_key (calls s ! n)) (executingFunctions (cm s))"
  shows "accounted (s\<lparr>cm := m, calls := without n (calls s)\<rparr>)" (is "accounted ?s")
proof (rule accountedI)
  let ?k = "call_key (calls s ! n)"
  show "set (executingFunctions (cm ?s)) \<subseteq> set (map call_key (calls ?s)) \<union> set (failed ?s)"
    using a m without_set [OF n] by (auto simp: accounted_def)
  fix j
  assume "j \<notin> set (stale_clicks ?s)"
  then have j: "marks s j \<le> 1" "marks s j = owed s j" using accounted_count [OF a, of j] by simp_all
  have "marks ?s j = (if j = ?k then 0 else marks s j)" "owed s j = (if j = ?k then 1 else 0) + owed ?s j"
    using without_count [OF n, of j] by (simp_all add: marks_def owed_def m count_list_filter_not)
  then show "marks ?s j \<le> 1 \<and> marks ?s j = owed ?s j" using j by (cases "j = ?k") simp_all
qed

lemma failed_accounted:
  assumes a: "accounted s" and n: "n < length (calls s)" and m: "executingFunctions m = executingFunctions (cm s)"
  shows "accounted (s\<lparr>cm := m, calls := without n (calls s), failed := failed s @ [call_key (calls s ! n)]\<rparr>)" (is "accounted ?s")
proof (rule accountedI)
  show "set (executingFunctions (cm ?s)) \<subseteq> set (map call_key (calls ?s)) \<union> set (failed ?s)"
    using a m without_set [OF n] by (auto simp: accounted_def)
  fix j
  assume "j \<notin> set (stale_clicks ?s)"
  then have j: "marks s j \<le> 1" "marks s j = owed s j" using accounted_count [OF a, of j] by simp_all
  have "marks ?s j = marks s j" "owed ?s j = owed s j"
    using without_count [OF n, of j] by (simp_all add: marks_def owed_def m)
  then show "marks ?s j \<le> 1 \<and> marks ?s j = owed ?s j" using j by simp
qed

lemma kept_handler_run: "v_run (kept_handler old new) = Some p \<Longrightarrow> v_run old = Some p \<or> v_run new = Some p"
  by (cases "v_run old"; cases "v_run new") (auto simp: kept_handler_def split: if_splits)

lemma viewTL_run:
  assumes "screen_ok s" "v_run (snd (viewTL d rest keep s t)) = Some p"
  shows "efpTLID p = t"
proof -
  have n: "efpTLID p = t" if "v_run (view_toplevel d m t) = Some p" for m
    using run_offered_free(1) [of d m t p] that by (simp only: view_toplevel_def tl_view.simps)
  have o: "efpTLID p = t" if "screen s t = Some (x, old)" "v_run old = Some p" for x old
    using assms(1) that by (simp add: screen_ok_def)
  have k: "efpTLID p = t" if "v_run (kept_handler old (view_toplevel d m t)) = Some p" "screen s t = Some (x, old)" for old m x
    using kept_handler_run [OF that(1)] n [of m] o [OF that(2)] by blast
  consider "screen s t = None" | x old where "screen s t = Some (x, old)" by (cases "screen s t") auto
  then show ?thesis
  proof cases
    case 1
    then have "v_run (view_toplevel d (cm s) t) = Some p" using assms(2) by (simp add: viewTL_def cache2m_def split: option.splits)
    then show ?thesis by (rule n)
  next
    case 2
    then have "v_run old = Some p \<or> v_run (view_toplevel d (cm s) t) = Some p
        \<or> v_run (kept_handler old (view_toplevel d (cm s) t)) = Some p"
      using assms(2) by (auto simp: viewTL_def cache2m_def split: option.splits if_splits)
    then show ?thesis using n [of "cm s"] k [OF _ 2, of "cm s"] o [OF 2] by blast
  qed
qed

lemma exec_steps_screen: "exec_steps d L s \<Longrightarrow> screen_ok s"
proof (induction rule: exec_steps.induct)
  case (ex_start em)
  show ?case by (simp add: init_exec_def screen_ok_def)
next
  case (ex_step s e)
  have keep: "screen_ok s'" if "screen s' = screen s" for s' using ex_step.IH that by (simp add: screen_ok_def)
  show ?case
  proof (cases e)
    case (Render t rest keep)
    have "efpTLID p = t" if "viewTL d rest keep s t = (k, v)" "v_run v = Some p" for k v p
      using viewTL_run [OF ex_step.IH, of d rest keep t p] that by simp
    then show ?thesis using Render ex_step.IH by (auto simp: screen_ok_def)
  next
    case (CallFailed n now err)
    then show ?thesis using ex_step.IH by (auto simp: screen_ok_def case_prod_beta Let_def)
  qed (use ex_step.IH keep in \<open>auto simp: screen_ok_def after_click_def split: option.split\<close>)
qed

lemma exec_steps_accounted: "exec_steps d L s \<Longrightarrow> accounted s"
proof (induction rule: exec_steps.induct)
  case (ex_start em)
  show ?case by (simp add: init_exec_def accounted_def marks_def owed_def)
next
  case (ex_step s e)
  show ?case
  proof (cases e)
    case (ClickCall fn t i)
    let ?stale = "if call_offered d (cm s) fn t i then [] else [(t, i)]"
    have "?stale = [] \<and> (t, i) \<notin> set (executingFunctions (cm s)) \<or> ?stale = [(t, i)]"
      using button_not_executing by auto
    then show ?thesis unfolding ClickCall exec_run.simps
      using api_call_cases [of d t i "fnName fn" "ExecutingFunctionBegan t i (cm s)"]
      by (intro click_accounted [OF ex_step.IH]) (auto simp: ExecuteFunctionButton_def)
  next
    case (ClickRun t)
    then obtain k v p where p: "screen s t = Some (k, v)" "v_run v = Some p"
      using ex_step.hyps(2) by (auto split: option.splits)
    let ?stale = "if run_offered d (cm s) t = None then [call_key p] else []"
    have "efpTLID p = t" using exec_steps_screen [OF ex_step.hyps(1)] p by (auto simp: screen_ok_def)
    then have "?stale = [] \<and> call_key p \<notin> set (executingFunctions (cm s)) \<or> ?stale = [call_key p]"
      using run_offered_free(2) [of d "cm s" t] by (cases "run_offered d (cm s) t") (simp_all add: call_key_def)
    from click_accounted [OF ex_step.IH this, of "ExecuteFunctionFromWithin p (cm s)"] show ?thesis
      using ClickRun p by (simp add: ExecuteFunctionFromWithin_def call_key_def)
  next
    case (CallOk n ans)
    then show ?thesis using ok_accounted [OF ex_step.IH] ex_step.hyps(2) by simp
  next
    case (CallFailed n now err)
    then show ?thesis using failed_accounted [OF ex_step.IH] ex_step.hyps(2)
      by (simp add: case_prod_beta Let_def) (simp add: accounted_def reloaded_def marks_def owed_def)
  qed (rule accounted_cong [OF ex_step.IH]; simp)+
qed

section \<open>Rendering anew\<close>

definition renders_anew :: "(string \<Rightarrow> string) \<Rightarrow> string \<Rightarrow> exec_system \<Rightarrow> string \<Rightarrow> bool" where
  "renders_anew d rest s tlid =
     (case (tlCacheKey d rest (cm s) tlid, screen s tlid) of (Some k, Some (Some k', v)) \<Rightarrow> k \<noteq> k' | _ \<Rightarrow> True)"

lemma kept_handler_view: "v_of (kept_handler old new) = v_of new" "v_run (kept_handler old new) = None \<longleftrightarrow> v_run new = None"
  by (auto simp: kept_handler_def split: option.split)

lemma rendered_anew:
  assumes "renders_anew d rest s t"
  shows "v_of (snd (viewTL d rest keep s t)) = cm s"
    and "v_run (snd (viewTL d rest keep s t)) = None \<longleftrightarrow> run_offered d (cm s) t = None"
proof -
  let ?new = "view_toplevel d (cm s) t"
  have "snd (viewTL d rest keep s t) = ?new \<or> (\<exists>old. snd (viewTL d rest keep s t) = kept_handler old ?new)"
    using assms by (auto simp: renders_anew_def viewTL_def cache2m_def split: option.splits)
  then show "v_of (snd (viewTL d rest keep s t)) = cm s"
    and "v_run (snd (viewTL d rest keep s t)) = None \<longleftrightarrow> run_offered d (cm s) t = None"
    by (auto simp: kept_handler_view view_toplevel_def)
qed

text \<open>A call with a mark: the view of the model has no button that sends it, and once the toplevel is rendered anew,
  the screen has none.\<close>

lemma marked_silent:
  assumes "(t, i) \<in> set (executingFunctions (cm s))"
  shows "exeStatus d (cm s) t = IsExecuting" "\<not> call_offered d (cm s) fn t i"
    and "renders_anew d rest s t \<Longrightarrow> \<not> exec_enabled d (ClickCall fn t i) (exec_run d L (Render t rest keep) s)"
    and "renders_anew d rest s t \<Longrightarrow> \<not> exec_enabled d (ClickRun t) (exec_run d L (Render t rest keep) s)"
proof -
  show "exeStatus d (cm s) t = IsExecuting" using assms by (auto simp: exeStatus_def list_ex_iff)
  show c: "\<not> call_offered d (cm s) fn t i" using button_not_executing assms by blast
  have r: "run_offered d (cm s) t = None" using run_offered_free(2) assms by (cases "run_offered d (cm s) t") blast+
  assume a: "renders_anew d rest s t"
  show "\<not> exec_enabled d (ClickCall fn t i) (exec_run d L (Render t rest keep) s)"
    and "\<not> exec_enabled d (ClickRun t) (exec_run d L (Render t rest keep) s)"
    using rendered_anew [OF a, of keep] c r by (auto split: prod.splits)
qed

section \<open>The stored analyses\<close>

lemma map_of_snoc: "map_of (rev (xs @ [(k, v)])) = (map_of (rev xs))(k \<mapsto> v)"
  by simp

lemma api_call_analyses [simp]: "analyses (fst (ExecutingFunctionAPICall d t i name m)) = analyses m"
  using api_call_cases [of d t i name m] by auto

lemma exec_steps_analyses:
  "exec_steps d L s \<Longrightarrow> analyses (cm s) = (\<lambda>tr. map_option LoadableSuccess (map_of (rev (analysed s)) tr))"
proof (induction rule: exec_steps.induct)
  case (ex_start em)
  show ?case by (simp add: init_exec_def)
next
  case (ex_step s e)
  show ?case
  proof (cases e)
    case (ClickRun t)
    then show ?thesis using ex_step.IH
      by (auto simp: after_click_def ExecuteFunctionFromWithin_def split: option.split)
  next
    case (CallFailed n now err)
    then show ?thesis using ex_step.IH by (simp add: case_prod_beta Let_def reloaded_def)
  next
    case (Analysed r)
    then show ?thesis using ex_step.IH
      by (auto simp: ReceiveAnalysis_def UpdateAnalysis_def record_analysis_def set_error_def
          split: sum.split analysis_error.split)
  qed (use ex_step.IH in \<open>simp_all add: after_click_def ExecuteFunctionButton_def\<close>)
qed

section \<open>An executed value\<close>

lemma analyzeFocused_toplevels [simp]: "toplevels (fst (analyzeFocused d m)) = toplevels m"
  by (auto simp: analyzeFocused_def Let_def requestTrace_def attempt_def markRequestInModel_def
      split: option.split sum.split trace_error.split)

definition with_result :: "dval function_result \<Rightarrow> dval trace_data \<Rightarrow> dval trace_data" where
  "with_result r data = data\<lparr>td_functionResults := r # td_functionResults data\<rparr>"

lemma find_found: "List.find P xs = Some x \<Longrightarrow> P x"
  by (auto simp: find_Some_iff)

lemma getTrace_replaced:
  assumes "traces m t = Some ts" "getTrace d m t tr = Some (tr', Inr data)"
  shows "getTrace d (replaceFunctionResult t tr r m) t tr = Some (tr, Inr (with_result r data))"
proof -
  let ?f = "\<lambda>t. if fst t = tr then (tr, map_sum id (\<lambda>tdata. tdata\<lparr>td_functionResults := r # td_functionResults tdata\<rparr>) (snd t)) else t"
  have "List.find (\<lambda>t. fst t = tr) (map ?f us) = map_option ?f (List.find (\<lambda>t. fst t = tr) us)" for us :: "dval trace list"
    by (induction us) auto
  moreover have "tr' = tr" using find_found [OF assms(2) [unfolded getTrace_def]] by simp
  ultimately show ?thesis using assms
    by (simp add: getTrace_def getTraces_def replaceFunctionResult_def with_result_def)
qed

lemma pushed_none: "tlid \<notin> set tlids \<Longrightarrow> map_of (map (\<lambda>tlid. (tlid, x)) tlids) tlid = None"
  by (induction tlids) auto

lemma getTrace_kept:
  assumes "t \<notin> set tlids"
  shows "getTrace d (overrideTraces m (map_of (map (\<lambda>tlid. (tlid, x)) tlids))) t tr = getTrace d m t tr"
  using assms pushed_none [OF assms, of x]
  by (simp add: getTrace_def getTraces_def overrideTraces_def mergeTraces_def split: option.split)

lemma getTrace_cong: "traces m = traces m' \<Longrightarrow> getTrace d m = getTrace d m'"
  by (rule ext)+ (simp add: getTrace_def getTraces_def)

section \<open>Properties\<close>

text \<open>A handler \<open>f 1\<close> whose argument has a value, and the click of its button.\<close>

definition sample_exn_lib :: exception_lib where
  "sample_exn_lib = \<lparr>sx_decode = (\<lambda>_. None), sx_dict = (\<lambda>_. [])\<rparr>"

definition sample_exec_events :: "exec_event list" where
  "sample_exec_events =
     [Edit (\<lambda>_. EFnCall ''1'' ''f'' [EInteger ''2'' ''1''] NoRail) (\<lambda>_. \<lparr>ufmName = None, ufmParameters = []\<rparr>) (Some ReadWrite),
      ClientEvent (Refocus None [''h'' \<mapsto> TLHandler]),
      Analysed (Inr (''d'', [''2'' \<mapsto> ExecutedResult (DInt 1), ''1'' \<mapsto> ExecutedResult (DIncomplete (SourceId ''h'' ''1''))])),
      Analysed (Inl (AnalysisParseError ''bad'')),
      Render ''h'' [] False,
      ClickCall sample_fn ''h'' ''1'']"

fun exec_run_ok :: "exec_event list \<Rightarrow> exec_system \<Rightarrow> bool" where
  "exec_run_ok [] s = True"
| "exec_run_ok (e # es) s \<longleftrightarrow> exec_enabled (\<lambda>_. ''d'') e s \<and> exec_run_ok es (exec_run (\<lambda>_. ''d'') sample_exn_lib e s)"

definition exec_all :: "exec_event list \<Rightarrow> exec_system" where
  "exec_all es = fold (exec_run (\<lambda>_. ''d'') sample_exn_lib) es
     (init_exec \<lparr>buildHash = [], lastReload = None, shown_error = None, usingNgrok = False\<rparr>)"

lemma exec_run_steps:
  "exec_steps (\<lambda>_. ''d'') sample_exn_lib s \<Longrightarrow> exec_run_ok es s
    \<Longrightarrow> exec_steps (\<lambda>_. ''d'') sample_exn_lib (fold (exec_run (\<lambda>_. ''d'') sample_exn_lib) es s)"
  by (induction es arbitrary: s) (auto intro: ex_step)

lemma sample_exec_ok:
  "exec_run_ok sample_exec_events (init_exec \<lparr>buildHash = [], lastReload = None, shown_error = None, usingNgrok = False\<rparr>)"
  "exec_run_ok (sample_exec_events @ [CallFailed 0 0 NetworkError])
     (init_exec \<lparr>buildHash = [], lastReload = None, shown_error = None, usingNgrok = False\<rparr>)"
  by code_simp+

lemma sample_exec_steps:
  "exec_steps (\<lambda>_. ''d'') sample_exn_lib (exec_all sample_exec_events)"
  "exec_steps (\<lambda>_. ''d'') sample_exn_lib (exec_all (sample_exec_events @ [CallFailed 0 0 NetworkError]))"
  unfolding exec_all_def by (rule exec_run_steps [OF ex_start sample_exec_ok(1)], rule exec_run_steps [OF ex_start sample_exec_ok(2)])

lemma sample_exec_computed:
  "map call_key (calls (exec_all sample_exec_events)) = [(''h'', ''1'')]"
  "map efpArgs (calls (exec_all sample_exec_events)) = [[DInt 1]]"
  "failed (exec_all (sample_exec_events @ [CallFailed 0 0 NetworkError])) = [(''h'', ''1'')]"
  "map fst (analysed (exec_all sample_exec_events)) = [''d'']"
  by code_simp+

text \<open>A function that is not selected, with a trace and no parameters: its run button is clicked, it is rendered
  again with the same key, and clicked again. With the cursor in the function the second click is not
  possible. So the button of a view from the cache starts a call that is under way a second time.\<close>

definition stale_run_events :: "string option \<Rightarrow> exec_event list" where
  "stale_run_events cursor =
     [Edit (\<lambda>_. EBlank ''1'') (\<lambda>_. \<lparr>ufmName = Some ''f'', ufmParameters = []\<rparr>) (Some ReadWrite),
      ClientEvent (Refocus cursor [''f'' \<mapsto> TLFunc]),
      ClientEvent (FunctionResult ''f'' ''t'' \<lparr>fr_fnName = ''g'', fr_callerID = ''2'', fr_argHash = [], fr_argHashVersion = 0, fr_value = DInt 1\<rparr>),
      Render ''f'' [] False, ClickRun ''f'', Render ''f'' [] False]"

lemma stale_run_button:
  "exec_run_ok (stale_run_events None @ [ClickRun ''f'']) (exec_all [])"
  "map call_key (calls (exec_all (stale_run_events None @ [ClickRun ''f'']))) = [(''f'', ''1''), (''f'', ''1'')]"
  "exec_run_ok (stale_run_events (Some ''f'')) (exec_all [])"
  "\<not> exec_enabled (\<lambda>_. ''d'') (ClickRun ''f'') (exec_all (stale_run_events (Some ''f'')))"
  by code_simp+

text \<open>C11: The marks \<open>executingFunctions\<close> account for the calls of the API: in every reachable state each mark is
  that of a call under way or of one that has failed, and a call of the program that was started only
  with buttons that the view of the model had at the click is under way at most once, and its marks are
  counted by its calls under way and failed. While it is under way its function shows as executing,
  and once its toplevel is rendered anew, because the cursor is in it or the key of its cache has
  changed, neither its button nor the run button of its function sends anything.\<close>

theorem executing_accounted:
  assumes "exec_steps d L s"
  shows "set (executingFunctions (cm s)) \<subseteq> set (map call_key (calls s)) \<union> set (failed s)
    \<and> (\<forall>k. k \<notin> set (stale_clicks s) \<longrightarrow> count_list (executingFunctions (cm s)) k \<le> 1
        \<and> count_list (executingFunctions (cm s)) k = count_list (map call_key (calls s)) k + count_list (failed s) k)
    \<and> (\<forall>p \<in> set (calls s). call_key p \<notin> set (stale_clicks s) \<longrightarrow>
        exeStatus d (cm s) (efpTLID p) = IsExecuting
        \<and> (renders_anew d rest s (efpTLID p) \<longrightarrow>
            \<not> exec_enabled d (ClickCall fn (efpTLID p) (efpCallerID p)) (exec_run d L (Render (efpTLID p) rest keep) s)
            \<and> \<not> exec_enabled d (ClickRun (efpTLID p)) (exec_run d L (Render (efpTLID p) rest keep) s)))"
proof -
  note a = exec_steps_accounted [OF assms]
  have "(efpTLID p, efpCallerID p) \<in> set (executingFunctions (cm s))"
    if "p \<in> set (calls s)" "call_key p \<notin> set (stale_clicks s)" for p
  proof -
    have "count_list (map call_key (calls s)) (call_key p) \<noteq> 0" using that(1) by (simp add: count_list_0_iff)
    then have "marks s (call_key p) \<noteq> 0" using accounted_count [OF a that(2)] by (simp add: owed_def)
    then show ?thesis by (simp add: marks_def count_list_0_iff call_key_def)
  qed
  note silent = marked_silent [OF this]
  show ?thesis
    by (intro conjI ballI impI a [unfolded accounted_def marks_def owed_def, THEN conjunct1]
        a [unfolded accounted_def marks_def owed_def, THEN conjunct2] silent)
qed

theorem executing_accounted_witness:
  "executingFunctions (cm (exec_all sample_exec_events)) = [(''h'', ''1'')]
   \<and> exeStatus (\<lambda>_. ''d'') (cm (exec_all sample_exec_events)) ''h'' = IsExecuting"
proof -
  let ?s = "exec_all sample_exec_events"
  note a = executing_accounted [OF sample_exec_steps(1), of "[]" sample_fn False]
  have f: "stale_clicks ?s = []" "executingFunctions (cm ?s) = [(''h'', ''1'')]" by code_simp+
  obtain p where p: "calls ?s = [p]" "call_key p = (''h'', ''1'')" using sample_exec_computed(1) by auto
  have "exeStatus (\<lambda>_. ''d'') (cm ?s) (efpTLID p) = IsExecuting" using a p(1) f(1) by simp
  then show ?thesis using p(2) f(2) by (simp add: call_key_def)
qed

text \<open>C13: A call whose request fails blocks itself: when it was started only with buttons that the view of the
  model had, its mark stays, so that in every later state its function shows as executing, the view of
  the model has no button for it, and once its toplevel is rendered anew neither its button nor the
  run button of its function sends anything; every step leaves it so, until the page is reloaded or
  a button of an older view, still on the screen, starts it again.\<close>

theorem failed_call_blocks:
  assumes "exec_steps d L s" and "(t, i) \<in> set (failed s)" and "(t, i) \<notin> set (stale_clicks s)"
  shows "exeStatus d (cm s) t = IsExecuting \<and> \<not> call_offered d (cm s) fn t i \<and> run_offered d (cm s) t = None
    \<and> (renders_anew d rest s t \<longrightarrow>
        \<not> exec_enabled d (ClickCall fn t i) (exec_run d L (Render t rest keep) s)
        \<and> \<not> exec_enabled d (ClickRun t) (exec_run d L (Render t rest keep) s))
    \<and> (executingFunctions (cm (exec_run d L e s)) = [] \<and> screen (exec_run d L e s) = (\<lambda>_. None)
       \<or> (t, i) \<in> set (failed (exec_run d L e s))
          \<and> ((t, i) \<notin> set (stale_clicks (exec_run d L e s)) \<or> (\<exists>fn. e = ClickCall fn t i) \<or> e = ClickRun t))"
proof -
  note a = exec_steps_accounted [OF assms(1)]
  have "count_list (failed s) (t, i) \<noteq> 0" using assms(2) by (simp add: count_list_0_iff)
  then have "marks s (t, i) \<noteq> 0" using accounted_count [OF a assms(3)] by (simp add: owed_def)
  then have m: "(t, i) \<in> set (executingFunctions (cm s))" by (simp add: marks_def count_list_0_iff)
  have r: "run_offered d (cm s) t = None" using run_offered_free(2) m by (cases "run_offered d (cm s) t") blast+
  have "executingFunctions (cm (exec_run d L e s)) = [] \<and> screen (exec_run d L e s) = (\<lambda>_. None)
       \<or> (t, i) \<in> set (failed (exec_run d L e s))
          \<and> ((t, i) \<notin> set (stale_clicks (exec_run d L e s)) \<or> (\<exists>fn. e = ClickCall fn t i) \<or> e = ClickRun t)"
  proof (cases e)
    case (ClickRun t')
    show ?thesis
    proof (cases "Option.bind (screen s t') (\<lambda>v. v_run (snd v))")
      case (Some p)
      then obtain k v where "screen s t' = Some (k, v)" "v_run v = Some p" by (auto simp: bind_eq_Some_conv)
      then have "efpTLID p = t'" using exec_steps_screen [OF assms(1)] by (simp add: screen_ok_def)
      then show ?thesis using assms(2,3) ClickRun Some by (auto simp: after_click_def call_key_def)
    qed (use assms(2,3) ClickRun in simp)
  qed (use assms(2,3) in \<open>auto simp: after_click_def case_prod_beta Let_def reloaded_def\<close>)
  note step = this
  show ?thesis by (intro conjI impI marked_silent [OF m] r step)
qed

theorem failed_call_blocks_witness:
  "exeStatus (\<lambda>_. ''d'') (cm (exec_all (sample_exec_events @ [CallFailed 0 0 NetworkError]))) ''h'' = IsExecuting
   \<and> \<not> call_offered (\<lambda>_. ''d'') (cm (exec_all (sample_exec_events @ [CallFailed 0 0 NetworkError]))) sample_fn ''h'' ''1''"
proof -
  have "stale_clicks (exec_all (sample_exec_events @ [CallFailed 0 0 NetworkError])) = []" by code_simp
  then show ?thesis using failed_call_blocks [OF sample_exec_steps(2), of "''h''" "''1''"] sample_exec_computed(3) by simp
qed

text \<open>C14: The store of a trace is the result of the last analysis received for it: errors leave it as it
  is, results of other traces too, and the states \<open>LoadableLoading\<close> and \<open>LoadableError\<close>, for which
  \<open>getLiveValue\<close> and \<open>getLiveValueLoadable\<close> would differ, do not occur.\<close>

theorem stored_is_latest:
  assumes "exec_steps d L s"
  shows "getStoredAnalysis (cm s) tr =
      (case map_of (rev (analysed s)) tr of None \<Rightarrow> LoadableNotInitialized | Some dvals \<Rightarrow> LoadableSuccess dvals)
    \<and> (getLiveValue (cm s) i tr = Some v \<longleftrightarrow>
        getLiveValueLoadable (getStoredAnalysis (cm s) tr) i \<in> {LoadableSuccess (ExecutedResult v), LoadableSuccess (NonExecutedResult v)})"
  using exec_steps_analyses [OF assms]
  by (auto simp: getStoredAnalysis_def getLiveValue_def getLiveValue'_def getLiveValueLoadable_def
      split: option.split executionResult.split)

theorem stored_is_latest_witness:
  "getLiveValue (cm (exec_all sample_exec_events)) ''2'' ''d'' = Some (DInt 1)
   \<and> getStoredAnalysis (cm (exec_all sample_exec_events)) ''other'' = LoadableNotInitialized"
proof -
  let ?s = "exec_all sample_exec_events"
  have r: "analysed ?s = [(''d'', [''2'' \<mapsto> ExecutedResult (DInt 1), ''1'' \<mapsto> ExecutedResult (DIncomplete (SourceId ''h'' ''1''))])]"
    by (simp add: exec_all_def sample_exec_events_def init_exec_def after_click_def)
  note l = stored_is_latest [OF sample_exec_steps(1)]
  show ?thesis using l [of "''d''" "''2''" "DInt 1"] l [of "''other''"] by (simp add: r getLiveValueLoadable_def)
qed

text \<open>C12: When a call of the API returns for a trace whose data the client has, the function's mark is
  removed, the analysis of its handler or function is requested on that data with the new result in
  front, whatever is in focus, and the client keeps the result in the trace unless the server names the
  toplevel among those whose traces have changed.\<close>

theorem executed_value_analysed:
  assumes "traces (base m) t = Some ts" and "getTrace d (base m) t tr = Some (tr', Inr data)"
    and "toplevels (base m) t = Some kind" and "kind = TLHandler \<or> kind = TLFunc"
    and "efpTLID p = t" and "efpTraceID p = tr"
    and "r = \<lparr>fr_fnName = efpFnName p, fr_callerID = efpCallerID p, fr_argHash = hash, fr_argHashVersion = hashVersion, fr_value = v\<rparr>"
  shows "ClientCmd (SendAnalysis kind t tr (with_result r data)) \<in> set (snd (execute_callback_ok d p (v, hash, hashVersion, tlids) m))
    \<and> (t, efpCallerID p) \<notin> set (executingFunctions (fst (execute_callback_ok d p (v, hash, hashVersion, tlids) m)))
    \<and> (t \<notin> set tlids \<longrightarrow>
        getTrace d (base (fst (execute_callback_ok d p (v, hash, hashVersion, tlids) m))) t tr = Some (tr, Inr (with_result r data)))"
proof -
  let ?m1 = "fst (UpdateTraceFunctionResult d t tr r (base m))"
  have t: "traces ?m1 = traces (replaceFunctionResult t tr r (base m))" "toplevels ?m1 = toplevels (base m)"
    by (simp_all add: UpdateTraceFunctionResult_def case_prod_beta Let_def) (simp add: replaceFunctionResult_def)
  have g: "getTrace d ?m1 t tr = Some (tr, Inr (with_result r data))"
    unfolding getTrace_cong [OF t(1)] by (rule getTrace_replaced [OF assms(1,2)])
  have "SendAnalysis kind t tr (with_result r data) \<in> set (snd (UpdateTraceFunctionResult d t tr r (base m)))"
  proof -
    have "requestAnalysis d ?m1 t tr = [SendAnalysis kind t tr (with_result r data)]"
      using g t(2) assms(3,4) by (auto simp: requestAnalysis_def)
    then show ?thesis by (simp add: UpdateTraceFunctionResult_def case_prod_beta Let_def)
  qed
  moreover have "getTrace d (fst (OverrideTraces d (map_of (map (\<lambda>tlid. (tlid, [(tr, Inl NoneYet)])) tlids)) ?m1)) t tr
      = Some (tr, Inr (with_result r data))" if "t \<notin> set tlids"
    using g getTrace_kept [OF that, of d ?m1 "[(tr, Inl NoneYet)]" tr]
    unfolding OverrideTraces_def getTrace_cong [OF analyzeFocused_traces] by simp
  ultimately show ?thesis
    by (auto simp: execute_callback_ok_def case_prod_beta Let_def assms(5,6) simp flip: assms(7))
qed

definition sample_data :: "dval trace_data" where
  "sample_data = \<lparr>td_input = [], td_timestamp = ''now'', td_functionResults = []\<rparr>"

definition sample_exec_client :: exec_client where
  "sample_exec_client = (cm (exec_all sample_exec_events))
     \<lparr>base := \<lparr>traces = [''h'' \<mapsto> [(''t'', Inr sample_data)]], tlTraceIDs = (\<lambda>_. None), syncState = {}, focused = None,
       toplevels = [''h'' \<mapsto> TLHandler]\<rparr>\<rparr>"

theorem executed_value_analysed_witness:
  "let p = \<lparr>efpTLID = ''h'', efpTraceID = ''t'', efpCallerID = ''1'', efpFnName = ''f'', efpArgs = [DInt 1]\<rparr>;
       r = \<lparr>fr_fnName = ''f'', fr_callerID = ''1'', fr_argHash = ''#'', fr_argHashVersion = 1, fr_value = DInt 7\<rparr>
   in ClientCmd (SendAnalysis TLHandler ''h'' ''t'' (with_result r sample_data))
        \<in> set (snd (execute_callback_ok (\<lambda>_. ''d'') p (DInt 7, ''#'', 1, [''other'']) sample_exec_client))"
  unfolding Let_def
  by (rule executed_value_analysed [THEN conjunct1])
    (simp_all add: sample_exec_client_def getTrace_def getTraces_def)

end
