(* ===== verification/AnalysisResults.thy ===== *)
theory AnalysisResults
  imports OcamlSystem FSharpSystem FunctionExecution
begin

text \<open>
  What becomes of an analysis: the events \<open>receiveAnalysis\<close> of the page, taken by the listener of
  \<open>Analysis.ml\<close> as they are (\<open>Obj.magic\<close>), update the stores of the client. With the engines behind the
  page this gives the live values of the editor as a function of the messages the page has posted.
\<close>

section \<open>The listener\<close>

text \<open>\<open>detail\<close> is the result that the detail of an event stands for.\<close>

definition receive_all :: "(jsval \<Rightarrow> analysis_result) \<Rightarrow> jsval list \<Rightarrow> exec_client \<Rightarrow> exec_client" where
  "receive_all detail vs m = fold (\<lambda>v. ReceiveAnalysis (detail v)) vs m"

text \<open>The result of an analysis that succeeded, with its trace.\<close>

definition success :: "(jsval \<Rightarrow> analysis_result) \<Rightarrow> jsval \<Rightarrow> (string \<times> result_store) option" where
  "success detail v = (case detail v of Inr r \<Rightarrow> Some r | Inl _ \<Rightarrow> None)"

definition last_result :: "('m \<Rightarrow> (string \<times> result_store) option) \<Rightarrow> 'm list \<Rightarrow> string \<Rightarrow> result_store option" where
  "last_result f ms tr = map_of (rev (List.map_filter f ms)) tr"

lemma map_filter_twice: "List.map_filter f (List.map_filter g xs) = List.map_filter (\<lambda>x. Option.bind (g x) f) xs"
  by (induction xs) (auto simp: List.map_filter_def split: option.splits)

lemma last_result_snoc:
  "last_result f (ms @ [m]) tr = (case f m of Some (t, dvals) \<Rightarrow> if t = tr then Some dvals else last_result f ms tr
     | None \<Rightarrow> last_result f ms tr)"
  by (auto simp: last_result_def List.map_filter_def split: option.split)

lemma stored_after:
  "getStoredAnalysis (receive_all detail vs m) tr =
     (case last_result (success detail) vs tr of None \<Rightarrow> getStoredAnalysis m tr | Some dvals \<Rightarrow> LoadableSuccess dvals)"
proof (induction vs rule: rev_induct)
  case (snoc v vs)
  have "getStoredAnalysis (ReceiveAnalysis (detail v) c) tr =
      (case success detail v of Some (t, dvals) \<Rightarrow> if t = tr then LoadableSuccess dvals else getStoredAnalysis c tr
       | None \<Rightarrow> getStoredAnalysis c tr)" for c
    by (auto simp: ReceiveAnalysis_def success_def UpdateAnalysis_def record_analysis_def set_error_def getStoredAnalysis_def
        split: sum.split analysis_error.split)
  then show ?case using snoc by (auto simp: receive_all_def last_result_snoc split: option.split)
qed (simp add: receive_all_def last_result_def List.map_filter_def)

context engine
begin

text \<open>The results that the client of an engine has seen are those of the messages handled so far.\<close>

lemma last_seen:
  assumes "reach s"
  shows "last_result f (seen s) tr = last_result (\<lambda>m. Option.bind (outcome m) f) (take (done_with s) (sent s)) tr"
  unfolding last_result_def seen_outcomes [OF assms] map_filter_twice ..

end

section \<open>Properties\<close>

text \<open>With the OCaml engine the store of a trace is, once the answers under way have arrived, the result
  of the last message for that trace among those the worker has handled, in the order they were
  posted; messages without an answer, failed analyses and results for other traces do not change
  it.\<close>

theorem ocaml_results_stored:
  assumes "ocaml_steps S s" and "\<not> truthy (os_param S)" and "OcamlSystem.answers s = []"
  shows "getStoredAnalysis (receive_all detail (events_named ''receiveAnalysis'' (effects (opage s))) m) tr =
    (case last_result (\<lambda>msg. Option.bind (ocaml_outcome S msg) (success detail)) (take (handled s) (opage_posted (opage s))) tr of
       None \<Rightarrow> getStoredAnalysis m tr | Some dvals \<Rightarrow> LoadableSuccess dvals)"
  unfolding stored_after using oce.last_seen [of S s "success detail" tr] assms by simp

definition sample_detail :: "jsval \<Rightarrow> analysis_result" where
  "sample_detail v = (case v of JArr vs \<Rightarrow> Inr (''t'', [''1'' \<mapsto> ExecutedResult (DInt (int (length vs)))])
     | JStr s \<Rightarrow> Inr (''t'', [''1'' \<mapsto> ExecutedResult (DStr s)]) | _ \<Rightarrow> Inl (AnalysisParseError ''no result''))"

theorem ocaml_results_stored_witness:
  "getStoredAnalysis (receive_all sample_detail [JArr [], JObj []] sample_exec_client) ''t''
     = LoadableSuccess [''1'' \<mapsto> ExecutedResult (DInt 0)]"
proof -
  have o: "\<not> truthy (os_param sample_setup)" by (simp add: sample_setup_def)
  have "map (ocaml_outcome sample_setup) [JStr ''[]'', JStr ''x'', JStr ''{}''] = [Some (JArr []), None, Some (JObj [])]"
    using sample_answers by (simp add: ocaml_outcome_def)
  then have l: "last_result (\<lambda>msg. Option.bind (ocaml_outcome sample_setup msg) (success sample_detail))
      [JStr ''[]'', JStr ''x'', JStr ''{}''] ''t'' = Some [''1'' \<mapsto> ExecutedResult (DInt 0)]"
    by (simp add: last_result_def List.map_filter_def success_def sample_detail_def)
  have e: "events_named ''receiveAnalysis'' (effects (opage sample_ocaml)) = [JArr [], JObj []]"
    using oce.seen_outcomes [of sample_setup sample_ocaml] sample_ocaml_steps o sample_ocaml_computed sample_answers
    by (simp add: List.map_filter_def ocaml_outcome_def)
  from ocaml_results_stored [OF sample_ocaml_steps o sample_ocaml_computed(2), of sample_detail sample_exec_client "''t''"]
  show ?thesis using l by (simp add: e sample_ocaml_computed)
qed

text \<open>C15: With the F# engine the editor ends with the result of the newest message: once nothing is under way,
  if the last message posted has a result, the client's store for its trace is this result, whatever was
  stored before and whatever the interleaving, and no request is waiting.\<close>

theorem fsharp_last_result_stored:
  assumes "fsharp_laws S" and "truthy (fs_param S)" and "fsharp_steps S s" and "quiet s"
    and "fsharp_history (page (core s)) = ms @ [msg]" and "analysis_outcome S msg = Some v"
    and "detail v = Inr (tr, dvals)"
  shows "getStoredAnalysis (receive_all detail (events_named ''receiveAnalysis'' (effects (page (core s)))) m) tr = LoadableSuccess dvals
    \<and> fsharp_next (page (core s)) = JNull"
proof -
  let ?d = "page (core s)"
  have i: "fs_sys S (core s)" "events_inv S ?d"
    using fsharp_steps_inv [OF assms(1-3)] by (simp_all add: fs_inv_def)
  have all: "fs_answered ?d = length (fsharp_history ?d)"
    using quiet_unanswered [OF assms(1) fsharp_steps_inv [OF assms(1-3)] assms(4)] assms(5,6) by fastforce
  then have b: "\<not> fsharp_busy ?d" using i(2) all assms(5,6) by (simp add: events_inv_def)
  have "fsharp_inv False ?d" by (rule fs_sysD(3) [OF i(1)])
  then have n: "fsharp_next ?d = JNull" using b by (auto simp: fsharp_inv_def split: option.splits if_splits)
  have "last_result (success detail) (events_named ''receiveAnalysis'' (effects ?d)) tr = Some dvals"
    using fse.last_seen [of S s "success detail" tr] assms(1-3,5-7) all
    by (simp add: last_result_snoc success_def)
  then show ?thesis using n by (simp add: stored_after)
qed

theorem fsharp_last_result_stored_witness:
  "getStoredAnalysis (receive_all sample_detail [JArr [JStr ''no JSON''], JStr ''y''] sample_exec_client) ''t''
     = LoadableSuccess [''1'' \<mapsto> ExecutedResult (DStr ''y'')]"
proof -
  have t: "truthy (fs_param sample_fsharp_setup)" by (simp add: sample_fsharp_setup_def)
  have h: "fsharp_history (page (core sample_fsharp)) = [JStr ''bad''] @ [JStr ''y'']" by (simp add: sample_fsharp_computed)
  have e: "events_named ''receiveAnalysis'' (effects (page (core sample_fsharp))) = [JArr [JStr ''no JSON''], JStr ''y'']"
    using fse.seen_outcomes [of sample_fsharp_setup sample_fsharp] sample_fsharp_laws t sample_fsharp_steps
    by (simp add: sample_fsharp_computed sample_outcomes List.map_filter_def)
  have d: "sample_detail (JStr ''y'') = Inr (''t'', [''1'' \<mapsto> ExecutedResult (DStr ''y'')])" by (simp add: sample_detail_def)
  from fsharp_last_result_stored [where detail = sample_detail and m = sample_exec_client,
      OF sample_fsharp_laws t sample_fsharp_steps sample_fsharp_computed(2) h sample_outcomes(2) d]
  show ?thesis by (simp add: e)
qed

end
