(* ===== verification/Spec2Isabelle.thy ===== *)
theory Spec2Isabelle
  imports Base64Url Base64Spec Libtarget Channels AnalysisQueue FetcherQueue BlazorLoader System
    AstPositions Browser Telemetry Json JsonDecode Bootstrap AnalysisWrapper
    OcamlSystem TestSupport UserState StartupErrors Startup PageTypes FSharpDecode FSharpSystem
    ClientTraces FetchSystem Fluid FluidScope LiveValues ApiErrors FunctionExecution AnalysisResults
begin

text \<open>
  A verification library for the JavaScript of Dark: the browser side of the editor outside its
  OCaml and F# code, with the interfaces of the OCaml modules it is called from.

  \<^bold>\<open>The program.\<close> The editor's client is compiled from OCaml; \<open>client/src/appsupport.js\<close> is its
  host page code. It decides whether the browser is supported, starts the client, downloads the
  sources of two web workers and creates them, queues the analyses the client requests for one of
  two engines (the OCaml analysis worker or, with the query parameter \<open>use-blazor\<close>, the F# one in a
  Blazor worker), passes their answers back as DOM events, and reports errors, visibility, wheel
  events and analytics. \<open>fsharp-backend/src/Wasm/static/BlazorWorker.js\<close> is both the page's
  interface to the Blazor worker and the code that loads .NET inside it.
  \<open>backend/libtarget.js/libtarget.js\<close> has the base64url codec and the digests that the OCaml
  execution engine uses when it is compiled to JavaScript, called through
  \<open>backend/libtarget.js/libtarget.ml\<close>.

  \<^bold>\<open>The theories,\<close> one for each component, in the order of their imports:

  \<^item> \<open>Dark_Prelude\<close>: JavaScript values and truthiness, effects (events, console, calls of external
    objects), \<open>split\<close>, decimal numbers, truncation; the lemmas the components share.
  \<^item> \<open>Base64Url\<close>: \<open>dark_arrayBuffer_from_padded_b64url\<close> and \<open>..._to_padded_b64url\<close> of
    \<open>libtarget.js\<close>, with typed arrays of 8-bit words, 32-bit bitwise arithmetic, reads past the
    end and the lookup table as in the source; a decoder and an encoder by groups that the loops
    are proved equal to.
  \<^item> \<open>Base64Spec\<close>: the encoding of RFC 4648 as a specification on bits; the locale \<open>byte_codec\<close>,
    interpreted by the two functions.
  \<^item> \<open>Libtarget\<close>: the digests, and the wrappers of \<open>libtarget.ml\<close> with their validation; the
    locale \<open>guarded_codec\<close>.
  \<^item> \<open>Channels\<close>: a worker's message channel, and the two contracts of a queue: \<open>mailbox\<close> (one
    message in flight, the newest waiting) and \<open>retry_queue\<close> (requests wait on timers until the
    receiver has loaded); \<open>engine\<close>, what the client of a worker sees of it, interpreted by
    \<open>OcamlSystem\<close> and \<open>FSharpSystem\<close>.
  \<^item> \<open>AnalysisQueue\<close>: \<open>window.Dark.ocamlAnalysis\<close>, \<open>fsharpAnalysis\<close> and \<open>analysis\<close>,
    \<open>initWorker\<close> and \<open>postMessage\<close>, and \<open>FSharpAnalysisWrapper.ml\<close>: every handler is a function on
    one state record, the tasks of the event loop are the step relation \<open>dark_steps\<close>. The F# queue
    interprets \<open>mailbox\<close>, the OCaml queue \<open>retry_queue\<close>.
  \<^item> \<open>FetcherQueue\<close>: \<open>window.Dark.fetcher\<close> (a \<open>retry_queue\<close>) and the worker of \<open>Fetcher.ml\<close>.
  \<^item> \<open>ClientTraces\<close>: the client's side of the fetcher: the traces of the model and their merging
    (\<open>Analysis.ml\<close>), one request at a time for a key (\<open>Sync.ml\<close>) and the handlers of \<open>Main.ml\<close> that
    fetch a trace, receive lists of traces and request analyses, as the step relation \<open>client_steps\<close>.
  \<^item> \<open>FetchSystem\<close>: the client, the page's sender, the worker and its HTTP calls together, for the fetches
    of traces.
  \<^item> \<open>BlazorLoader\<close>: \<open>workerDef\<close> of \<open>BlazorWorker.js\<close> as a state machine: boot manifest, \<open>preRun\<close>
    with run dependencies, assemblies copied into the WebAssembly heap, \<open>postRun\<close>; runs carry
    their events (\<open>loader_trace\<close>).
  \<^item> \<open>System\<close>: the page and the Blazor worker together, with the messages between them.
  \<^item> \<open>AstPositions\<close>: \<open>window.Dark.ast.positions\<close>, with its regular expression as a backtracking
    matcher.
  \<^item> \<open>Browser\<close>: browser support and its overlay, platform, keys, visibility and the wheel listener
    of \<open>appsupport.js\<close> and \<open>unsupportedBrowser.js\<close>.
  \<^item> \<open>Telemetry\<close>: \<open>heapio.js\<close> and its calls, Rollbar and the global error handlers, screenshots, the
    calls of FullStory.
  \<^item> \<open>Json\<close>: \<open>JSON.stringify\<close> and \<open>JSON.parse\<close>, the second as a parser with fuel that is proved
    enough for every text; the round trip interprets the locale \<open>partial_codec\<close> of the prelude.
  \<^item> \<open>JsonDecode\<close>: the JSON library of the OCaml client as a record of functions, with what its
    documentation says of them.
  \<^item> \<open>Bootstrap\<close>: the parts of the start-up task: parameters, debugger, script downloads, worker
    sources and creation, Pusher bindings, and the reading of a quoted literal.
  \<^item> \<open>StartupErrors\<close>: the rejections of the downloads that nobody handles, and what the user sees of
    them.
  \<^item> \<open>AnalysisWrapper\<close>: the analysis worker \<open>AnalysisWrapper.ml\<close> with the object \<open>darkAnalysis\<close> of
    \<open>jsanalysis.ml\<close> and \<open>reportError\<close>, and how a worker starts.
  \<^item> \<open>OcamlSystem\<close>: the page, the start-up task's downloads and the analysis worker together.
  \<^item> \<open>PageTypes\<close>: the types of the values that the page keeps for the F# worker and posts to it, as an
    inductive judgement and an invariant of the tasks.
  \<^item> \<open>FSharpDecode\<close>: \<open>decodeOutput\<close> of \<open>FSharpAnalysisWrapper.ml\<close> with the decoders of
    \<open>Json_decode_extended.ml\<close> it is made of, as the decoder of the F# queue.
  \<^item> \<open>FSharpSystem\<close>: the page, the loader, the method \<open>EvalWorker.OnMessage\<close> of \<open>Wasm.fs\<close> with its tasks
    and the client's decoder together: the F# analysis from the request to the event.
  \<^item> \<open>Fluid\<close>: the expressions of the editor (\<open>FluidExpression.ml\<close>) with \<open>find\<close>, \<open>findParent\<close> and
    \<open>ancestors\<close>, and the arguments of a call through pipes (\<open>AST.ml\<close>). \<open>FluidScope\<close>: the symbol tables
    of \<open>AST.ml\<close> against the scopes of the language, and its uses and free variables.
  \<^item> \<open>LiveValues\<close>: the values in the client, the store of an analysis, what is shown of it and which
    calls can be run (\<open>Analysis.ml\<close>, \<open>ViewFnExecution.ml\<close>, \<open>FluidView.ml\<close>).
  \<^item> \<open>ApiErrors\<close>: \<open>APIError.ml\<close> and \<open>HandleAPIError\<close> of \<open>Main.ml\<close>, with \<open>Map.find_first_opt\<close> of OCaml's
    library on trees.
  \<^item> \<open>FunctionExecution\<close>: the buttons that run a function, the cached views on the screen on which clicks
    act (\<open>View.ml\<close>, \<open>ViewCache.ml\<close>), the handlers of \<open>Main.ml\<close> for the clicks, for the answers of the API
    and for analyses, as the step relation \<open>exec_steps\<close> over \<open>ClientTraces\<close>, \<open>LiveValues\<close> and
    \<open>ApiErrors\<close>.
  \<^item> \<open>AnalysisResults\<close>: the events of the two engines and the stores of the client together; its lemmas
    extend the locale \<open>engine\<close>.
  \<^item> \<open>TestSupport\<close>: the helpers of \<open>integration-tests/tests.js\<close>.
  \<^item> \<open>UserState\<close>: the user's saved settings (\<open>SavedUserSettings.ml\<close>, its encoder and decoder) and what
    the page and the integration tests make of the stored item.
  \<^item> \<open>Startup\<close>: the start-up task as a whole, in the order of the code, and \<open>InitialParameters.ml\<close>,
    which reads the parameters in the client.

  \<^bold>\<open>State and effects.\<close> A JavaScript task runs to completion, so a handler is a total function from
  state to state, an exception is a value beside the state reached when it was raised, and
  concurrency is the order of tasks: theorems quantify over all sequences of enabled tasks.
  Synchronous re-entrance (a listener that requests an analysis while an answer is dispatched) is an
  argument of the handler. Timers with equal delays fire in the order they were set.

  \<^bold>\<open>What the theorems show.\<close> Of the queues: no request is lost or duplicated where every one is to be
  sent, the newest request wins where only it matters, at most one analysis is in flight, a request
  made from inside an answer runs, and which faults break this (an undecodable answer stops the F#
  queue, so the theorem on the newest request asks the two answers it speaks of to decode; the OCaml queue's guard reads a property nothing sets, so it never queues). Of the loader:
  the ready message is sent once, after every assembly has settled, in every order; downloaded
  assemblies stay intact in the heap; a run has at most three events more than assemblies and ends
  ready, if the manifest names a dotnet script that can be imported and Mono starts. Of both together: the page sees exactly the worker \<open>AnalysisQueue\<close> assumes, and no message
  to the worker is dropped. Of the F# engine from end to end: the client is told the outcome of every
  message in order, an exception of the engine included, and the queue stops exactly at a message that
  has none; what is posted is a string unless a null request was reported. Of the page and the OCaml
  worker: every request the worker handles is
  answered by one event, in order, but for a result the client cannot decode; the worker starts with
  the page's Rollbar configuration in every order of the downloads if that configuration and the
  build hash, both pasted without escaping, are free of quotes, backslashes and control characters, and the downloaded scripts load; each worker that cannot start is shown to the user. Of
  the client: its traces are merged as specified and stay bounded by the lists it is given, none is
  fetched twice at once, every fetch is answered but where a 401 response cannot be read or the decoder
  raises an exception of OCaml, and a fetched trace is analysed with the data the server sent; the editor
  ends with the result of the newest message; the marks of running functions account for the calls,
  and block a call under way or failed in every view made anew, while a view from the cache may start
  one again; and the symbol tables are the scopes of the language. Of
  the texts that cross a boundary (parameters, configuration, saved settings): what is written is
  read. Of the codec: it is RFC 4648 base64url, it round-trips, it never throws,
  and what it does on malformed input.

  \<^bold>\<open>Parameters and bounds.\<close> Code that is not in the repository is an argument: the JSON encoders
  and decoders of the client's types, the hash library, \<open>malloc\<close> of the WebAssembly module (with
  \<open>good_malloc\<close>, its documented contract for calls that do not return a null pointer, satisfied by
  \<open>bump_malloc\<close>), what \<open>fetch\<close> and
  \<open>XMLHttpRequest\<close> deliver, and the order of events. Emscripten's run protocol appears as the guards
  of the loader's steps. Only the parser of \<open>Json\<close> uses fuel, twice the length of the text and two,
  which is enough for every text (\<open>json_parse_total\<close>); all other loops are structural or have a
  measure, and the length of a loader's run is bounded by a theorem. Finite doubles are rationals, strings outside the
  codec are Latin-1.

  \<^bold>\<open>Not modelled.\<close> The OCaml client and execution engine beyond the modules named above, the F#
  backend, the Rust services, the database, scripts and configuration; the individual integration
  tests; the DOM beyond what the listed functions read; \<open>validateEmail\<close> and \<open>formatDate\<close>, which each
  call one function of a library; the initialisation of Rollbar, Mono and Emscripten (whether it succeeds is
  an outcome of the steps, or the parameter \<open>os_runs\<close>); what FullStory does with its calls; the virtual DOM
  (whether it keeps a handler whose key has not changed is left open). Of a page that is reloaded,
  no task runs between the reload's command and its end. The JavaScript
  of the repository is otherwise covered. Of the F# backend only the worker's entry point is modelled;
  \<open>Eval.performAnalysis\<close> and the serializers are parameters of \<open>FSharpSystem\<close>. Of the editor
  the token stream, the autocomplete, the refactorings and the rendering are not modelled: they are
  independent of the pages and workers this library is about. The lists, dictionaries and options of
  the client's standard library (Tablecloth) are those of HOL, reads out of range being \<open>None\<close>.
\<close>

section \<open>The page and its Blazor worker\<close>

text \<open>C3: Nothing the page sends to the Blazor worker is lost in the start-up: in every state of the
  page and the worker together, whatever is requested before, during and after the loading, no
  message has reached the worker without a handler, what F# has received is an initial part of what
  the page posted, in order, and the page regards the worker as initialized only when the loader is
  ready.\<close>

theorem handshake_loses_nothing:
  assumes "sys_steps enc dec malloc appRoot h0 param s"
  shows "lost s = [] \<and> prefix (received s) (fsharp_history (page s))
    \<and> (fsharp_initialized (page s) \<longrightarrow> phase (wk s) = phase.Ready)"
proof -
  have i: "sys_inv s" using sys_steps_inv [OF assms] by simp
  have "prefix (take n xs) xs" for n and xs :: "jsval list" by (rule take_is_prefix)
  then show ?thesis using i unfolding sys_inv_def by metis
qed

theorem handshake_loses_nothing_witness:
  "lost sample_system = [] \<and> received sample_system = [JStr ''{}'']
   \<and> prefix [JStr ''{}''] (fsharp_history (page sample_system))"
  using handshake_loses_nothing [OF sample_steps_final] by (simp add: sample_computed)

text \<open>C4: The loader keeps the contract the queues rely on: in every state of the two together, the
  page's own state is one it can reach with a worker that announces itself once, after its creation
  and before any answer, and the worker's state is one of a run of the loader on its own.\<close>

theorem worker_contract_refined:
  assumes "sys_steps enc dec malloc appRoot h0 param s"
  shows "dark_reach enc dec param (page s) \<and> loader_trace malloc appRoot h0 (loader_events s) (wk s)"
  using sys_steps_inv [OF assms] by (simp add: sys_refines_def)

theorem worker_contract_refined_witness:
  "dark_reach (\<lambda>_. ''{}'') Inr (JStr ''1'') (page sample_system)
   \<and> fsharp_history (page sample_system) = [JStr ''{}'']"
  using worker_contract_refined [OF sample_steps_final] by (simp add: sample_computed)

text \<open>C32: The page gets its worker: with a well-formed manifest, which names a dotnet script, a sound
  allocator, a script that can be imported and a Mono that starts, once the loader cannot continue and its message has been handled, the page regards the worker as
  initialized, whatever else the page did meanwhile and however many assemblies failed.\<close>

theorem page_gets_ready:
  assumes "sys_steps enc dec malloc appRoot h0 param s" and "good_malloc malloc"
    and "good_manifest boot ks" and "booted_with boot (loader_events s)"
    and "list_all sound_event (loader_events s)" and "\<forall>ev. \<not> loader_enabled ev (wk s)" and "to_page s = []"
  shows "fsharp_initialized (page s)"
proof -
  have i: "sys_inv s" and l: "loader_trace malloc appRoot h0 (loader_events s) (wk s)"
    using sys_steps_inv [OF assms(1)] by (simp_all add: sys_refines_def)
  have "phase (wk s) \<noteq> Failed"
    using loader_trace_progress [OF assms(3) l] assms(4,5) by (simp add: progress_inv_def)
  then have "phase (wk s) = phase.Ready"
    using stuck_loader [OF loader_trace_inv [OF l] loader_trace_heap [OF assms(2) l] assms(6)] by simp
  then show ?thesis using i assms(7) by (auto simp: sys_inv_def split: if_splits)
qed

lemma sample_system_loader:
  "wk sample_system = sample_loader" "to_page sample_system = []"
  "loader_events sample_system = sample_events"
  by code_simp+

theorem page_gets_ready_witness: "fsharp_initialized (page sample_system)"
proof -
  have m: "good_manifest sample_boot [''a.dll'', ''a.pdb'']" "booted_with sample_boot (loader_events sample_system)"
    "list_all sound_event (loader_events sample_system)"
    unfolding sample_system_loader by code_simp+
  have "\<forall>ev. \<not> loader_enabled ev (wk sample_system)" by (simp add: sample_system_loader sample_stuck)
  then show ?thesis
    by (rule page_gets_ready [OF sample_steps_final bump_malloc_good m]) (simp add: sample_system_loader)
qed

end
